(* ===== verification/Prelude.thy ===== *)
theory Prelude
  imports "HOL-Library.Word" "HOL-Library.Sublist" "HOL-Library.AList"
begin

text \<open>
  What every component shares: bytes and Go strings, the error values of the program and the
  monadic plumbing of functions that return \<open>(value, error)\<close>, Go's wrap-around
  \<^verbatim>\<open>int64\<close>, Go's time, and the functions of the packages \<^verbatim>\<open>strings\<close> and
  \<^verbatim>\<open>bytes\<close> that the sources call.

  A Go string is a sequence of bytes. It is modelled by the type \<open>string\<close>, whose
  characters are bytes; \<open>length\<close> is Go's \<^verbatim>\<open>len\<close>. The functions below follow the
  documentation of the standard library, non-ASCII input included: \<open>trim_space\<close> knows the
  UTF-8 encodings of all white-space code points, \<open>equal_fold\<close> knows the two non-ASCII
  code points that fold to ASCII letters, and the case mappings take the Unicode table for the
  strings that are not pure ASCII as an argument.
\<close>

unbundle bit_operations_syntax

section \<open>Collections of facts\<close>

named_theorems err_simps \<open>when a computation with errors returns, or fails\<close>

section \<open>Bytes and strings\<close>

type_synonym byte = "8 word"
type_synonym bytes = "byte list"

definition byte_of_char :: "char \<Rightarrow> byte" where
  "byte_of_char c = word_of_nat (of_char c)"

definition char_of_byte :: "byte \<Rightarrow> char" where
  "char_of_byte b = char_of (unat b)"

text \<open>The conversions \<^verbatim>\<open>[]byte(s)\<close> and \<^verbatim>\<open>string(b)\<close>.\<close>

definition bytes_of_string :: "string \<Rightarrow> bytes" where
  "bytes_of_string s = map byte_of_char s"

definition string_of_bytes :: "bytes \<Rightarrow> string" where
  "string_of_bytes b = map char_of_byte b"

section \<open>Errors\<close>

text \<open>
  The operating system's errors the sources distinguish, and the error values of the packages:
  an anonymous error is its text (\<open>ErrMsg\<close>), \<^verbatim>\<open>fmt.Errorf\<close> with \<^verbatim>\<open>%w\<close>
  is \<open>ErrWrap\<close>, and a package's exported sentinel has a constructor of its own.
\<close>

datatype oserr = ENOENT | ENOTDIR | ELOOP | EACCES | EEXIST | EISDIR | ENOTEMPTY | EINVAL | EIO

datatype goerror =
    ErrMsg string
  | ErrWrap string goerror
  | ErrOS oserr
  | ErrOutsideRoots
  | ErrProcNotFound
  | ErrProcLimit
  | ErrSearchNotFound
  | ErrSearchLimit

text \<open>\<^verbatim>\<open>errors.Is\<close> looks through the wrapped errors.\<close>

fun errors_is :: "goerror \<Rightarrow> goerror \<Rightarrow> bool" where
  "errors_is (ErrWrap s e) t = (ErrWrap s e = t \<or> errors_is e t)"
| "errors_is e t = (e = t)"

definition bindE :: "'e + 'a \<Rightarrow> ('a \<Rightarrow> 'e + 'b) \<Rightarrow> 'e + 'b" where
  "bindE m f = (case m of Inl e \<Rightarrow> Inl e | Inr x \<Rightarrow> f x)"

definition ensure :: "bool \<Rightarrow> 'e \<Rightarrow> 'e + unit" where
  "ensure b e = (if b then Inr () else Inl e)"

section \<open>Machine integers and time\<close>

text \<open>Go's \<^verbatim>\<open>int64\<close> (and \<^verbatim>\<open>int\<close> on the supported platforms) wraps around.\<close>

definition wrap64 :: "int \<Rightarrow> int" where
  "wrap64 x = (x + 2 ^ 63) mod 2 ^ 64 - 2 ^ 63"

text \<open>The first \<open>n\<close> elements, for an \<open>n\<close> that counts like a Go \<^verbatim>\<open>int\<close>.\<close>

fun take_upto :: "int \<Rightarrow> 'a list \<Rightarrow> 'a list" where
  "take_upto n [] = []"
| "take_upto n (x # xs) = (if n \<le> 0 then [] else x # take_upto (n - 1) xs)"

text \<open>
  A \<^verbatim>\<open>time.Time\<close> is the number of nanoseconds since the zero time (1 January of year 1,
  UTC), so \<^verbatim>\<open>IsZero\<close> is equality with 0; a \<^verbatim>\<open>time.Duration\<close> is a number of
  nanoseconds.
\<close>

type_synonym time = int
type_synonym duration = int

abbreviation second :: duration where
  "second \<equiv> 1000000000"

text \<open>\<^verbatim>\<open>t.Unix()\<close> and \<^verbatim>\<open>time.Unix(s, 0)\<close>.\<close>

definition unix_epoch :: time where
  "unix_epoch = 62135596800 * second"

definition unix_of :: "time \<Rightarrow> int" where
  "unix_of t = (t - unix_epoch) div second"

definition time_unix :: "int \<Rightarrow> time" where
  "time_unix s = unix_epoch + s * second"

section \<open>Package strings\<close>

text \<open>The UTF-8 encodings of the code points for which \<^verbatim>\<open>unicode.IsSpace\<close> holds.\<close>

definition space_runes :: "string list" where
  "space_runes =
     [[CHR 0x20], [CHR 0x09], [CHR 0x0A], [CHR 0x0B], [CHR 0x0C], [CHR 0x0D],
      [CHR 0xC2, CHR 0x85], [CHR 0xC2, CHR 0xA0], [CHR 0xE1, CHR 0x9A, CHR 0x80],
      [CHR 0xE2, CHR 0x80, CHR 0x80], [CHR 0xE2, CHR 0x80, CHR 0x81],
      [CHR 0xE2, CHR 0x80, CHR 0x82], [CHR 0xE2, CHR 0x80, CHR 0x83],
      [CHR 0xE2, CHR 0x80, CHR 0x84], [CHR 0xE2, CHR 0x80, CHR 0x85],
      [CHR 0xE2, CHR 0x80, CHR 0x86], [CHR 0xE2, CHR 0x80, CHR 0x87],
      [CHR 0xE2, CHR 0x80, CHR 0x88], [CHR 0xE2, CHR 0x80, CHR 0x89],
      [CHR 0xE2, CHR 0x80, CHR 0x8A], [CHR 0xE2, CHR 0x80, CHR 0xA8],
      [CHR 0xE2, CHR 0x80, CHR 0xA9], [CHR 0xE2, CHR 0x80, CHR 0xAF],
      [CHR 0xE2, CHR 0x81, CHR 0x9F], [CHR 0xE3, CHR 0x80, CHR 0x80]]"

text \<open>Drop the patterns of a list from the front as long as one of them is a prefix.\<close>

definition front_len :: "string list \<Rightarrow> string \<Rightarrow> nat" where
  "front_len ps s = (case find (\<lambda>p. prefix p s) ps of None \<Rightarrow> 0 | Some p \<Rightarrow> length p)"

function trim_front :: "string list \<Rightarrow> string \<Rightarrow> string" where
  "trim_front ps s =
     (if s = [] \<or> front_len ps s = 0 then s else trim_front ps (drop (front_len ps s) s))"
  by pat_completeness auto
termination
  by (relation "measure (\<lambda>(ps, s). length s)") auto

declare trim_front.simps [simp del]

definition trim_left_space :: "string \<Rightarrow> string" where
  "trim_left_space s = trim_front space_runes s"

definition trim_right_space :: "string \<Rightarrow> string" where
  "trim_right_space s = rev (trim_front (map rev space_runes) (rev s))"

definition trim_space :: "string \<Rightarrow> string" where
  "trim_space s = trim_right_space (trim_left_space s)"

text \<open>\<^verbatim>\<open>strings.TrimRight(s, "/")\<close>.\<close>

definition trim_right_slash :: "string \<Rightarrow> string" where
  "trim_right_slash s = rev (dropWhile (\<lambda>c. c = CHR ''/'') (rev s))"

text \<open>\<^verbatim>\<open>strings.Split\<close> by one character: never the empty list.\<close>

fun split_on :: "char \<Rightarrow> string \<Rightarrow> string list" where
  "split_on c [] = [[]]"
| "split_on c (x # xs) =
     (if x = c then [] # split_on c xs
      else (case split_on c xs of [] \<Rightarrow> [[x]] | p # ps \<Rightarrow> (x # p) # ps))"

text \<open>\<^verbatim>\<open>strings.Join\<close>.\<close>

fun join :: "string \<Rightarrow> string list \<Rightarrow> string" where
  "join sep [] = []"
| "join sep [x] = x"
| "join sep (x # y # zs) = x @ sep @ join sep (y # zs)"

definition is_ascii :: "string \<Rightarrow> bool" where
  "is_ascii s = list_all (\<lambda>c. of_char c < (128 :: nat)) s"

definition lower_char :: "char \<Rightarrow> char" where
  "lower_char c = (if 65 \<le> (of_char c :: nat) \<and> of_char c \<le> (90 :: nat)
                   then char_of (of_char c + 32 :: nat) else c)"

definition upper_char :: "char \<Rightarrow> char" where
  "upper_char c = (if 97 \<le> (of_char c :: nat) \<and> of_char c \<le> (122 :: nat)
                   then char_of (of_char c - 32 :: nat) else c)"

text \<open>
  \<^verbatim>\<open>strings.ToLower\<close> and \<^verbatim>\<open>strings.ToUpper\<close>. The argument \<open>uni\<close> is the
  mapping of strings with a non-ASCII byte, which the Unicode tables define.
\<close>

definition to_lower :: "(string \<Rightarrow> string) \<Rightarrow> string \<Rightarrow> string" where
  "to_lower uni s = (if is_ascii s then map lower_char s else uni s)"

definition to_upper :: "(string \<Rightarrow> string) \<Rightarrow> string \<Rightarrow> string" where
  "to_upper uni s = (if is_ascii s then map upper_char s else uni s)"

text \<open>
  \<^verbatim>\<open>strings.EqualFold(s, t)\<close> for an ASCII string \<open>t\<close>: letters match in either case,
  and under simple Unicode folding the Kelvin sign (E2 84 AA) matches k and the long s (C5 BF)
  matches s.
\<close>

fun equal_fold :: "string \<Rightarrow> string \<Rightarrow> bool" where
  "equal_fold s [] = (s = [])"
| "equal_fold s (t # ts) =
     ((case s of [] \<Rightarrow> False | c # cs \<Rightarrow> lower_char c = lower_char t \<and> equal_fold cs ts) \<or>
      (lower_char t = CHR ''k'' \<and> prefix [CHR 0xE2, CHR 0x84, CHR 0xAA] s \<and>
         equal_fold (drop 3 s) ts) \<or>
      (lower_char t = CHR ''s'' \<and> prefix [CHR 0xC5, CHR 0xBF] s \<and>
         equal_fold (drop 2 s) ts))"

declare equal_fold.simps [simp del]

text \<open>The decimal representation of a number (\<^verbatim>\<open>%d\<close>, \<^verbatim>\<open>strconv\<close>).\<close>

fun show_nat :: "nat \<Rightarrow> string" where
  "show_nat n = (if n < 10 then [char_of (48 + n)] else show_nat (n div 10) @ [char_of (48 + n mod 10)])"

declare show_nat.simps [simp del]

definition show_int :: "int \<Rightarrow> string" where
  "show_int i = (if i < 0 then CHR ''-'' # show_nat (nat (- i)) else show_nat (nat i))"

text \<open>\<^verbatim>\<open>strings.Fields\<close>: the parts between runs of white space.\<close>

function fields_loop :: "string \<Rightarrow> string \<Rightarrow> string list" where
  "fields_loop acc s =
     (if s = [] then (if acc = [] then [] else [rev acc])
      else if front_len space_runes s > 0 then
        (if acc = [] then fields_loop [] (drop (front_len space_runes s) s)
         else rev acc # fields_loop [] (drop (front_len space_runes s) s))
      else fields_loop (hd s # acc) (tl s))"
  by pat_completeness auto
termination
  by (relation "measure (\<lambda>(acc, s). length s)") auto

declare fields_loop.simps [simp del]

definition string_fields :: "string \<Rightarrow> string list" where
  "string_fields s = fields_loop [] s"

text \<open>\<^verbatim>\<open>strconv.ParseInt(s, 10, 64)\<close>.\<close>

definition is_digit :: "char \<Rightarrow> bool" where
  "is_digit c = (48 \<le> (of_char c :: nat) \<and> of_char c \<le> (57 :: nat))"

definition digits_val :: "string \<Rightarrow> nat" where
  "digits_val ds = foldl (\<lambda>a c. a * 10 + (of_char c - 48)) 0 ds"

definition parse_int64 :: "string \<Rightarrow> int option" where
  "parse_int64 s =
     (let neg = (s \<noteq> [] \<and> hd s = CHR ''-'');
          ds = (if s \<noteq> [] \<and> (hd s = CHR ''-'' \<or> hd s = CHR ''+'') then tl s else s);
          v = (if neg then - int (digits_val ds) else int (digits_val ds))
      in if ds = [] \<or> \<not> list_all is_digit ds \<or> v < - (2 ^ 63) \<or> v \<ge> 2 ^ 63 then None else Some v)"

text \<open>
  \<^verbatim>\<open>net.SplitHostPort\<close>, without the port: the host is everything before the last colon, with
  the brackets of an IPv6 address removed.
\<close>

definition index_of :: "char \<Rightarrow> string \<Rightarrow> nat option" where
  "index_of c s = (if c \<in> set s then Some (length (takeWhile (\<lambda>x. x \<noteq> c) s)) else None)"

definition last_index_of :: "char \<Rightarrow> string \<Rightarrow> nat option" where
  "last_index_of c s = map_option (\<lambda>i. length s - 1 - i) (index_of c (rev s))"

definition split_host_port :: "string \<Rightarrow> string option" where
  "split_host_port hp =
     (case last_index_of CHR '':'' hp of
        None \<Rightarrow> None
      | Some i \<Rightarrow>
        if hp ! 0 = CHR ''['' then
          (case index_of CHR '']'' hp of
             None \<Rightarrow> None
           | Some e \<Rightarrow>
             if e + 1 \<noteq> i then None
             else if CHR ''['' \<in> set (drop 1 hp) \<or> CHR '']'' \<in> set (drop (e + 1) hp) then None
             else Some (take (e - 1) (drop 1 hp)))
        else
          (let host = take i hp
           in if CHR '':'' \<in> set host \<or> CHR ''['' \<in> set hp \<or> CHR '']'' \<in> set hp then None else Some host))"

section \<open>Lemmas\<close>

subsection \<open>Errors\<close>

lemma bindE_simps [simp]: "bindE (Inl e) f = Inl e" "bindE (Inr x) f = f x"
  by (simp_all add: bindE_def)

lemma bindE_Inr_iff [err_simps]: "bindE m f = Inr y \<longleftrightarrow> (\<exists>x. m = Inr x \<and> f x = Inr y)"
  by (cases m) simp_all

lemma bindE_Inl_iff [err_simps]:
  "bindE m f = Inl e \<longleftrightarrow> m = Inl e \<or> (\<exists>x. m = Inr x \<and> f x = Inl e)"
  by (cases m) simp_all

lemma ensure_simps [simp]: "ensure True e = Inr ()" "ensure False e = Inl e"
  by (simp_all add: ensure_def)

lemma ensure_Inr_iff [err_simps]: "ensure b e = Inr u \<longleftrightarrow> b"
  by (simp add: ensure_def)

lemma ensure_Inl_iff [err_simps]: "ensure b e = Inl e' \<longleftrightarrow> \<not> b \<and> e' = e"
  by (auto simp: ensure_def)

subsection \<open>Bytes\<close>

lemma byte_of_char_of_byte [simp]: "byte_of_char (char_of_byte b) = b"
proof -
  have "unat b < 256"
    using unsigned_less [of b, where ?'a = nat] by simp
  then show ?thesis
    by (simp add: byte_of_char_def char_of_byte_def)
qed

lemma of_char_lt_256: "of_char c < (256 :: nat)"
proof -
  have "of_char c = of_char c mod (256 :: nat)"
    by (metis char_of_char of_char_of)
  then show ?thesis
    by (metis mod_less_divisor zero_less_numeral)
qed

lemma char_of_byte_of_char [simp]: "char_of_byte (byte_of_char c) = c"
proof -
  have "unat (word_of_nat (of_char c) :: byte) = of_char c"
    using of_char_lt_256 [of c] by (simp add: unat_of_nat)
  then show ?thesis
    by (simp add: byte_of_char_def char_of_byte_def)
qed

lemma string_of_bytes_of_string [simp]: "string_of_bytes (bytes_of_string s) = s"
  by (simp add: string_of_bytes_def bytes_of_string_def comp_def)

lemma bytes_of_string_of_bytes [simp]: "bytes_of_string (string_of_bytes b) = b"
  by (simp add: string_of_bytes_def bytes_of_string_def comp_def)

lemma length_bytes_of_string [simp]: "length (bytes_of_string s) = length s"
  by (simp add: bytes_of_string_def)

subsection \<open>Machine integers and time\<close>

lemma bit_top_iff:
  fixes w :: "'a::len word"
  assumes "LENGTH('a) = Suc n"
  shows "bit w n \<longleftrightarrow> \<not> unat w < 2 ^ n"
proof -
  have "\<not> bit w n \<longleftrightarrow> take_bit n w = w"
  proof
    assume no: "\<not> bit w n"
    have "k < n" if "bit w k" for k
      using bit_imp_le_length [OF that] no that assms by (cases "k = n") auto
    then show "take_bit n w = w"
      by (auto simp: bit_eq_iff bit_take_bit_iff)
  next
    assume "take_bit n w = w"
    then show "\<not> bit w n"
      by (metis bit_take_bit_iff less_irrefl)
  qed
  also have "\<dots> \<longleftrightarrow> unat w < 2 ^ n"
    by (metis take_bit_nat_eq_self_iff unsigned_take_bit_eq word_unat_eq_iff)
  finally show ?thesis by blast
qed

lemma take_upto_take: "take_upto n xs = take (nat n) xs"
  by (induction n xs rule: take_upto.induct) (auto simp: nat_diff_distrib' take_Cons' Suc_diff_Suc)

lemma wrap64_id [simp]: "- (2 ^ 63) \<le> x \<Longrightarrow> x < 2 ^ 63 \<Longrightarrow> wrap64 x = x"
  by (simp add: wrap64_def)

lemma wrap64_bounds: "- (2 ^ 63) \<le> wrap64 x \<and> wrap64 x < 2 ^ 63"
proof -
  have "(x + 2 ^ 63) mod 2 ^ 64 < 2 ^ 64" and "0 \<le> (x + 2 ^ 63) mod 2 ^ 64"
    by simp_all
  then show ?thesis
    unfolding wrap64_def by simp
qed

lemma unix_of_time_unix [simp]: "unix_of (time_unix s) = s"
  by (simp add: unix_of_def time_unix_def)

subsection \<open>Lists\<close>

lemma count_list_update:
  assumes "r < length xs"
  shows "int (length (filter P (xs[r := y]))) =
    int (length (filter P xs)) - (if P (xs ! r) then 1 else 0) + (if P y then 1 else 0)"
  using assms
proof (induction xs arbitrary: r)
  case (Cons x xs)
  show ?case
  proof (cases r)
    case (Suc k)
    with Cons.IH [of k] Cons.prems show ?thesis
      by (cases "P (xs ! k)"; cases "P y") simp_all
  qed simp
qed simp

lemma length_filter_eq_map: "map P xs = map P ys \<Longrightarrow> length (filter P xs) = length (filter P ys)"
proof (induction xs arbitrary: ys)
  case (Cons x xs)
  then show ?case by (cases ys) auto
qed simp

lemma length_alist_update: "length (AList.update k v al) \<le> Suc (length al)"
  by (induction al) auto

lemma set_alist_update: "set (AList.update k v al) \<subseteq> insert (k, v) (set al)"
  by (induction al) auto

lemma list_update_all:
  "r < length xs \<Longrightarrow> \<forall>x\<in>set xs. P x \<Longrightarrow> P y \<Longrightarrow> \<forall>x\<in>set (xs[r := y]). P x"
  using set_update_subset_insert [of xs r y] by auto

subsection \<open>Split and join\<close>

lemma split_on_nonempty [simp]: "split_on c s \<noteq> []"
  by (cases s) (auto split: list.splits)

lemma split_on_append:
  "c \<notin> set p \<Longrightarrow> split_on c (p @ c # s) = p # split_on c s"
  by (induction p) auto

lemma split_on_no_sep: "c \<notin> set p \<Longrightarrow> split_on c p = [p]"
  by (induction p) auto

lemma split_on_pieces: "p \<in> set (split_on c s) \<Longrightarrow> c \<notin> set p"
proof (induction s arbitrary: p)
  case Nil
  then show ?case by simp
next
  case (Cons x s)
  obtain q qs where q: "split_on c s = q # qs"
    by (cases "split_on c s") auto
  with Cons show ?case
    by (auto split: if_splits)
qed

lemma split_on_join:
  assumes "ps \<noteq> []" and "\<forall>p\<in>set ps. c \<notin> set p"
  shows "split_on c (join [c] ps) = ps"
  using assms
proof (induction "[c]" ps rule: join.induct)
  case 1
  then show ?case by simp
next
  case (2 x)
  then show ?case by (simp add: split_on_no_sep)
next
  case (3 x y zs)
  then show ?case by (simp add: split_on_append)
qed

lemma join_split_on [simp]: "join [c] (split_on c s) = s"
proof (induction s)
  case Nil
  then show ?case by simp
next
  case (Cons x s)
  obtain q qs where q: "split_on c s = q # qs"
    by (cases "split_on c s") auto
  with Cons show ?case
    by (cases qs) auto
qed

lemma length_upper_map [simp]: "is_ascii s \<Longrightarrow> length (to_upper uni s) = length s"
  by (simp add: to_upper_def)

subsection \<open>Trimming\<close>

lemma front_len_prefix:
  assumes "front_len ps s \<noteq> 0"
  obtains p where "p \<in> set ps" and "p \<noteq> []" and "s = p @ drop (front_len ps s) s"
proof -
  from assms obtain p where f: "find (\<lambda>p. prefix p s) ps = Some p" and n: "front_len ps s = length p"
    by (auto simp: front_len_def split: option.splits)
  then have "p \<in> set ps" "prefix p s"
    by (auto simp: find_Some_iff)
  with n assms that show ?thesis
    by (auto simp: prefix_def)
qed

lemma trim_front_keeps:
  assumes "c \<in> set s" and "\<forall>p\<in>set ps. c \<notin> set p"
  shows "c \<in> set (trim_front ps s)"
  using assms
proof (induction ps s rule: trim_front.induct)
  case (1 ps s)
  show ?case
  proof (cases "s = [] \<or> front_len ps s = 0")
    case True
    with "1.prems" show ?thesis by (simp add: trim_front.simps)
  next
    case False
    then obtain p where p: "p \<in> set ps" "s = p @ drop (front_len ps s) s"
      using front_len_prefix by metis
    then have "c \<in> set (drop (front_len ps s) s)"
      using "1.prems" by (metis Un_iff set_append)
    with "1.IH" [OF False] "1.prems" False show ?thesis
      by (simp add: trim_front.simps [of ps s])
  qed
qed

lemma trim_front_id: "\<forall>p\<in>set ps. \<not> prefix p s \<Longrightarrow> trim_front ps s = s"
  by (subst trim_front.simps) (auto simp: front_len_def find_Some_iff split: option.splits)

text \<open>Characters that occur in no encoding of a white-space code point.\<close>

definition visible :: "char \<Rightarrow> bool" where
  "visible c = list_all (\<lambda>p. c \<notin> set p) space_runes"

lemma trim_space_keeps:
  assumes "c \<in> set s" and "visible c"
  shows "c \<in> set (trim_space s)"
proof -
  have "c \<in> set (trim_left_space s)"
    using assms by (auto simp: trim_left_space_def visible_def list_all_iff intro: trim_front_keeps)
  then have "c \<in> set (trim_front (map rev space_runes) (rev (trim_left_space s)))"
    using assms(2) by (intro trim_front_keeps) (auto simp: visible_def list_all_iff)
  then show ?thesis
    by (simp add: trim_space_def trim_right_space_def)
qed

lemma visible_slash: "visible CHR ''/''"
  by (simp add: visible_def space_runes_def)

lemma space_runes_nonempty: "[] \<notin> set space_runes"
  by (simp add: space_runes_def)

text \<open>A string whose first and last characters are visible is left alone.\<close>

lemma trim_space_id:
  assumes "s \<noteq> []" and "visible (hd s)" and "visible (last s)"
  shows "trim_space s = s"
proof -
  have no: "\<not> prefix p u" if "p \<noteq> []" "hd u \<notin> set p" for p u :: string
    using that by (cases p; cases u) auto
  have "trim_left_space s = s"
    unfolding trim_left_space_def using assms(2) space_runes_nonempty
    by (intro trim_front_id ballI no) (auto simp: visible_def list_all_iff)
  moreover have "trim_front (map rev space_runes) (rev s) = rev s"
    using assms(1,3) space_runes_nonempty
    by (intro trim_front_id ballI no) (auto simp: visible_def list_all_iff hd_rev)
  ultimately show ?thesis
    by (simp add: trim_space_def trim_right_space_def)
qed

text \<open>Trimming twice is trimming once.\<close>

lemma front_len_0: "front_len ps s = 0 \<Longrightarrow> [] \<notin> set ps \<Longrightarrow> p \<in> set ps \<Longrightarrow> \<not> prefix p s"
  by (auto simp: front_len_def find_None_iff find_Some_iff split: option.splits) (metis nth_mem)

lemma trim_front_stops:
  assumes "[] \<notin> set ps" and "trim_front ps s \<noteq> []" and "p \<in> set ps"
  shows "\<not> prefix p (trim_front ps s)"
  using assms
proof (induction ps s rule: trim_front.induct)
  case (1 ps s)
  show ?case
  proof (cases "s = [] \<or> front_len ps s = 0")
    case True
    then have "trim_front ps s = s" by (simp add: trim_front.simps)
    with 1 True show ?thesis using front_len_0 by auto
  next
    case False
    then have "trim_front ps s = trim_front ps (drop (front_len ps s) s)" by (subst trim_front.simps) simp
    with 1 False show ?thesis by auto
  qed
qed

lemma trim_front_suffix: "\<exists>zs. s = zs @ trim_front ps s"
proof (induction ps s rule: trim_front.induct)
  case (1 ps s)
  show ?case
  proof (cases "s = [] \<or> front_len ps s = 0")
    case True
    then show ?thesis by (simp add: trim_front.simps)
  next
    case False
    then obtain zs where "drop (front_len ps s) s = zs @ trim_front ps s" using 1 by (auto simp: trim_front.simps [of ps s])
    then have "s = take (front_len ps s) s @ zs @ trim_front ps s" by (metis append_take_drop_id)
    then show ?thesis by (metis append_assoc)
  qed
qed

lemma trim_space_idem [simp]: "trim_space (trim_space s) = trim_space s"
proof (cases "trim_space s = []")
  case True
  moreover have "trim_space [] = []" by (simp add: trim_space_def trim_left_space_def trim_right_space_def trim_front.simps [of _ "[]"])
  ultimately show ?thesis by simp
next
  case False
  let ?t = "trim_front space_runes s" and ?rs = "map rev space_runes"
  let ?u = "trim_front ?rs (rev ?t)"
  have u: "trim_space s = rev ?u" "?u \<noteq> []" using False by (simp_all add: trim_space_def trim_left_space_def trim_right_space_def)
  obtain zs where "rev ?t = zs @ ?u" using trim_front_suffix by blast
  then have t: "?t = rev ?u @ rev zs" by (metis rev_append rev_rev_ident)
  then have "?t \<noteq> []" using u(2) by auto
  then have "\<not> prefix p (rev ?u)" if "p \<in> set space_runes" for p
    using trim_front_stops [OF space_runes_nonempty _ that, of s] t by (metis prefix_def append_assoc)
  then have "trim_front space_runes (rev ?u) = rev ?u" by (intro trim_front_id) auto
  moreover have "trim_front ?rs ?u = ?u"
    using trim_front_stops [of ?rs "rev ?t"] u(2) space_runes_nonempty by (intro trim_front_id) auto
  ultimately show ?thesis unfolding u(1) by (simp add: trim_space_def trim_left_space_def trim_right_space_def)
qed

end
