(* ===== verification/Paths.thy ===== *)
theory Paths
  imports Prelude
begin

text \<open>
  The lexical part of Go's package \<^verbatim>\<open>path/filepath\<close> on a Unix system, as far as the
  sources use it: \<^verbatim>\<open>IsAbs\<close>, \<^verbatim>\<open>Clean\<close>, \<^verbatim>\<open>Join\<close>, \<^verbatim>\<open>Dir\<close>,
  \<^verbatim>\<open>Base\<close> and \<^verbatim>\<open>Rel\<close>. Paths are strings, as in the program. Absolute clean paths
  are in one-to-one correspondence with lists of proper names (\<open>canonical\<close>,
  \<open>path_of\<close>, \<open>comps\<close>); the lemmas say what each operation does on such lists.
\<close>

section \<open>Definitions\<close>

definition is_abs :: "string \<Rightarrow> bool" where
  "is_abs s = (case s of [] \<Rightarrow> False | c # _ \<Rightarrow> c = CHR ''/'')"

text \<open>
  \<^verbatim>\<open>Clean\<close> goes over the elements from left to right with the elements written so far
  (in reverse): empty elements and dots vanish, a dot-dot removes the element before it, is kept at
  the front of a relative path, and vanishes at the front of a rooted one.
\<close>

fun clean_comps :: "bool \<Rightarrow> string list \<Rightarrow> string list \<Rightarrow> string list" where
  "clean_comps rooted out [] = out"
| "clean_comps rooted out (c # cs) =
     (if c = [] \<or> c = ''.'' then clean_comps rooted out cs
      else if c = ''..'' then
        (case out of
           [] \<Rightarrow> clean_comps rooted (if rooted then [] else [c]) cs
         | d # ds \<Rightarrow> clean_comps rooted (if d = ''..'' then c # out else ds) cs)
      else clean_comps rooted (c # out) cs)"

definition clean :: "string \<Rightarrow> string" where
  "clean s =
     (if s = [] then ''.''
      else let out = rev (clean_comps (is_abs s) [] (split_on CHR ''/'' s))
           in if is_abs s then CHR ''/'' # join ''/'' out
              else if out = [] then ''.'' else join ''/'' out)"

definition path_join :: "string \<Rightarrow> string \<Rightarrow> string" where
  "path_join a b =
     (if a \<noteq> [] then clean (a @ ''/'' @ b) else if b \<noteq> [] then clean b else [])"

definition path_dir :: "string \<Rightarrow> string" where
  "path_dir s = clean (rev (dropWhile (\<lambda>c. c \<noteq> CHR ''/'') (rev s)))"

definition path_base :: "string \<Rightarrow> string" where
  "path_base s =
     (if s = [] then ''.''
      else if trim_right_slash s = [] then ''/''
      else last (split_on CHR ''/'' (trim_right_slash s)))"

definition comps :: "string \<Rightarrow> string list" where
  "comps s = filter (\<lambda>c. c \<noteq> []) (split_on CHR ''/'' s)"

fun strip_common :: "string list \<Rightarrow> string list \<Rightarrow> string list \<times> string list" where
  "strip_common (x # xs) (y # ys) = (if x = y then strip_common xs ys else (x # xs, y # ys))"
| "strip_common xs ys = (xs, ys)"

text \<open>\<^verbatim>\<open>Rel(base, target)\<close>; \<open>None\<close> is its error.\<close>

definition path_rel :: "string \<Rightarrow> string \<Rightarrow> string option" where
  "path_rel base targ =
     (let b = clean base; t = clean targ
      in if t = b then Some ''.''
         else let b' = (if b = ''.'' then [] else b)
              in if is_abs b' \<noteq> is_abs t then None
                 else let (bs, ts) = strip_common (comps b') (comps t)
                      in if bs \<noteq> [] \<and> hd bs = ''..'' then None
                         else Some (join ''/'' (replicate (length bs) ''..'' @ ts)))"

text \<open>
  The test that the sources apply to a relative path: it is not the parent, does not start with a
  step to the parent, and is not absolute.
\<close>

definition rel_inside :: "string \<Rightarrow> bool" where
  "rel_inside rel = (rel = ''.'' \<or> (rel \<noteq> ''..'' \<and> \<not> prefix ''../'' rel \<and> \<not> is_abs rel))"

text \<open>Proper names, and the absolute path of a list of names.\<close>

definition name_ok :: "string \<Rightarrow> bool" where
  "name_ok c = (c \<noteq> [] \<and> c \<noteq> ''.'' \<and> c \<noteq> ''..'' \<and> CHR ''/'' \<notin> set c)"

definition canonical :: "string list \<Rightarrow> bool" where
  "canonical cs = list_all name_ok cs"

definition path_of :: "string list \<Rightarrow> string" where
  "path_of cs = CHR ''/'' # join ''/'' cs"

section \<open>Lemmas\<close>

lemma canonical_simps [simp]:
  "canonical []" "canonical (c # cs) \<longleftrightarrow> name_ok c \<and> canonical cs"
  "canonical (cs @ ds) \<longleftrightarrow> canonical cs \<and> canonical ds"
  by (simp_all add: canonical_def)

lemma canonical_butlast: "canonical cs \<Longrightarrow> canonical (butlast cs)"
  by (metis append_butlast_last_id butlast.simps(1) canonical_simps(3))

lemma canonical_prefix: "prefix ds cs \<Longrightarrow> canonical cs \<Longrightarrow> canonical ds"
  by (auto simp: prefix_def)

lemma is_abs_path_of [simp]: "is_abs (path_of cs)"
  by (simp add: is_abs_def path_of_def)

lemma path_of_neq_Nil [simp]: "path_of cs \<noteq> []"
  by (simp add: path_of_def)

lemma clean_comps_canonical_id:
  "canonical cs \<Longrightarrow> clean_comps r out cs = rev cs @ out"
  by (induction cs arbitrary: out) (auto simp: name_ok_def)

lemma clean_comps_rooted:
  assumes "canonical out" and "\<forall>c\<in>set cs. CHR ''/'' \<notin> set c"
  shows "canonical (clean_comps True out cs)"
  using assms
proof (induction cs arbitrary: out)
  case (Cons c cs)
  then show ?case
    by (cases out) (auto simp: name_ok_def)
qed simp

lemma split_on_path_of:
  assumes "canonical cs"
  shows "split_on CHR ''/'' (path_of cs) = (if cs = [] then [[], []] else [] # cs)"
proof -
  have "\<forall>p\<in>set cs. CHR ''/'' \<notin> set p"
    using assms by (auto simp: canonical_def list_all_iff name_ok_def)
  then show ?thesis
    by (simp add: path_of_def split_on_join)
qed

lemma comps_path_of [simp]: "canonical cs \<Longrightarrow> comps (path_of cs) = cs"
  by (auto simp: comps_def split_on_path_of canonical_def list_all_iff name_ok_def
      intro!: filter_True)

lemma path_of_inject: "canonical cs \<Longrightarrow> canonical ds \<Longrightarrow> path_of cs = path_of ds \<longleftrightarrow> cs = ds"
  by (metis comps_path_of)

lemma clean_path_of [simp]: "canonical cs \<Longrightarrow> clean (path_of cs) = path_of cs"
  by (auto simp: clean_def split_on_path_of clean_comps_canonical_id) (simp_all add: path_of_def)

lemma clean_abs_ex:
  assumes "is_abs s"
  obtains cs where "canonical cs" and "clean s = path_of cs"
proof
  let ?cs = "rev (clean_comps True [] (split_on CHR ''/'' s))"
  have "canonical (clean_comps True [] (split_on CHR ''/'' s))"
    by (rule clean_comps_rooted) (auto dest: split_on_pieces)
  then show "canonical ?cs"
    by (simp add: canonical_def)
  show "clean s = path_of ?cs"
    using assms by (auto simp: clean_def path_of_def is_abs_def)
qed

lemma clean_idem_abs: "is_abs s \<Longrightarrow> clean (clean s) = clean s"
  by (metis clean_abs_ex clean_path_of)

lemma path_of_snoc:
  "path_of (cs @ [c]) = (if cs = [] then ''/'' @ c else path_of cs @ ''/'' @ c)"
proof -
  have "join ''/'' (cs @ [c]) = join ''/'' cs @ ''/'' @ c" if "cs \<noteq> []"
    using that by (induction "''/''" cs rule: join.induct) auto
  then show ?thesis
    by (simp add: path_of_def)
qed

lemma path_join_path_of [simp]:
  assumes "canonical cs" and "name_ok c"
  shows "path_join (path_of cs) c = path_of (cs @ [c])"
proof (cases "cs = []")
  case True
  have "split_on CHR ''/'' (''/'' @ ''/'' @ c) = [[], [], c]"
    using assms(2) by (simp add: split_on_no_sep name_ok_def)
  with True assms(2) show ?thesis
    by (simp add: path_join_def path_of_def clean_def is_abs_def name_ok_def)
next
  case False
  have "path_join (path_of cs) c = clean (path_of (cs @ [c]))"
    using False by (simp add: path_join_def path_of_snoc)
  with assms show ?thesis by simp
qed

lemma path_dir_path_of [simp]:
  assumes "canonical cs"
  shows "path_dir (path_of cs) = path_of (butlast cs)"
proof (cases cs rule: rev_cases)
  case Nil
  then show ?thesis
    by (simp add: path_dir_def path_of_def clean_def is_abs_def)
next
  case (snoc ds d)
  with assms have d: "CHR ''/'' \<notin> set d" and ds: "canonical ds"
    by (auto simp: name_ok_def)
  have dw: "dropWhile (\<lambda>c. c \<noteq> CHR ''/'') (rev d @ CHR ''/'' # xs) = CHR ''/'' # xs" for xs
    using d by (subst dropWhile_append2) auto
  show ?thesis
  proof (cases "ds = []")
    case True
    with snoc show ?thesis
      by (simp add: path_dir_def path_of_def dw clean_def is_abs_def)
  next
    case False
    have "path_dir (path_of cs) = clean (path_of ds @ ''/'')"
      using False snoc by (simp add: path_dir_def path_of_snoc dw)
    moreover have "split_on CHR ''/'' (path_of ds @ ''/'') = [] # ds @ [[]]"
    proof -
      have "\<forall>p\<in>set (ds @ [[]]). CHR ''/'' \<notin> set p"
        using ds by (auto simp: canonical_def list_all_iff name_ok_def)
      then have "split_on CHR ''/'' (join ''/'' (ds @ [[]])) = ds @ [[]]"
        by (intro split_on_join) simp_all
      moreover have "path_of ds @ ''/'' = path_of (ds @ [[]])"
        using False by (simp add: path_of_snoc)
      ultimately show ?thesis
        by (simp add: path_of_def)
    qed
    moreover have "clean_comps True [] (ds @ [[]]) = rev ds"
    proof -
      have "clean_comps True out (ds @ [[]]) = rev ds @ out" for out
        using ds by (induction ds arbitrary: out) (auto simp: name_ok_def)
      then show ?thesis by simp
    qed
    ultimately show ?thesis
      using snoc by (simp add: clean_def is_abs_def path_of_def)
  qed
qed

lemma path_base_path_of [simp]:
  assumes "canonical cs" and "cs \<noteq> []"
  shows "path_base (path_of cs) = last cs"
proof -
  obtain ds d where cs: "cs = ds @ [d]"
    using assms(2) by (cases cs rule: rev_cases) auto
  with assms have d: "d \<noteq> []" "CHR ''/'' \<notin> set d"
    by (auto simp: name_ok_def)
  define xs where "xs = (if ds = [] then ''/'' else path_of ds @ ''/'')"
  have xs: "path_of cs = xs @ d"
    using cs by (simp add: path_of_snoc xs_def)
  obtain e es where e: "rev d = e # es" and "e \<noteq> CHR ''/''"
    using d by (cases "rev d") (auto dest: arg_cong [where f = set])
  have "trim_right_slash (xs @ d) = rev (rev d @ rev xs)"
    using e \<open>e \<noteq> CHR ''/''\<close> by (simp add: trim_right_slash_def)
  then have "trim_right_slash (xs @ d) = xs @ d"
    by simp
  with assms d cs xs split_on_path_of [OF assms(1)] show ?thesis
    by (simp add: path_base_def)
qed

subsection \<open>Rel, and containment\<close>

lemma strip_common_spec:
  assumes "strip_common xs ys = (bs, ts)"
  shows "\<exists>pre. xs = pre @ bs \<and> ys = pre @ ts \<and> (bs = [] \<or> ts = [] \<or> hd bs \<noteq> hd ts)"
  using assms
proof (induction xs ys rule: strip_common.induct)
  case (1 x xs y ys)
  show ?case
  proof (cases "x = y")
    case True
    with "1" obtain pre where "xs = pre @ bs" "ys = pre @ ts" "bs = [] \<or> ts = [] \<or> hd bs \<noteq> hd ts"
      by auto
    with True show ?thesis
      by (intro exI [of _ "x # pre"]) auto
  next
    case False
    with "1.prems" show ?thesis by auto
  qed
qed auto

lemma path_rel_path_of:
  assumes "canonical rs" and "canonical ps" and "strip_common rs ps = (bs, ts)"
  shows "path_rel (path_of rs) (path_of ps) =
    Some (if rs = ps then ''.'' else join ''/'' (replicate (length bs) ''..'' @ ts))"
proof -
  have "path_of rs \<noteq> ''.''"
    by (simp add: path_of_def)
  moreover have "bs \<noteq> [] \<Longrightarrow> hd bs \<noteq> ''..''"
    using strip_common_spec [OF assms(3)] assms(1)
    by (cases bs) (auto simp: name_ok_def)
  ultimately show ?thesis
    using assms by (auto simp: path_rel_def path_of_inject)
qed

lemma rel_inside_names:
  assumes "canonical ts" and "ts \<noteq> []"
  shows "rel_inside (join ''/'' ts)"
proof -
  obtain t us where ts: "ts = t # us"
    using assms(2) by (cases ts) auto
  obtain c cs where t: "t = c # cs"
    using assms(1) ts by (cases t) (auto simp: name_ok_def)
  have sl: "CHR ''/'' \<notin> set t" "t \<noteq> ''..''"
    using assms(1) ts by (auto simp: name_ok_def)
  obtain rest where j: "join ''/'' ts = t @ rest" and r: "rest = [] \<or> hd rest = CHR ''/''"
    using ts by (cases us) auto
  have "\<not> is_abs (join ''/'' ts)"
    using j t sl by (auto simp: is_abs_def)
  moreover have "join ''/'' ts \<noteq> ''..''"
    using j sl r t by (cases rest; cases cs) (auto simp: append_eq_Cons_conv)
  moreover have "\<not> prefix ''../'' (join ''/'' ts)"
  proof
    assume "prefix ''../'' (join ''/'' ts)"
    then obtain zs where "t @ rest = ''../'' @ zs"
      using j by (auto simp: prefix_def)
    then have "t = ''..''"
      using sl(1) r by (auto simp: append_eq_append_conv2 append_eq_Cons_conv Cons_eq_append_conv)
    with sl(2) show False by simp
  qed
  ultimately show ?thesis
    by (simp add: rel_inside_def)
qed

lemma not_rel_inside_up:
  assumes "0 < n"
  shows "\<not> rel_inside (join ''/'' (replicate n ''..'' @ ts))"
proof -
  obtain m where n: "n = Suc m"
    using assms by (cases n) auto
  show ?thesis
  proof (cases "replicate m ''..'' @ ts")
    case Nil
    then show ?thesis
      using n by (simp add: rel_inside_def)
  next
    case (Cons a as)
    then have "join ''/'' (replicate n ''..'' @ ts) = ''../'' @ join ''/'' (a # as)"
      using n by simp
    then show ?thesis
      by (auto simp: rel_inside_def)
  qed
qed

text \<open>The lexical test decides containment of one absolute clean path in another.\<close>

lemma rel_inside_iff_prefix:
  assumes "canonical rs" and "canonical ps"
  shows "(\<exists>rel. path_rel (path_of rs) (path_of ps) = Some rel \<and> rel_inside rel) \<longleftrightarrow> prefix rs ps"
proof (cases "rs = ps")
  case True
  obtain bs ts where "strip_common rs ps = (bs, ts)"
    by fastforce
  from path_rel_path_of [OF assms this] True show ?thesis
    by (simp add: rel_inside_def)
next
  case False
  obtain bs ts where st: "strip_common rs ps = (bs, ts)"
    by fastforce
  then obtain pre where pre: "rs = pre @ bs" "ps = pre @ ts" "bs = [] \<or> ts = [] \<or> hd bs \<noteq> hd ts"
    using strip_common_spec by blast
  have rel: "path_rel (path_of rs) (path_of ps) = Some (join ''/'' (replicate (length bs) ''..'' @ ts))"
    using path_rel_path_of [OF assms st] False by simp
  show ?thesis
  proof (cases "bs = []")
    case True
    with pre False have "ts \<noteq> []" by auto
    with rel_inside_names assms(2) pre True rel show ?thesis
      by simp
  next
    case bs: False
    have "\<not> prefix rs ps"
      using pre bs by (cases bs; cases ts) auto
    with not_rel_inside_up bs rel show ?thesis
      by simp
  qed
qed

subsection \<open>Going up ends\<close>

text \<open>
  Repeated \<^verbatim>\<open>Dir\<close> reaches a path that is its own parent: each step makes the path
  shorter, where the path of the current directory counts as the shortest.
\<close>

definition dir_measure :: "string \<Rightarrow> nat" where
  "dir_measure s = (if s = ''.'' then 0 else Suc (length s))"

definition weight :: "string list \<Rightarrow> nat" where
  "weight cs = sum_list (map (\<lambda>c. Suc (length c)) cs)"

lemma weight_simps [simp]:
  "weight [] = 0" "weight (c # cs) = Suc (length c) + weight cs"
  "weight (cs @ ds) = weight cs + weight ds" "weight (rev cs) = weight cs"
  by (simp_all add: weight_def rev_map [symmetric] sum_list_rev)

lemma length_join: "cs \<noteq> [] \<Longrightarrow> Suc (length (join ''/'' cs)) = weight cs"
  by (induction "''/''" cs rule: join.induct) auto

lemma weight_split_on: "weight (split_on c s) = Suc (length s)"
proof (induction s)
  case (Cons x s)
  then show ?case
    by (cases "split_on c s") auto
qed simp

lemma clean_comps_weight:
  "weight (clean_comps r out cs) + count_list cs [] \<le> weight out + weight cs"
proof (induction r out cs rule: clean_comps.induct)
  case (2 rooted out c cs)
  then show ?case
    by (cases out) (auto split: if_splits)
qed simp

lemma split_on_snoc_sep: "split_on c (s @ [c]) = split_on c s @ [[]]"
proof (induction s)
  case (Cons x s)
  then show ?case
    by (cases "split_on c s") auto
qed simp

lemma clean_shorter:
  assumes "t \<noteq> []"
  shows "length (clean (t @ ''/'')) \<le> length t"
proof -
  let ?cs = "split_on CHR ''/'' (t @ ''/'')"
  let ?out = "clean_comps (is_abs t) [] ?cs"
  have abs: "is_abs (t @ ''/'') = is_abs t"
    using assms by (cases t) (auto simp: is_abs_def)
  have w: "weight ?out + count_list ?cs [] \<le> Suc (Suc (length t))"
    using clean_comps_weight [of "is_abs t" "[]" ?cs] by (simp add: weight_split_on)
  have len: "length (join ''/'' (rev ?out)) = weight ?out - 1" if "?out \<noteq> []"
    using length_join [of "rev ?out"] that by simp
  have emp: "count_list ?cs [] = Suc (count_list (split_on CHR ''/'' t) [])"
    by (simp add: split_on_snoc_sep)
  show ?thesis
  proof (cases "is_abs t")
    case True
    then have "1 \<le> count_list (split_on CHR ''/'' t) []"
      by (cases t) (auto simp: is_abs_def)
    with w emp have "weight ?out \<le> length t"
      by simp
    moreover have "clean (t @ ''/'') = CHR ''/'' # join ''/'' (rev ?out)"
      using True abs by (simp add: clean_def)
    ultimately show ?thesis
      using len length_join [of "rev ?out"] assms
      by (cases "?out = []") (auto simp: Suc_le_eq)
  next
    case False
    with w emp len abs assms show ?thesis
      by (cases "?out = []") (auto simp: clean_def Suc_le_eq)
  qed
qed

lemma path_dir_decreases:
  assumes "path_dir s \<noteq> s"
  shows "dir_measure (path_dir s) < dir_measure s"
proof -
  define t where "t = rev (dropWhile (\<lambda>c. c \<noteq> CHR ''/'') (rev s))"
  have d: "path_dir s = clean t"
    by (simp add: path_dir_def t_def)
  have le: "length t \<le> length s"
    using length_dropWhile_le [of _ "rev s"] by (simp add: t_def)
  show ?thesis
  proof (cases t rule: rev_cases)
    case Nil
    then show ?thesis
      using assms d by (auto simp: dir_measure_def clean_def)
  next
    case (snoc u c)
    then have "rev t = c # rev u"
      by simp
    then have "dropWhile (\<lambda>c. c \<noteq> CHR ''/'') (rev s) = c # rev u"
      by (simp add: t_def)
    then have c: "c = CHR ''/''"
      by (simp add: dropWhile_eq_Cons_conv)
    have s: "CHR ''/'' \<in> set s"
    proof -
      have "CHR ''/'' \<in> set (dropWhile (\<lambda>c. c \<noteq> CHR ''/'') (rev s))"
        using \<open>dropWhile _ (rev s) = c # rev u\<close> c by simp
      then show ?thesis
        by (auto dest: set_dropWhileD)
    qed
    show ?thesis
    proof (cases "u = []")
      case True
      with snoc c d have "path_dir s = ''/''"
        by (simp add: clean_def is_abs_def)
      moreover from this assms s have "2 \<le> length s"
        by (cases s rule: list.exhaust; cases "tl s") auto
      ultimately show ?thesis
        using s by (auto simp: dir_measure_def)
    next
      case False
      with snoc c d have "length (path_dir s) \<le> length u"
        using clean_shorter by simp
      with snoc le s show ?thesis
        by (auto simp: dir_measure_def)
    qed
  qed
qed

end
