(* ===== verification/FileSystem.thy ===== *)
theory FileSystem
  imports Paths
begin

text \<open>
  The file system the device agent runs on, as the system calls behind Go's package
  \<^verbatim>\<open>os\<close> see it. A file system is a table from physical locations (lists of names, the root
  being the empty list) to nodes, read with \<open>nodes\<close>; \<open>io_err\<close> says which locations the system refuses to look at, and
  \<open>max_links\<close> is the kernel's limit on symbolic links in one lookup. \<open>walk\<close> is
  pathname resolution. With the limit 255 it is also the algorithm of
  \<^verbatim>\<open>filepath.EvalSymlinks\<close>, which resolves one element after the other with
  \<^verbatim>\<open>Lstat\<close> and \<^verbatim>\<open>Readlink\<close>. All paths the program hands to these calls are
  absolute.
\<close>

section \<open>Nodes and file systems\<close>

type_synonym loc = "string list"

record meta =
  perm :: "32 word"
  mtime :: time

datatype node = File meta bytes | Directory meta | Link meta string | Special meta

record fsys =
  tab :: "(loc \<times> node) list"
  io_err :: "loc \<Rightarrow> oserr option"
  cwd :: "string option"
  max_links :: nat

definition nodes :: "fsys \<Rightarrow> loc \<Rightarrow> node option" where
  "nodes fs = map_of (tab fs)"

definition is_dir_at :: "fsys \<Rightarrow> loc \<Rightarrow> bool" where
  "is_dir_at fs p = (case nodes fs p of Some (Directory _) \<Rightarrow> True | _ \<Rightarrow> False)"

definition is_link_at :: "fsys \<Rightarrow> loc \<Rightarrow> bool" where
  "is_link_at fs p = (case nodes fs p of Some (Link _ _) \<Rightarrow> True | _ \<Rightarrow> False)"

text \<open>
  The names still to be resolved are \<open>c # rest\<close>, the location reached is \<open>cur\<close>, and
  \<open>n\<close> links may still be followed. The result is the location and the number of links left.
\<close>

function walk :: "fsys \<Rightarrow> bool \<Rightarrow> nat \<Rightarrow> loc \<Rightarrow> string list \<Rightarrow> oserr + (loc \<times> nat)" where
  "walk fs follow n cur [] = Inr (cur, n)"
| "walk fs follow n cur (c # rest) =
     (if c = [] \<or> c = ''.'' then walk fs follow n cur rest
      else if c = ''..'' then walk fs follow n (butlast cur) rest
      else case io_err fs (cur @ [c]) of
        Some e \<Rightarrow> Inl e
      | None \<Rightarrow>
        (case nodes fs (cur @ [c]) of
           None \<Rightarrow> Inl ENOENT
         | Some (Link m t) \<Rightarrow>
             if rest = [] \<and> \<not> follow then Inr (cur @ [c], n)
             else if n = 0 then Inl ELOOP
             else walk fs follow (n - 1) (if is_abs t then [] else cur)
                    (split_on CHR ''/'' t @ rest)
         | Some (Directory m) \<Rightarrow> walk fs follow n (cur @ [c]) rest
         | Some _ \<Rightarrow> if rest = [] then Inr (cur @ [c], n) else Inl ENOTDIR))"
  by pat_completeness auto
termination
  by (relation "measures [\<lambda>(fs, follow, n, cur, cs). n, \<lambda>(fs, follow, n, cur, cs). length cs]")
    auto

declare walk.simps(2) [simp del]

definition node_at :: "fsys \<Rightarrow> loc \<Rightarrow> oserr + node" where
  "node_at fs p = (case nodes fs p of None \<Rightarrow> Inl ENOENT | Some nd \<Rightarrow> Inr nd)"

definition lstat :: "fsys \<Rightarrow> string \<Rightarrow> oserr + node" where
  "lstat fs p =
     bindE (walk fs False (max_links fs) [] (split_on CHR ''/'' p)) (\<lambda>(q, _). node_at fs q)"

definition stat :: "fsys \<Rightarrow> string \<Rightarrow> oserr + node" where
  "stat fs p =
     bindE (walk fs True (max_links fs) [] (split_on CHR ''/'' p)) (\<lambda>(q, _). node_at fs q)"

definition eval_symlinks :: "fsys \<Rightarrow> string \<Rightarrow> oserr + string" where
  "eval_symlinks fs p =
     bindE (walk fs True 255 [] (split_on CHR ''/'' p)) (\<lambda>(q, _). Inr (path_of q))"

text \<open>\<^verbatim>\<open>filepath.Abs\<close>: relative paths start at the working directory, if there is one.\<close>

definition abs_path :: "fsys \<Rightarrow> string \<Rightarrow> oserr + string" where
  "abs_path fs p =
     (if is_abs p then Inr (clean p)
      else case cwd fs of None \<Rightarrow> Inl ENOENT | Some wd \<Rightarrow> Inr (path_join wd p))"

section \<open>Well-formed file systems\<close>

text \<open>
  Every node has a proper name and sits in a directory, the working directory is absolute, a
  refusal is never reported as a missing file, and the kernel's limit on links is not higher than
  that of \<^verbatim>\<open>EvalSymlinks\<close> (it is 40 on Linux and 32 on macOS).
\<close>

definition wf_fs :: "fsys \<Rightarrow> bool" where
  "wf_fs fs \<longleftrightarrow>
     is_dir_at fs [] \<and>
     (\<forall>p c. nodes fs (p @ [c]) \<noteq> None \<longrightarrow> is_dir_at fs p \<and> name_ok c) \<and>
     (\<forall>wd. cwd fs = Some wd \<longrightarrow> is_abs wd) \<and>
     (\<forall>p. io_err fs p \<noteq> Some ENOENT) \<and>
     max_links fs \<le> 255"

text \<open>A name that is not one of the two dots, and the only kind of name a node has.\<close>

definition ordinary :: "string \<Rightarrow> bool" where
  "ordinary c = (c \<noteq> [] \<and> c \<noteq> ''.'' \<and> c \<noteq> ''..'')"

text \<open>No location on the way to \<open>p\<close> is refused.\<close>

definition clear :: "fsys \<Rightarrow> loc \<Rightarrow> bool" where
  "clear fs p \<longleftrightarrow> (\<forall>q. q \<noteq> [] \<longrightarrow> prefix q p \<longrightarrow> io_err fs q = None)"

section \<open>Lemmas\<close>

lemma is_dir_at_iff: "is_dir_at fs p \<longleftrightarrow> (\<exists>m. nodes fs p = Some (Directory m))"
  by (auto simp: is_dir_at_def split: option.splits node.splits)

lemma is_link_at_iff: "is_link_at fs p \<longleftrightarrow> (\<exists>m t. nodes fs p = Some (Link m t))"
  by (auto simp: is_link_at_def split: option.splits node.splits)

lemma dir_not_link: "is_dir_at fs p \<Longrightarrow> \<not> is_link_at fs p"
  by (auto simp: is_dir_at_iff is_link_at_iff)

lemma wf_root: "wf_fs fs \<Longrightarrow> is_dir_at fs []"
  by (simp add: wf_fs_def)

lemma wf_parent: "wf_fs fs \<Longrightarrow> nodes fs (p @ [c]) \<noteq> None \<Longrightarrow> is_dir_at fs p \<and> name_ok c"
  unfolding wf_fs_def by blast

lemma wf_canonical: "wf_fs fs \<Longrightarrow> nodes fs p \<noteq> None \<Longrightarrow> canonical p"
proof (induction p rule: rev_induct)
  case (snoc c p)
  then show ?case
    using wf_parent [of fs p c] by (auto simp: is_dir_at_iff)
qed simp

lemma wf_prefix_dir:
  assumes "wf_fs fs" and "nodes fs (p @ q) \<noteq> None" and "q \<noteq> []"
  shows "is_dir_at fs p"
  using assms(2,3)
proof (induction q rule: rev_induct)
  case (snoc c q)
  then have d: "is_dir_at fs (p @ q)"
    using wf_parent [OF assms(1), of "p @ q" c] by simp
  with snoc.IH show ?case
    by (cases "q = []") (auto simp: is_dir_at_iff)
qed simp

lemma dir_butlast: "wf_fs fs \<Longrightarrow> is_dir_at fs p \<Longrightarrow> is_dir_at fs (butlast p)"
  by (cases p rule: rev_cases) (auto dest: wf_parent simp: is_dir_at_iff)

lemma clear_Nil [simp]: "clear fs []"
  by (simp add: clear_def)

lemma clear_snoc [simp]: "clear fs (p @ [c]) \<longleftrightarrow> clear fs p \<and> io_err fs (p @ [c]) = None"
  by (auto simp: clear_def)

lemma clear_prefix: "clear fs (p @ q) \<Longrightarrow> clear fs p"
  by (auto simp: clear_def prefix_def)

lemma clear_butlast: "clear fs p \<Longrightarrow> clear fs (butlast p)"
  by (cases p rule: rev_cases) auto

subsection \<open>What a walk reaches\<close>

lemma ordinary_name: "name_ok c \<Longrightarrow> ordinary c"
  by (simp add: name_ok_def ordinary_def)

text \<open>The steps of a walk, one equation each, and the induction that follows them.\<close>

lemma walk_skip: "c = [] \<or> c = ''.'' \<Longrightarrow> walk fs fol n cur (c # cs) = walk fs fol n cur cs"
  by (auto simp: walk.simps(2))

lemma walk_up: "walk fs fol n cur (''..'' # cs) = walk fs fol n (butlast cur) cs"
  by (simp add: walk.simps(2))

lemma walk_refused:
  "ordinary c \<Longrightarrow> io_err fs (cur @ [c]) = Some e \<Longrightarrow> walk fs fol n cur (c # cs) = Inl e"
  by (simp add: walk.simps(2) ordinary_def)

lemma walk_missing:
  "ordinary c \<Longrightarrow> io_err fs (cur @ [c]) = None \<Longrightarrow> nodes fs (cur @ [c]) = None \<Longrightarrow>
   walk fs fol n cur (c # cs) = Inl ENOENT"
  by (simp add: walk.simps(2) ordinary_def)

lemma walk_link:
  "ordinary c \<Longrightarrow> io_err fs (cur @ [c]) = None \<Longrightarrow> nodes fs (cur @ [c]) = Some (Link m t) \<Longrightarrow>
   walk fs fol n cur (c # cs) =
     (if cs = [] \<and> \<not> fol then Inr (cur @ [c], n)
      else if n = 0 then Inl ELOOP
      else walk fs fol (n - 1) (if is_abs t then [] else cur) (split_on CHR ''/'' t @ cs))"
  by (simp add: walk.simps(2) ordinary_def)

lemma walk_dir:
  "ordinary c \<Longrightarrow> io_err fs (cur @ [c]) = None \<Longrightarrow> is_dir_at fs (cur @ [c]) \<Longrightarrow>
   walk fs fol n cur (c # cs) = walk fs fol n (cur @ [c]) cs"
  by (auto simp: walk.simps(2) ordinary_def is_dir_at_iff)

lemma walk_leaf:
  "ordinary c \<Longrightarrow> io_err fs (cur @ [c]) = None \<Longrightarrow> nodes fs (cur @ [c]) \<noteq> None \<Longrightarrow>
   \<not> is_dir_at fs (cur @ [c]) \<Longrightarrow> \<not> is_link_at fs (cur @ [c]) \<Longrightarrow>
   walk fs fol n cur (c # cs) = (if cs = [] then Inr (cur @ [c], n) else Inl ENOTDIR)"
  by (auto simp: walk.simps(2) ordinary_def is_dir_at_iff is_link_at_iff split: node.splits)

lemmas walk_steps = walk_skip walk_up walk_refused walk_missing walk_link walk_dir walk_leaf

lemma walk_induct [case_names Nil Skip Up Refused Missing Link Dir Leaf]:
  fixes P :: "nat \<Rightarrow> loc \<Rightarrow> string list \<Rightarrow> bool"
  assumes nil: "\<And>n cur. P n cur []"
    and skip: "\<And>n cur c cs. c = [] \<or> c = ''.'' \<Longrightarrow> P n cur cs \<Longrightarrow> P n cur (c # cs)"
    and up: "\<And>n cur cs. P n (butlast cur) cs \<Longrightarrow> P n cur (''..'' # cs)"
    and refused: "\<And>n cur c cs e. ordinary c \<Longrightarrow> io_err fs (cur @ [c]) = Some e \<Longrightarrow> P n cur (c # cs)"
    and missing: "\<And>n cur c cs. ordinary c \<Longrightarrow> io_err fs (cur @ [c]) = None \<Longrightarrow>
      nodes fs (cur @ [c]) = None \<Longrightarrow> P n cur (c # cs)"
    and link: "\<And>n cur c cs m t. ordinary c \<Longrightarrow> io_err fs (cur @ [c]) = None \<Longrightarrow>
      nodes fs (cur @ [c]) = Some (Link m t) \<Longrightarrow>
      (n \<noteq> 0 \<Longrightarrow> \<not> (cs = [] \<and> \<not> fol) \<Longrightarrow>
         P (n - 1) (if is_abs t then [] else cur) (split_on CHR ''/'' t @ cs)) \<Longrightarrow>
      P n cur (c # cs)"
    and dir: "\<And>n cur c cs. ordinary c \<Longrightarrow> io_err fs (cur @ [c]) = None \<Longrightarrow>
      is_dir_at fs (cur @ [c]) \<Longrightarrow> P n (cur @ [c]) cs \<Longrightarrow> P n cur (c # cs)"
    and leaf: "\<And>n cur c cs. ordinary c \<Longrightarrow> io_err fs (cur @ [c]) = None \<Longrightarrow>
      nodes fs (cur @ [c]) \<noteq> None \<Longrightarrow> \<not> is_dir_at fs (cur @ [c]) \<Longrightarrow>
      \<not> is_link_at fs (cur @ [c]) \<Longrightarrow> P n cur (c # cs)"
  shows "P n cur cs"
proof -
  have "fs' = fs \<Longrightarrow> fol' = fol \<Longrightarrow> P n cur cs" for fs' fol'
  proof (induction fs' fol' n cur cs rule: walk.induct)
    case (1 fs' fol' n cur)
    show ?case by (rule nil)
  next
    case (2 fs' fol' n cur c cs)
    consider (dot) "c = [] \<or> c = ''.''" | (up) "c = ''..''" | (name) "ordinary c"
      by (auto simp: ordinary_def)
    then show ?case
    proof cases
      case dot
      then show ?thesis
        by (rule skip) (rule "2.IH"(1) [OF dot "2.prems"])
    next
      case up
      with "2.IH"(2) "2.prems" assms(3) show ?thesis by simp
    next
      case name
      then have c: "\<not> (c = [] \<or> c = ''.'')" "c \<noteq> ''..''"
        by (simp_all add: ordinary_def)
      show ?thesis
      proof (cases "io_err fs (cur @ [c])")
        case (Some e)
        with name show ?thesis by (rule refused)
      next
        case io: None
        show ?thesis
        proof (cases "nodes fs (cur @ [c])")
          case None
          with name io show ?thesis by (rule missing)
        next
          case nd: (Some nd)
          note IH = "2.IH"(3,4) [unfolded "2.prems"(1,2), OF c io nd]
          show ?thesis
            using IH dir [OF name io] link [OF name io] leaf [OF name io] nd "2.prems"
            by (cases nd) (auto simp: is_dir_at_iff is_link_at_iff)
        qed
      qed
    qed
  qed
  then show ?thesis by blast
qed

text \<open>
  A successful walk ends at an existing location that is visible all the way, and that is not a
  symbolic link when links are followed to the end.
\<close>

lemma walk_reaches:
  assumes "walk fs fol n cur cs = Inr (q, k)" and "wf_fs fs" and "is_dir_at fs cur"
    and "clear fs cur"
  shows "nodes fs q \<noteq> None \<and> clear fs q \<and> (fol \<longrightarrow> \<not> is_link_at fs q) \<and> k \<le> n"
  using assms(1,3,4)
proof (induction n cur cs rule: walk_induct [where fs = fs and fol = fol])
  case (Nil n cur)
  then show ?case by (auto simp: is_dir_at_iff is_link_at_iff)
next
  case (Link n cur c cs m t)
  have "is_dir_at fs (if is_abs t then [] else cur)" "clear fs (if is_abs t then [] else cur)"
    using Link.prems wf_root [OF assms(2)] by auto
  with Link show ?case
    by (fastforce simp: walk_link split: if_splits)
next
  case (Leaf n cur c cs)
  then show ?case by (auto simp: walk_leaf split: if_splits)
qed (auto simp: walk_steps dir_butlast [OF assms(2)] clear_butlast)

text \<open>Walking along an existing location leads there.\<close>

lemma walk_location:
  assumes "wf_fs fs" and "nodes fs (cur @ p) \<noteq> None" and "clear fs (cur @ p)"
    and "p = [] \<or> \<not> fol \<or> \<not> is_link_at fs (cur @ p)"
  shows "walk fs fol n cur p = Inr (cur @ p, n)"
  using assms(2-4)
proof (induction p arbitrary: cur)
  case Nil
  then show ?case by simp
next
  case (Cons c p)
  have ok: "ordinary c"
    using wf_canonical [OF assms(1) Cons.prems(1)] by (simp add: ordinary_name)
  have io: "io_err fs (cur @ [c]) = None"
    using clear_prefix [of fs "cur @ [c]" p] Cons.prems(2) by simp
  show ?case
  proof (cases "is_dir_at fs (cur @ [c])")
    case True
    with Cons.IH [of "cur @ [c]"] Cons.prems ok io show ?thesis
      by (simp add: walk_dir)
  next
    case False
    with wf_prefix_dir [OF assms(1), of "cur @ [c]" p] Cons.prems(1) have "p = []"
      by auto
    with False Cons.prems ok io show ?thesis
      by (cases "is_link_at fs (cur @ [c])") (auto simp: walk_leaf walk_link is_link_at_iff)
  qed
qed

text \<open>A walk over a longer path first follows all links of the shorter one.\<close>

lemma walk_append:
  assumes "ys \<noteq> []" and "is_dir_at fs cur" and "wf_fs fs"
  shows "walk fs fol n cur (xs @ ys) =
    bindE (walk fs True n cur xs)
      (\<lambda>(q, k). if is_dir_at fs q then walk fs fol k q ys else Inl ENOTDIR)"
  using assms(2)
proof (induction n cur xs rule: walk_induct [where fs = fs and fol = True])
  case (Link n cur c cs m t)
  have "is_dir_at fs (if is_abs t then [] else cur)"
    using Link.prems wf_root [OF assms(3)] by simp
  with Link assms(1) show ?case by (simp add: walk_link)
next
  case (Leaf n cur c cs)
  then show ?case using assms(1) by (simp add: walk_leaf)
qed (auto simp: walk_steps dir_butlast [OF assms(3)])

text \<open>A walk that does not run out of links is not changed by a higher limit.\<close>

lemma walk_more_links:
  assumes "walk fs fol n cur cs \<noteq> Inl ELOOP"
  shows "walk fs fol (n + d) cur cs = map_sum id (map_prod id (\<lambda>k. k + d)) (walk fs fol n cur cs)"
  using assms
proof (induction n cur cs rule: walk_induct [where fs = fs and fol = fol])
  case (Link n cur c cs m t)
  show ?case
  proof (cases "cs = [] \<and> \<not> fol")
    case True
    with Link.hyps show ?thesis by (simp add: walk_link)
  next
    case False
    with Link.hyps Link.prems have n: "n \<noteq> 0"
      by (cases "n = 0") (auto simp: walk_link)
    then have "n + d - 1 = n - 1 + d" by simp
    moreover have "walk fs fol (n - 1) (if is_abs t then [] else cur) (split_on CHR ''/'' t @ cs) \<noteq> Inl ELOOP"
      using n False Link.hyps Link.prems by (auto simp: walk_link)
    ultimately show ?thesis
      using n False Link.hyps Link.IH [OF n False] by (auto simp: walk_link)
  qed
qed (auto simp: walk_steps)

end
