(* ===== verification/PathPolicy.thy ===== *)
theory PathPolicy
  imports FileSystem
begin

text \<open>
  The path policy of the agent (\<^verbatim>\<open>internal/pathpolicy/pathpolicy.go\<close>): the list of
  allowed roots, and the two functions that turn a requested path into one the tools may use.
  \<open>ResolveExisting\<close> follows all symbolic links of an existing path;
  \<open>ResolveForCreate\<close> does so for the nearest existing ancestor and puts the missing rest
  back. The lemmas show that what is handed out lies under an allowed root, physically: no
  location on the way to it is a symbolic link.
\<close>

section \<open>Definitions\<close>

record policy =
  roots :: "string list"

fun dedupe_loop :: "string list \<Rightarrow> string list \<Rightarrow> string list \<Rightarrow> string list" where
  "dedupe_loop seen out [] = out"
| "dedupe_loop seen out (v # vs) =
     (if v \<in> set seen then dedupe_loop seen out vs
      else dedupe_loop (v # seen) (out @ [v]) vs)"

definition dedupe :: "string list \<Rightarrow> string list" where
  "dedupe xs = dedupe_loop [] [] xs"

text \<open>The loop of \<^verbatim>\<open>New\<close>, which collects the resolved roots in \<open>out\<close>.\<close>

fun resolve_roots :: "fsys \<Rightarrow> string list \<Rightarrow> string list \<Rightarrow> goerror + string list" where
  "resolve_roots fs out [] = Inr out"
| "resolve_roots fs out (root # rs) =
     (case abs_path fs root of
        Inl e \<Rightarrow> Inl (ErrWrap ''absolute root'' (ErrOS e))
      | Inr a \<Rightarrow>
        (case eval_symlinks fs a of
           Inl e \<Rightarrow> Inl (ErrWrap ''resolve root'' (ErrOS e))
         | Inr resolved \<Rightarrow>
           (case stat fs resolved of
              Inr (Directory _) \<Rightarrow> resolve_roots fs (out @ [clean resolved]) rs
            | _ \<Rightarrow> Inl (ErrMsg ''allowed root is not a directory''))))"

definition new_policy :: "fsys \<Rightarrow> string list \<Rightarrow> goerror + policy" where
  "new_policy fs rs =
     (if length rs = 0 then Inl (ErrMsg ''at least one allowed root is required'')
      else bindE (resolve_roots fs [] rs) (\<lambda>out. Inr \<lparr>roots = dedupe out\<rparr>))"

definition allowed :: "policy \<Rightarrow> string \<Rightarrow> bool" where
  "allowed p path =
     list_ex (\<lambda>root. case path_rel root path of
                        None \<Rightarrow> False
                      | Some rel \<Rightarrow> rel_inside rel) (roots p)"

definition resolve_existing :: "policy \<Rightarrow> fsys \<Rightarrow> string \<Rightarrow> goerror + string" where
  "resolve_existing p fs path =
     (if trim_space path = [] then Inl (ErrMsg ''path is required'')
      else case abs_path fs path of
        Inl e \<Rightarrow> Inl (ErrOS e)
      | Inr a \<Rightarrow>
        (case eval_symlinks fs a of
           Inl e \<Rightarrow> Inl (ErrOS e)
         | Inr r \<Rightarrow>
           (let resolved = clean r
            in if \<not> allowed p resolved then Inl ErrOutsideRoots else Inr resolved)))"

text \<open>
  The loop that climbs to the nearest existing ancestor. It ends because \<^verbatim>\<open>Dir\<close> of a
  path is shorter or the path itself.
\<close>

function existing_ancestor ::
  "fsys \<Rightarrow> string \<Rightarrow> string list \<Rightarrow> goerror + (string \<times> string list)" where
  "existing_ancestor fs cur suf =
     (case lstat fs cur of
        Inr _ \<Rightarrow> Inr (cur, suf)
      | Inl e \<Rightarrow>
        (if e \<noteq> ENOENT then Inl (ErrOS e)
         else if path_dir cur = cur then Inl ErrOutsideRoots
         else existing_ancestor fs (path_dir cur) (suf @ [path_base cur])))"
  by pat_completeness auto
termination
  by (relation "measure (\<lambda>(fs, cur, suf). dir_measure cur)") (auto simp: path_dir_decreases)

declare existing_ancestor.simps [simp del]

definition resolve_for_create :: "policy \<Rightarrow> fsys \<Rightarrow> string \<Rightarrow> goerror + string" where
  "resolve_for_create p fs path =
     (if trim_space path = [] then Inl (ErrMsg ''path is required'')
      else case abs_path fs path of
        Inl e \<Rightarrow> Inl (ErrOS e)
      | Inr a \<Rightarrow>
        (case existing_ancestor fs (clean a) [] of
           Inl e \<Rightarrow> Inl e
         | Inr (cur, suf) \<Rightarrow>
           (case eval_symlinks fs cur of
              Inl e \<Rightarrow> Inl (ErrOS e)
            | Inr r \<Rightarrow>
              (let resolved = clean (foldl path_join r (rev suf))
               in if \<not> allowed p resolved then Inl ErrOutsideRoots else Inr resolved))))"

text \<open>
  The abstract contract. A location is inside the policy when an allowed root is one of its
  ancestors or the location itself; the roots are absolute and clean.
\<close>

definition inside :: "policy \<Rightarrow> loc \<Rightarrow> bool" where
  "inside p q = list_ex (\<lambda>r. prefix (comps r) q) (roots p)"

definition policy_ok :: "policy \<Rightarrow> bool" where
  "policy_ok p = list_all (\<lambda>r. canonical (comps r) \<and> r = path_of (comps r)) (roots p)"

text \<open>No location on the way to \<open>q\<close>, \<open>q\<close> included, is a symbolic link.\<close>

definition link_free :: "fsys \<Rightarrow> loc \<Rightarrow> bool" where
  "link_free fs q = list_all (\<lambda>r. \<not> is_link_at fs r) (prefixes q)"

section \<open>Lemmas\<close>

subsection \<open>Removing duplicates\<close>

lemma dedupe_loop_spec:
  assumes "distinct out" and "set seen = set out"
  shows "distinct (dedupe_loop seen out vs) \<and> set (dedupe_loop seen out vs) = set out \<union> set vs
    \<and> prefix out (dedupe_loop seen out vs)"
  using assms
proof (induction vs arbitrary: seen out)
  case (Cons v vs)
  show ?case
  proof (cases "v \<in> set seen")
    case True
    with Cons show ?thesis by auto
  next
    case False
    with Cons.prems Cons.IH [of "out @ [v]" "v # seen"] show ?thesis
      by (auto dest: prefix_order.trans [rotated] simp: append_prefixD)
  qed
qed simp

lemma dedupe_distinct [simp]: "distinct (dedupe xs)"
  using dedupe_loop_spec [of "[]" "[]" xs] by (simp add: dedupe_def)

lemma set_dedupe [simp]: "set (dedupe xs) = set xs"
  using dedupe_loop_spec [of "[]" "[]" xs] by (simp add: dedupe_def)

subsection \<open>Containment\<close>

lemma allowed_path_of:
  assumes "policy_ok p" and "canonical q"
  shows "allowed p (path_of q) \<longleftrightarrow> inside p q"
proof -
  have "(case path_rel r (path_of q) of None \<Rightarrow> False | Some rel \<Rightarrow> rel_inside rel) \<longleftrightarrow>
        prefix (comps r) q" if "r \<in> set (roots p)" for r
  proof -
    have r: "canonical (comps r)" "r = path_of (comps r)"
      using assms(1) that by (auto simp: policy_ok_def list_all_iff)
    have "(case path_rel r (path_of q) of None \<Rightarrow> False | Some rel \<Rightarrow> rel_inside rel) \<longleftrightarrow>
          (\<exists>rel. path_rel (path_of (comps r)) (path_of q) = Some rel \<and> rel_inside rel)"
      using r(2) by (auto split: option.splits)
    with rel_inside_iff_prefix [OF r(1) assms(2)] show ?thesis
      by simp
  qed
  then show ?thesis
    by (auto simp: allowed_def inside_def list_ex_iff)
qed

lemma inside_append: "inside p q \<Longrightarrow> inside p (q @ q')"
  by (auto simp: inside_def list_ex_iff intro: prefix_prefix)

subsection \<open>Physical locations\<close>

lemma link_free_iff: "link_free fs q \<longleftrightarrow> (\<forall>r. prefix r q \<longrightarrow> \<not> is_link_at fs r)"
  by (auto simp: link_free_def list_all_iff)

lemma existing_link_free:
  assumes "wf_fs fs" and "nodes fs q \<noteq> None" and "\<not> is_link_at fs q"
  shows "link_free fs q"
  unfolding link_free_iff
proof (intro allI impI)
  fix r assume "prefix r q"
  then obtain s where s: "q = r @ s" by (auto simp: prefix_def)
  show "\<not> is_link_at fs r"
  proof (cases "s = []")
    case True
    with s assms(3) show ?thesis by simp
  next
    case False
    with wf_prefix_dir [OF assms(1), of r s] assms(2) s show ?thesis
      by (auto dest: dir_not_link)
  qed
qed

lemma missing_link_free:
  assumes "wf_fs fs" and "nodes fs q \<noteq> None" and "\<not> is_link_at fs q"
    and "nodes fs (q @ [c]) = None"
  shows "link_free fs (q @ c # cs)"
  unfolding link_free_iff
proof (intro allI impI)
  fix r assume "prefix r (q @ c # cs)"
  then consider "prefix r q" | s where "r = (q @ [c]) @ s"
    by (auto simp: prefix_append prefix_Cons)
  then show "\<not> is_link_at fs r"
  proof cases
    case 1
    with existing_link_free [OF assms(1-3)] show ?thesis
      by (simp add: link_free_iff)
  next
    case 2
    have "nodes fs ((q @ [c]) @ s) = None"
      using wf_prefix_dir [OF assms(1), of "q @ [c]" s] assms(4)
      by (cases "s = []"; cases "nodes fs ((q @ [c]) @ s)") (auto simp: is_dir_at_iff)
    with 2 show ?thesis by (simp add: is_link_at_iff)
  qed
qed

text \<open>Without links on the way, a walk goes where its names say.\<close>

lemma walk_link_free:
  assumes "walk fs fol n cur cs = Inr (q, k)" and "canonical cs" and "link_free fs (cur @ cs)"
  shows "q = cur @ cs"
  using assms
proof (induction n cur cs rule: walk_induct [where fs = fs and fol = fol])
  case (Link n cur c cs m t)
  then have "is_link_at fs (cur @ [c])" by (simp add: is_link_at_iff)
  with Link.prems show ?case by (auto simp: link_free_iff)
qed (auto simp: walk_steps name_ok_def split: if_splits)

lemma walk_root_path:
  assumes "canonical cs"
  shows "walk fs fol n [] (split_on CHR ''/'' (path_of cs)) = walk fs fol n [] cs"
  using assms by (simp add: split_on_path_of walk_skip)

lemma eval_symlinks_path_of:
  assumes "wf_fs fs" and "canonical cs" and "eval_symlinks fs (path_of cs) = Inr r"
  obtains q k where "r = path_of q" and "walk fs True 255 [] cs = Inr (q, k)"
    and "nodes fs q \<noteq> None" and "clear fs q" and "\<not> is_link_at fs q" and "canonical q"
proof -
  from assms(2,3) obtain q k where q: "walk fs True 255 [] cs = Inr (q, k)" "r = path_of q"
    by (auto simp: eval_symlinks_def walk_root_path err_simps)
  from walk_reaches [OF q(1) assms(1) wf_root [OF assms(1)]]
  have "nodes fs q \<noteq> None" "clear fs q" "\<not> is_link_at fs q"
    by simp_all
  with q wf_canonical [OF assms(1)] that show ?thesis
    by blast
qed

lemma abs_path_canonical:
  assumes "wf_fs fs" and "abs_path fs p = Inr a"
  obtains cs where "canonical cs" and "a = path_of cs"
proof (cases "is_abs p")
  case True
  with assms(2) that show ?thesis
    by (auto simp: abs_path_def elim: clean_abs_ex)
next
  case False
  with assms obtain wd where wd: "is_abs wd" "a = path_join wd p"
    by (auto simp: abs_path_def wf_fs_def split: option.splits)
  then have "a = clean (wd @ ''/'' @ p)" "is_abs (wd @ ''/'' @ p)"
    by (auto simp: path_join_def is_abs_def split: list.splits)
  with that show ?thesis
    by (auto elim: clean_abs_ex)
qed

subsection \<open>The resolved paths\<close>

lemma resolve_existing_cases:
  assumes "wf_fs fs" and "policy_ok p" and "resolve_existing p fs path = Inr r"
  obtains q where "r = path_of q" and "canonical q" and "inside p q"
    and "nodes fs q \<noteq> None" and "clear fs q" and "\<not> is_link_at fs q"
proof -
  from assms(3) obtain a e where a: "abs_path fs path = Inr a" "eval_symlinks fs a = Inr e"
    "r = clean e" "allowed p (clean e)"
    by (auto simp: resolve_existing_def Let_def split: if_splits sum.splits)
  from abs_path_canonical [OF assms(1) a(1)] obtain cs where cs: "canonical cs" "a = path_of cs" .
  from eval_symlinks_path_of [OF assms(1) cs(1)] a(2) cs(2) obtain q k where
    q: "e = path_of q" "nodes fs q \<noteq> None" "clear fs q" "\<not> is_link_at fs q" "canonical q"
    by metis
  with a allowed_path_of [OF assms(2)] that show ?thesis
    by simp
qed

text \<open>The path of a visible location that is not a link resolves to itself.\<close>

lemma location_walk:
  assumes "wf_fs fs" and "nodes fs q \<noteq> None" and "clear fs q" and "\<not> is_link_at fs q"
  shows "walk fs fol n [] (split_on CHR ''/'' (path_of q)) = Inr (q, n)" "canonical q"
proof -
  show "canonical q" using wf_canonical [OF assms(1,2)] .
  then show "walk fs fol n [] (split_on CHR ''/'' (path_of q)) = Inr (q, n)"
    using walk_location [of fs "[]" q] assms by (simp add: walk_root_path)
qed

lemma resolve_location:
  assumes "wf_fs fs" and "policy_ok p" and "nodes fs q \<noteq> None" and "clear fs q" and "\<not> is_link_at fs q" and "inside p q"
  shows "resolve_existing p fs (path_of q) = Inr (path_of q)"
proof -
  note q = location_walk [OF assms(1,3-5)]
  have "CHR ''/'' \<in> set (trim_space (path_of q))"
    by (rule trim_space_keeps) (simp_all add: path_of_def visible_slash)
  then have "trim_space (path_of q) \<noteq> []"
    by auto
  with q assms allowed_path_of [OF assms(2)] show ?thesis
    by (simp add: resolve_existing_def abs_path_def eval_symlinks_def)
qed

lemma existing_ancestor_spec:
  assumes "existing_ancestor fs (path_of ds) (rev es) = Inr (cur, suf)"
    and "canonical (ds @ es)"
    and "es \<noteq> [] \<Longrightarrow> lstat fs (path_of (ds @ [hd es])) = Inl ENOENT"
  shows "\<exists>ds' es'. cur = path_of ds' \<and> suf = rev es' \<and> ds' @ es' = ds @ es \<and>
    (\<exists>nd. lstat fs cur = Inr nd) \<and>
    (es' \<noteq> [] \<longrightarrow> lstat fs (path_of (ds' @ [hd es'])) = Inl ENOENT)"
  using assms
proof (induction ds arbitrary: es rule: rev_induct)
  case Nil
  then show ?case
    by (auto simp: existing_ancestor.simps [of fs "path_of []"] split: sum.splits if_splits)
next
  case (snoc d ds)
  show ?case
  proof (cases "lstat fs (path_of (ds @ [d]))")
    case (Inr nd)
    with snoc.prems show ?thesis
      by (auto simp: existing_ancestor.simps [of fs "path_of (ds @ [d])"])
  next
    case (Inl e)
    have "path_dir (path_of (ds @ [d])) \<noteq> path_of (ds @ [d])"
      using snoc.prems(2) by (simp add: path_of_inject)
    with Inl snoc.prems have "e = ENOENT"
      and "existing_ancestor fs (path_of ds) (rev (d # es)) = Inr (cur, suf)"
      by (auto simp: existing_ancestor.simps [of fs "path_of (ds @ [d])"] split: if_splits)
    with snoc.IH [of "d # es"] snoc.prems Inl show ?thesis
      by simp
  qed
qed

lemma foldl_path_join:
  "canonical q \<Longrightarrow> canonical es \<Longrightarrow> foldl path_join (path_of q) es = path_of (q @ es)"
proof (induction es arbitrary: q)
  case (Cons e es)
  then show ?case
    using Cons.IH [of "q @ [e]"] by simp
qed simp

text \<open>
  If the ancestor \<open>ds\<close> resolves to \<open>q\<close> and the next name was reported missing, it is
  missing at \<open>q\<close>.
\<close>

lemma missing_at_resolved:
  assumes "wf_fs fs" and "walk fs True 255 [] ds = Inr (q, k)" and "name_ok c" and "canonical ds"
    and "lstat fs (path_of (ds @ [c])) = Inl ENOENT"
  shows "nodes fs (q @ [c]) = None"
proof (rule ccontr)
  assume ex: "nodes fs (q @ [c]) \<noteq> None"
  then have dir: "is_dir_at fs q"
    using wf_parent [OF assms(1)] by blast
  let ?w = "walk fs True (max_links fs) [] ds"
  have w: "?w = Inl ELOOP \<or> (\<exists>k'. ?w = Inr (q, k'))"
  proof (cases "?w = Inl ELOOP")
    case False
    have "max_links fs + (255 - max_links fs) = 255"
      using assms(1) by (simp add: wf_fs_def)
    with walk_more_links [OF False, of "255 - max_links fs"] assms(2)
    show ?thesis by (cases ?w) auto
  qed simp
  have l: "lstat fs (path_of (ds @ [c])) =
      bindE (bindE ?w (\<lambda>(q, k). if is_dir_at fs q then walk fs False k q [c] else Inl ENOTDIR))
        (\<lambda>(q, _). node_at fs q)"
    using assms walk_append [of "[c]" fs "[]" False "max_links fs" ds] wf_root [OF assms(1)]
    by (simp add: lstat_def walk_root_path)
  have found: "bindE (walk fs False k' q [c]) (\<lambda>(q, _). node_at fs q) \<noteq> Inl ENOENT" for k'
  proof (cases "io_err fs (q @ [c])")
    case None
    with ex assms(3) show ?thesis
      by (cases "is_dir_at fs (q @ [c])"; cases "is_link_at fs (q @ [c])")
        (auto simp: walk_steps ordinary_name is_link_at_iff node_at_def)
  next
    case (Some e)
    moreover from this assms(1) have "e \<noteq> ENOENT"
      by (auto simp: wf_fs_def)
    ultimately show ?thesis
      using assms(3) by (simp add: walk_refused ordinary_name)
  qed
  from w show False
  proof (elim disjE exE)
    assume "?w = Inl ELOOP"
    with l assms(5) show False by simp
  next
    fix k' assume "?w = Inr (q, k')"
    with l assms(5) dir found [of k'] show False by simp
  qed
qed

lemma resolve_for_create_cases:
  assumes "wf_fs fs" and "policy_ok p" and "resolve_for_create p fs path = Inr r"
  obtains q es where "r = path_of (q @ es)" and "canonical (q @ es)" and "inside p (q @ es)"
    and "nodes fs q \<noteq> None" and "clear fs q" and "\<not> is_link_at fs q"
    and "es \<noteq> [] \<longrightarrow> nodes fs (q @ [hd es]) = None"
proof -
  from assms(3) obtain a cur suf e where
    a: "abs_path fs path = Inr a" "existing_ancestor fs (clean a) [] = Inr (cur, suf)"
      "eval_symlinks fs cur = Inr e" "r = clean (foldl path_join e (rev suf))"
      "allowed p r"
    by (auto simp: resolve_for_create_def Let_def split: if_splits sum.splits)
  from abs_path_canonical [OF assms(1) a(1)] obtain cs where cs: "canonical cs" "a = path_of cs" .
  with a(2) existing_ancestor_spec [of fs cs "[]"] obtain ds es where
    d: "cur = path_of ds" "suf = rev es" "ds @ es = cs"
      "es \<noteq> [] \<longrightarrow> lstat fs (path_of (ds @ [hd es])) = Inl ENOENT"
    by auto
  then have can: "canonical ds" "canonical es"
    using cs by auto
  from eval_symlinks_path_of [OF assms(1) can(1)] a(3) d(1) obtain q k where
    q: "e = path_of q" "walk fs True 255 [] ds = Inr (q, k)" "nodes fs q \<noteq> None" "clear fs q"
      "\<not> is_link_at fs q" "canonical q"
    by metis
  have r: "r = path_of (q @ es)"
    using a(4) q can d foldl_path_join [of q es] by simp
  have "es \<noteq> [] \<longrightarrow> nodes fs (q @ [hd es]) = None"
    using missing_at_resolved [OF assms(1) q(2)] can d(4) by (cases es) auto
  moreover have "inside p (q @ es)"
    using a(5) r allowed_path_of [OF assms(2)] q can by simp
  ultimately show ?thesis
    using that r q can by simp
qed

lemma resolve_for_create_link_free:
  assumes "wf_fs fs" and "policy_ok p" and "resolve_for_create p fs path = Inr r"
  obtains q where "r = path_of q" and "canonical q" and "inside p q" and "link_free fs q"
proof -
  from resolve_for_create_cases [OF assms] obtain q es where
    q: "r = path_of (q @ es)" "canonical (q @ es)" "inside p (q @ es)" "nodes fs q \<noteq> None"
      "\<not> is_link_at fs q" "es \<noteq> [] \<longrightarrow> nodes fs (q @ [hd es]) = None"
    by metis
  have "link_free fs (q @ es)"
    using existing_link_free missing_link_free assms(1) q by (cases es) auto
  with q that show ?thesis by blast
qed

subsection \<open>The policies that New builds\<close>

lemma resolve_roots_spec:
  assumes "wf_fs fs" and "resolve_roots fs out rs = Inr rs'"
    and "\<forall>r\<in>set out. \<exists>q. canonical q \<and> r = path_of q \<and> is_dir_at fs q"
  shows "\<forall>r\<in>set rs'. \<exists>q. canonical q \<and> r = path_of q \<and> is_dir_at fs q"
  using assms(2,3)
proof (induction rs arbitrary: out)
  case (Cons root rs)
  from Cons.prems(1) obtain a e m where a: "abs_path fs root = Inr a" "eval_symlinks fs a = Inr e"
    "stat fs e = Inr (Directory m)" "resolve_roots fs (out @ [clean e]) rs = Inr rs'"
    by (auto split: sum.splits node.splits)
  from abs_path_canonical [OF assms(1) a(1)] obtain cs where cs: "canonical cs" "a = path_of cs" .
  from eval_symlinks_path_of [OF assms(1) cs(1)] a(2) cs(2) obtain q k where
    q: "e = path_of q" "nodes fs q \<noteq> None" "clear fs q" "\<not> is_link_at fs q" "canonical q"
    by metis
  have "walk fs True (max_links fs) [] q = Inr (q, max_links fs)"
    using walk_location [of fs "[]" q True] assms(1) q by simp
  with a(3) q have "is_dir_at fs q"
    by (auto simp: stat_def walk_root_path node_at_def is_dir_at_iff split: option.splits)
  with Cons.IH [OF a(4)] Cons.prems(2) q show ?case
    by auto
qed simp

lemma new_policy_roots:
  assumes "wf_fs fs" and "new_policy fs rs = Inr p"
  shows "policy_ok p \<and> distinct (roots p) \<and> (\<forall>r\<in>set (roots p). is_dir_at fs (comps r))"
proof -
  from assms(2) obtain out where out: "resolve_roots fs [] rs = Inr out" "roots p = dedupe out"
    by (auto simp: new_policy_def err_simps split: if_splits)
  from resolve_roots_spec [OF assms(1) out(1)]
  have "\<forall>r\<in>set out. \<exists>q. canonical q \<and> r = path_of q \<and> is_dir_at fs q"
    by simp
  with out(2) show ?thesis
    by (auto simp: policy_ok_def list_all_iff)
qed

section \<open>The contract of the two resolvers\<close>

text \<open>
  What a client of the policy may rely on, whichever of the two resolvers it calls: the path it
  gets is that of a location inside the policy with no symbolic link on the way.
\<close>

locale path_resolver =
  fixes resolve :: "policy \<Rightarrow> fsys \<Rightarrow> string \<Rightarrow> goerror + string"
  assumes confined: "wf_fs fs \<Longrightarrow> policy_ok p \<Longrightarrow> resolve p fs path = Inr r \<Longrightarrow>
    \<exists>q. r = path_of q \<and> canonical q \<and> inside p q \<and> link_free fs q"
begin

lemma resolved_comps:
  assumes "wf_fs fs" and "policy_ok p" and "resolve p fs path = Inr r"
  shows "inside p (comps r)" and "link_free fs (comps r)" and "canonical (comps r)"
    and "path_of (comps r) = r"
  using confined [OF assms] by auto

text \<open>A walk to the parent of a resolved path, if it succeeds, ends at the parent's location.\<close>

lemma resolved_parent_walk:
  assumes "wf_fs fs" and "policy_ok p" and "resolve p fs path = Inr r"
    and "walk fs True n [] (butlast (comps r)) = Inr (q, k)"
  shows "q = butlast (comps r)"
proof -
  have "link_free fs (butlast (comps r))"
    using resolved_comps(2) [OF assms(1-3)]
    by (auto simp: link_free_iff intro: prefix_order.trans prefixeq_butlast)
  moreover have "canonical (butlast (comps r))"
    by (rule canonical_butlast) (rule resolved_comps(3) [OF assms(1-3)])
  ultimately show ?thesis
    using walk_link_free [OF assms(4)] by simp
qed

end

interpretation existing: path_resolver resolve_existing
proof
  fix fs p path r
  assume "wf_fs fs" "policy_ok p" "resolve_existing p fs path = Inr r"
  from resolve_existing_cases [OF this] \<open>wf_fs fs\<close>
  show "\<exists>q. r = path_of q \<and> canonical q \<and> inside p q \<and> link_free fs q"
    by (metis existing_link_free)
qed

interpretation create: path_resolver resolve_for_create
proof
  fix fs p path r
  assume "wf_fs fs" "policy_ok p" "resolve_for_create p fs path = Inr r"
  from resolve_for_create_link_free [OF this]
  show "\<exists>q. r = path_of q \<and> canonical q \<and> inside p q \<and> link_free fs q"
    by metis
qed

section \<open>Properties\<close>

subsection \<open>A file system to try them on\<close>

text \<open>A root with a file, and a symbolic link that leads out of it.\<close>

definition demo_meta :: meta where
  "demo_meta = \<lparr>perm = 0x180, mtime = 1\<rparr>"

definition demo_fs :: fsys where
  "demo_fs =
     \<lparr>tab = [([], Directory demo_meta), ([''r''], Directory demo_meta),
                     ([''r'', ''a''], File demo_meta [1, 2, 3]),
                     ([''r'', ''out''], Link demo_meta ''/etc''), ([''etc''], Directory demo_meta)],
      io_err = (\<lambda>_. None), cwd = Some ''/r'', max_links = 40\<rparr>"

definition demo_policy :: policy where
  "demo_policy = \<lparr>roots = [''/r'']\<rparr>"

lemma wf_demo_fs: "wf_fs demo_fs"
  by (auto simp: wf_fs_def nodes_def demo_fs_def is_dir_at_def name_ok_def is_abs_def append_eq_Cons_conv
      split: if_splits)

lemma policy_ok_demo: "policy_ok demo_policy"
  by code_simp

subsection \<open>Theorems\<close>

text \<open>
  The lexical test of the policy decides containment: for an absolute clean path,
  \<^verbatim>\<open>allowed\<close> says yes exactly when one of the roots is an ancestor of it, name by name,
  or the path itself. In particular a sibling such as \<open>/root-evil\<close> of \<open>/root\<close> is not
  inside, and names that merely start with two dots are.
\<close>

theorem allowed_decides_containment:
  assumes "policy_ok p" and "canonical q"
  shows "allowed p (path_of q) \<longleftrightarrow> inside p q"
  using assms by (rule allowed_path_of)

theorem allowed_decides_containment_witness:
  "allowed demo_policy (path_of [''r'', ''..x'']) \<and> \<not> allowed demo_policy (path_of [''r-evil''])"
proof -
  have "canonical [''r'', ''..x'']" "canonical [''r-evil'']"
    "inside demo_policy [''r'', ''..x'']" "\<not> inside demo_policy [''r-evil'']"
    by code_simp+
  then show ?thesis
    by (simp add: allowed_decides_containment [OF policy_ok_demo])
qed

text \<open>
  C8. What \<^verbatim>\<open>ResolveExisting\<close> returns is the path of an existing location under an
  allowed root. No location on the way to it is a symbolic link, so a later system call on the
  returned path reaches that very node, whether or not it follows links.
\<close>

theorem resolve_existing_confined:
  assumes "wf_fs fs" and "policy_ok p" and "resolve_existing p fs path = Inr r"
  shows "\<exists>q nd. r = path_of q \<and> canonical q \<and> inside p q \<and> link_free fs q \<and>
    nodes fs q = Some nd \<and> stat fs r = Inr nd \<and> lstat fs r = Inr nd"
proof -
  from resolve_existing_cases [OF assms] obtain q where
    q: "r = path_of q" "canonical q" "inside p q" "nodes fs q \<noteq> None" "clear fs q"
      "\<not> is_link_at fs q" .
  then have "walk fs fol n [] q = Inr (q, n)" for fol n
    using walk_location [of fs "[]" q] assms(1) by simp
  with q existing_link_free [OF assms(1) q(4,6)] show ?thesis
    by (auto simp: stat_def lstat_def walk_root_path node_at_def)
qed

theorem resolve_existing_confined_witness:
  "resolve_existing demo_policy demo_fs ''a'' = Inr ''/r/a'' \<and>
   (\<exists>q nd. ''/r/a'' = path_of q \<and> canonical q \<and> inside demo_policy q \<and> link_free demo_fs q \<and>
      nodes demo_fs q = Some nd \<and> stat demo_fs ''/r/a'' = Inr nd \<and> lstat demo_fs ''/r/a'' = Inr nd)"
proof -
  have r: "resolve_existing demo_policy demo_fs ''a'' = Inr ''/r/a''"
    by code_simp
  show ?thesis
    using r resolve_existing_confined [OF wf_demo_fs policy_ok_demo r] by blast
qed

text \<open>
  \<^verbatim>\<open>ResolveExisting\<close> decides by where the symbolic links lead and by nothing else:
  if following all links of the requested path ends at location \<open>q\<close>, the answer is the path
  of \<open>q\<close> when \<open>q\<close> is inside the policy and the error \<^verbatim>\<open>ErrOutsideRoots\<close>
  otherwise. Resolving the answer again gives the answer.
\<close>

theorem resolve_existing_by_target:
  assumes "wf_fs fs" and "policy_ok p" and "trim_space path \<noteq> []"
    and "abs_path fs path = Inr a" and "walk fs True 255 [] (comps a) = Inr (q, k)"
  shows "resolve_existing p fs path =
      (if inside p q then Inr (path_of q) else Inl ErrOutsideRoots) \<and>
    (inside p q \<longrightarrow> resolve_existing p fs (path_of q) = Inr (path_of q))"
proof -
  from walk_reaches [OF assms(5) assms(1) wf_root [OF assms(1)]]
  have q: "nodes fs q \<noteq> None" "clear fs q" "\<not> is_link_at fs q"
    by simp_all
  then have can: "canonical q"
    using wf_canonical [OF assms(1)] by blast
  from abs_path_canonical [OF assms(1,4)] obtain cs where "canonical cs" "a = path_of cs" .
  then have e: "eval_symlinks fs a = Inr (path_of q)"
    using assms(5) by (simp add: eval_symlinks_def walk_root_path)
  with e can assms allowed_path_of [OF assms(2) can] resolve_location [OF assms(1,2) q] show ?thesis
    by (auto simp: resolve_existing_def)
qed

theorem resolve_existing_by_target_witness:
  "resolve_existing demo_policy demo_fs ''out'' = Inl ErrOutsideRoots \<and>
   resolve_existing demo_policy demo_fs ''/r/./a'' = Inr ''/r/a''"
proof -
  have 1: "trim_space ''out'' \<noteq> []" "abs_path demo_fs ''out'' = Inr ''/r/out''"
    "walk demo_fs True 255 [] (comps ''/r/out'') = Inr ([''etc''], 254)"
    "\<not> inside demo_policy [''etc'']"
    by code_simp+
  have 2: "trim_space ''/r/./a'' \<noteq> []" "abs_path demo_fs ''/r/./a'' = Inr ''/r/a''"
    "walk demo_fs True 255 [] (comps ''/r/a'') = Inr ([''r'', ''a''], 255)"
    "inside demo_policy [''r'', ''a'']" "path_of [''r'', ''a''] = ''/r/a''"
    by code_simp+
  show ?thesis
    using resolve_existing_by_target [OF wf_demo_fs policy_ok_demo 1(1-3)] 1(4)
      resolve_existing_by_target [OF wf_demo_fs policy_ok_demo 2(1-3)] 2(4,5)
    by simp
qed

text \<open>
  C9. What \<^verbatim>\<open>ResolveForCreate\<close> returns is the path of a location under an allowed
  root with no symbolic link on the way: its existing part is physical, and where the missing part
  starts there is nothing, so a symbolic link in a parent cannot lead a new file out of the root.
\<close>

theorem resolve_for_create_confined:
  assumes "wf_fs fs" and "policy_ok p" and "resolve_for_create p fs path = Inr r"
  shows "\<exists>q es. r = path_of (q @ es) \<and> canonical (q @ es) \<and> inside p (q @ es) \<and>
    link_free fs (q @ es) \<and> nodes fs q \<noteq> None \<and> (es \<noteq> [] \<longrightarrow> nodes fs (q @ [hd es]) = None)"
proof -
  from resolve_for_create_cases [OF assms] obtain q es where
    q: "r = path_of (q @ es)" "canonical (q @ es)" "inside p (q @ es)" "nodes fs q \<noteq> None"
      "es \<noteq> [] \<longrightarrow> nodes fs (q @ [hd es]) = None"
    by metis
  moreover have "link_free fs (q @ es)"
    using create.resolved_comps(2) [OF assms] q by simp
  ultimately show ?thesis by blast
qed

theorem resolve_for_create_confined_witness:
  "resolve_for_create demo_policy demo_fs ''new/dir'' = Inr ''/r/new/dir'' \<and>
   (\<exists>q es. ''/r/new/dir'' = path_of (q @ es) \<and> canonical (q @ es) \<and> inside demo_policy (q @ es) \<and>
      link_free demo_fs (q @ es) \<and> nodes demo_fs q \<noteq> None \<and>
      (es \<noteq> [] \<longrightarrow> nodes demo_fs (q @ [hd es]) = None))"
proof -
  have r: "resolve_for_create demo_policy demo_fs ''new/dir'' = Inr ''/r/new/dir''"
    by code_simp
  show ?thesis
    using r resolve_for_create_confined [OF wf_demo_fs policy_ok_demo r] by blast
qed

text \<open>
  A policy that \<^verbatim>\<open>New\<close> builds has absolute clean roots without duplicates, and
  each of them is a physical directory of the file system.
\<close>

theorem new_policy_sound:
  assumes "wf_fs fs" and "new_policy fs rs = Inr p"
  shows "policy_ok p \<and> distinct (roots p) \<and> (\<forall>r\<in>set (roots p). is_dir_at fs (comps r))"
  using assms by (rule new_policy_roots)

theorem new_policy_sound_witness:
  "new_policy demo_fs [''/r'', ''.'', ''/r/out''] = Inr \<lparr>roots = [''/r'', ''/etc'']\<rparr> \<and>
   policy_ok \<lparr>roots = [''/r'', ''/etc'']\<rparr> \<and> is_dir_at demo_fs [''etc'']"
proof -
  have n: "new_policy demo_fs [''/r'', ''.'', ''/r/out''] = Inr \<lparr>roots = [''/r'', ''/etc'']\<rparr>"
    by code_simp
  have "comps ''/etc'' = [''etc'']"
    by code_simp
  with n new_policy_sound [OF wf_demo_fs n] show ?thesis
    by simp
qed

end
