(* ===== verification/Syscalls.thy ===== *)
theory Syscalls
  imports PathPolicy "HOL-Library.List_Lexorder" "HOL-Library.Char_ord"
begin

text \<open>
  The system calls that change the file system: creating, removing and renaming entries, making
  directories, and listing them. An entry is named by a path whose last component is looked up in
  the directory that the others lead to; that last component is not followed when it is a symbolic
  link, as in POSIX. All operations keep a file system well-formed.
\<close>

section \<open>Definitions\<close>

definition with_node :: "fsys \<Rightarrow> loc \<Rightarrow> node \<Rightarrow> fsys" where
  "with_node fs q nd = fs\<lparr>tab := AList.update q nd (tab fs)\<rparr>"

definition without_node :: "fsys \<Rightarrow> loc \<Rightarrow> fsys" where
  "without_node fs q = fs\<lparr>tab := AList.delete q (tab fs)\<rparr>"

definition move_tree :: "fsys \<Rightarrow> loc \<Rightarrow> loc \<Rightarrow> fsys" where
  "move_tree fs a b =
     fs\<lparr>tab := map (\<lambda>(q, nd). (b @ drop (length a) q, nd)) (filter (\<lambda>(q, nd). prefix a q) (tab fs)) @
               filter (\<lambda>(q, nd). \<not> prefix a q \<and> \<not> prefix b q) (tab fs)\<rparr>"

definition children :: "fsys \<Rightarrow> loc \<Rightarrow> string list" where
  "children fs p = sort (remdups (map last (filter (\<lambda>q. q \<noteq> [] \<and> butlast q = p) (map fst (tab fs)))))"

definition dir_entry :: "fsys \<Rightarrow> string \<Rightarrow> oserr + loc" where
  "dir_entry fs path =
     (let cs = comps path
      in if cs = [] \<or> \<not> ordinary (last cs) then Inl EINVAL
         else bindE (walk fs True (max_links fs) [] (butlast cs)) (\<lambda>(q, _).
                if \<not> is_dir_at fs q then Inl ENOTDIR
                else case io_err fs (q @ [last cs]) of Some e \<Rightarrow> Inl e | None \<Rightarrow> Inr (q @ [last cs])))"

definition sys_create :: "fsys \<Rightarrow> string \<Rightarrow> meta \<Rightarrow> oserr + loc \<times> fsys" where
  "sys_create fs path m =
     bindE (dir_entry fs path) (\<lambda>q.
       if nodes fs q \<noteq> None then Inl EEXIST else Inr (q, with_node fs q (File m [])))"

definition sys_mkdir :: "fsys \<Rightarrow> string \<Rightarrow> meta \<Rightarrow> oserr + fsys" where
  "sys_mkdir fs path m =
     bindE (dir_entry fs path) (\<lambda>q.
       if nodes fs q \<noteq> None then Inl EEXIST else Inr (with_node fs q (Directory m)))"

definition sys_remove :: "fsys \<Rightarrow> string \<Rightarrow> oserr + fsys" where
  "sys_remove fs path =
     bindE (dir_entry fs path) (\<lambda>q.
       if nodes fs q = None then Inl ENOENT
       else if is_dir_at fs q \<and> children fs q \<noteq> [] then Inl ENOTEMPTY
       else Inr (without_node fs q))"

definition sys_rename :: "fsys \<Rightarrow> string \<Rightarrow> string \<Rightarrow> oserr + fsys" where
  "sys_rename fs old new =
     bindE (dir_entry fs old) (\<lambda>a.
     if nodes fs a = None then Inl ENOENT
     else bindE (dir_entry fs new) (\<lambda>b.
       if a = b then Inr fs
       else if prefix a b then Inl EINVAL
       else if prefix b a then Inl ENOTEMPTY
       else if nodes fs b = None then Inr (move_tree fs a b)
       else if is_dir_at fs a then
         (if \<not> is_dir_at fs b then Inl ENOTDIR
          else if children fs b \<noteq> [] then Inl ENOTEMPTY else Inr (move_tree fs a b))
       else if is_dir_at fs b then Inl EISDIR
       else Inr (move_tree fs a b)))"

text \<open>\<^verbatim>\<open>os.Rename\<close>, which refuses to replace a directory.\<close>

definition same_file :: "fsys \<Rightarrow> string \<Rightarrow> string \<Rightarrow> bool" where
  "same_file fs a b =
     (case (walk fs False (max_links fs) [] (split_on CHR ''/'' a), walk fs False (max_links fs) [] (split_on CHR ''/'' b)) of
        (Inr (p, _), Inr (q, _)) \<Rightarrow> p = q
      | _ \<Rightarrow> False)"

definition os_rename :: "fsys \<Rightarrow> string \<Rightarrow> string \<Rightarrow> oserr + fsys" where
  "os_rename fs old new =
     (case lstat fs new of
        Inr (Directory _) \<Rightarrow>
          (case lstat fs old of
             Inl e \<Rightarrow> Inl e
           | Inr _ \<Rightarrow> if new = old \<or> \<not> same_file fs new old then Inl EEXIST else sys_rename fs old new)
      | _ \<Rightarrow> sys_rename fs old new)"

text \<open>\<^verbatim>\<open>os.MkdirAll\<close>, on the components of the path, with the states it goes through.\<close>

function mkdir_all :: "fsys \<Rightarrow> meta \<Rightarrow> loc \<Rightarrow> (oserr + unit) \<times> fsys list" where
  "mkdir_all fs m cs =
     (case stat fs (path_of cs) of
        Inr (Directory _) \<Rightarrow> (Inr (), [fs])
      | Inr _ \<Rightarrow> (Inl ENOTDIR, [fs])
      | Inl e \<Rightarrow>
        if cs = [] then (Inl e, [fs])
        else (case mkdir_all fs m (butlast cs) of
                (Inl e', tr) \<Rightarrow> (Inl e', tr)
              | (Inr _, tr) \<Rightarrow>
                (case sys_mkdir (last tr) (path_of cs) m of
                   Inr fs' \<Rightarrow> (Inr (), tr @ [fs'])
                 | Inl e' \<Rightarrow>
                   (case lstat (last tr) (path_of cs) of Inr (Directory _) \<Rightarrow> (Inr (), tr) | _ \<Rightarrow> (Inl e', tr)))))"
  by pat_completeness auto
termination
  by (relation "measure (\<lambda>(fs, m, cs). length cs)") auto

declare mkdir_all.simps [simp del]

section \<open>Lemmas\<close>

subsection \<open>The table\<close>

lemma fsys_fields [simp]:
  "io_err (with_node fs q nd) = io_err fs" "cwd (with_node fs q nd) = cwd fs" "max_links (with_node fs q nd) = max_links fs"
  "io_err (without_node fs q) = io_err fs" "cwd (without_node fs q) = cwd fs" "max_links (without_node fs q) = max_links fs"
  "io_err (move_tree fs a b) = io_err fs" "cwd (move_tree fs a b) = cwd fs" "max_links (move_tree fs a b) = max_links fs"
  by (simp_all add: with_node_def without_node_def move_tree_def)

lemma nodes_with [simp]: "nodes (with_node fs q nd) = (nodes fs)(q \<mapsto> nd)"
  by (simp add: nodes_def with_node_def update_conv')

lemma nodes_without [simp]: "nodes (without_node fs q) = (nodes fs)(q := None)"
  by (simp add: nodes_def without_node_def delete_conv')

lemma map_of_relocate:
  "map_of (map (\<lambda>(q, nd). (b @ drop (length a) q, nd)) (filter (\<lambda>(q, nd). prefix a q) xs)) q =
   (if prefix b q then map_of xs (a @ drop (length b) q) else None)"
proof (induction xs)
  case (Cons x xs)
  obtain p nd where x: "x = (p, nd)" by (cases x)
  show ?case
  proof (cases "prefix a p")
    case True
    then obtain s where s: "p = a @ s" by (auto simp: prefix_def)
    have "b @ s = q \<longleftrightarrow> prefix b q \<and> a @ drop (length b) q = p"
      using s by (auto simp: prefix_def)
    with Cons x s show ?thesis by auto
  next
    case False
    then have "a @ drop (length b) q \<noteq> p" by auto
    with Cons x False show ?thesis by simp
  qed
qed simp

lemma map_of_filter_keys: "map_of (filter (\<lambda>(q, nd). P q) xs) q = (if P q then map_of xs q else None)"
  by (induction xs) auto

lemma nodes_move:
  assumes "\<not> prefix a b"
  shows "nodes (move_tree fs a b) q =
    (if prefix b q then nodes fs (a @ drop (length b) q) else if prefix a q then None else nodes fs q)"
  by (auto simp: nodes_def move_tree_def map_add_def map_of_relocate map_of_filter_keys split: option.splits)

lemma children_iff: "c \<in> set (children fs p) \<longleftrightarrow> nodes fs (p @ [c]) \<noteq> None"
proof -
  have "nodes fs (p @ [c]) \<noteq> None \<longleftrightarrow> p @ [c] \<in> fst ` set (tab fs)"
    by (simp add: nodes_def map_of_eq_None_iff)
  moreover have "c \<in> set (children fs p) \<longleftrightarrow> (\<exists>q\<in>fst ` set (tab fs). q \<noteq> [] \<and> butlast q = p \<and> last q = c)"
    by (auto simp: children_def)
  moreover have "(\<exists>q\<in>fst ` set (tab fs). q \<noteq> [] \<and> butlast q = p \<and> last q = c) \<longleftrightarrow> p @ [c] \<in> fst ` set (tab fs)"
    by (metis append_butlast_last_id butlast_snoc last_snoc snoc_eq_iff_butlast)
  ultimately show ?thesis by blast
qed

lemma children_sorted: "sorted (children fs p)" "distinct (children fs p)"
  by (simp_all add: children_def)

subsection \<open>Entries\<close>

lemma comps_pieces: "c \<in> set (comps p) \<Longrightarrow> c \<noteq> [] \<and> CHR ''/'' \<notin> set c"
  using split_on_pieces [of c "CHR ''/''" p] by (auto simp: comps_def)

lemma dir_entry_Inr:
  assumes "dir_entry fs path = Inr q"
  obtains d k where "q = d @ [last (comps path)]" and "walk fs True (max_links fs) [] (butlast (comps path)) = Inr (d, k)"
    and "is_dir_at fs d" and "name_ok (last (comps path))" and "io_err fs q = None"
proof -
  have cs: "comps path \<noteq> []" "ordinary (last (comps path))"
    using assms by (auto simp: dir_entry_def Let_def split: if_splits)
  from assms obtain d k where "walk fs True (max_links fs) [] (butlast (comps path)) = Inr (d, k)"
    "is_dir_at fs d" "q = d @ [last (comps path)]" "io_err fs q = None"
    by (auto simp: dir_entry_def Let_def err_simps split: if_splits option.splits)
  moreover have "name_ok (last (comps path))"
    using comps_pieces [of "last (comps path)" path] cs by (auto simp: name_ok_def ordinary_def)
  ultimately show ?thesis using that by blast
qed

text \<open>Without symbolic links on the way, an entry is where its path says.\<close>

lemma dir_entry_link_free:
  assumes "dir_entry fs (path_of cs) = Inr q" and "canonical cs" and "link_free fs (butlast cs)"
  shows "q = cs" "is_dir_at fs (butlast cs)" "cs \<noteq> []" "io_err fs cs = None"
proof -
  have ne: "cs \<noteq> []"
    using assms(1,2) by (auto simp: dir_entry_def Let_def)
  obtain d k where
    d: "q = d @ [last cs]" "walk fs True (max_links fs) [] (butlast cs) = Inr (d, k)" "is_dir_at fs d" "io_err fs q = None"
    using assms(2) by (auto intro: dir_entry_Inr [OF assms(1)])
  have "d = butlast cs"
    using walk_link_free [OF d(2) canonical_butlast [OF assms(2)]] assms(3) by simp
  with d ne show "q = cs" "is_dir_at fs (butlast cs)" "cs \<noteq> []" "io_err fs cs = None" by simp_all
qed

lemma is_link_at_with [simp]: "is_link_at (with_node fs q nd) r = (if r = q then (case nd of Link _ _ \<Rightarrow> True | _ \<Rightarrow> False) else is_link_at fs r)"
  by (simp add: is_link_at_def)

lemma is_dir_at_with [simp]: "is_dir_at (with_node fs q nd) r = (if r = q then (case nd of Directory _ \<Rightarrow> True | _ \<Rightarrow> False) else is_dir_at fs r)"
  by (simp add: is_dir_at_def)

lemma link_free_with: "link_free fs r \<Longrightarrow> (case nd of Link _ _ \<Rightarrow> False | _ \<Rightarrow> True) \<Longrightarrow> link_free (with_node fs q nd) r"
  by (auto simp: link_free_iff split: node.splits)

lemma link_free_prefix: "link_free fs q \<Longrightarrow> prefix r q \<Longrightarrow> link_free fs r"
  by (meson link_free_iff prefix_order.trans)

lemma link_free_butlast: "link_free fs q \<Longrightarrow> link_free fs (butlast q)"
  by (erule link_free_prefix) (rule prefixeq_butlast)

subsection \<open>Well-formedness\<close>

lemma wf_fsI:
  assumes "wf_fs fs" and "is_dir_at fs' []"
    and "\<And>p c. nodes fs' (p @ [c]) \<noteq> None \<Longrightarrow> is_dir_at fs' p \<and> name_ok c"
    and "io_err fs' = io_err fs" and "cwd fs' = cwd fs" and "max_links fs' = max_links fs"
  shows "wf_fs fs'"
  using assms unfolding wf_fs_def by simp

lemma wf_with:
  assumes "wf_fs fs" and "is_dir_at fs d" and "name_ok c"
    and "is_dir_at fs (d @ [c]) \<Longrightarrow> (case nd of Directory _ \<Rightarrow> True | _ \<Rightarrow> False)"
  shows "wf_fs (with_node fs (d @ [c]) nd)"
proof (rule wf_fsI [OF assms(1)])
  show "is_dir_at (with_node fs (d @ [c]) nd) []"
    using wf_root [OF assms(1)] by simp
  fix p x assume ex: "nodes (with_node fs (d @ [c]) nd) (p @ [x]) \<noteq> None"
  show "is_dir_at (with_node fs (d @ [c]) nd) p \<and> name_ok x"
  proof (cases "p @ [x] = d @ [c]")
    case True
    with assms(2,3) show ?thesis by auto
  next
    case False
    with ex have "nodes fs (p @ [x]) \<noteq> None" by (simp split: if_splits)
    from wf_parent [OF assms(1) this] assms(4) show ?thesis by auto
  qed
qed simp_all

lemma wf_without:
  assumes "wf_fs fs" and "q \<noteq> []" and "\<forall>c. nodes fs (q @ [c]) = None"
  shows "wf_fs (without_node fs q)"
proof (rule wf_fsI [OF assms(1)])
  show "is_dir_at (without_node fs q) []"
    using wf_root [OF assms(1)] assms(2) by (simp add: is_dir_at_def)
  fix p x assume "nodes (without_node fs q) (p @ [x]) \<noteq> None"
  then have ex: "nodes fs (p @ [x]) \<noteq> None" by (simp split: if_splits)
  with assms(3) have "p \<noteq> q" by auto
  with wf_parent [OF assms(1) ex] show "is_dir_at (without_node fs q) p \<and> name_ok x"
    by (simp add: is_dir_at_def)
qed simp_all

lemma no_children: "wf_fs fs \<Longrightarrow> \<not> is_dir_at fs q \<Longrightarrow> nodes fs (q @ [c]) = None"
  using wf_parent [of fs q c] by (cases "nodes fs (q @ [c])") auto

lemma is_dir_at_move:
  "\<not> prefix a b \<Longrightarrow> is_dir_at (move_tree fs a b) q =
    (if prefix b q then is_dir_at fs (a @ drop (length b) q) else \<not> prefix a q \<and> is_dir_at fs q)"
  by (simp add: is_dir_at_def nodes_move)

lemma wf_move:
  assumes "wf_fs fs" and "\<not> prefix a b" and "b = d @ [c]" and "is_dir_at fs d" and "name_ok c" and "a \<noteq> []"
  shows "wf_fs (move_tree fs a b)"
proof (rule wf_fsI [OF assms(1)])
  show "is_dir_at (move_tree fs a b) []"
    using wf_root [OF assms(1)] assms(2,3,6) by (simp add: is_dir_at_move)
  fix p x assume ex: "nodes (move_tree fs a b) (p @ [x]) \<noteq> None"
  show "is_dir_at (move_tree fs a b) p \<and> name_ok x"
  proof (cases "prefix b (p @ [x])")
    case in_b: True
    show ?thesis
    proof (cases "p @ [x] = b")
      case True
      then have "p = d" "x = c" using assms(3) by simp_all
      moreover have "\<not> prefix b d" "\<not> prefix a d"
        using assms(2,3) by (auto simp: prefix_def)
      ultimately show ?thesis using assms(2,4,5) by (simp add: is_dir_at_move)
    next
      case False
      with in_b have pb: "prefix b p" by simp
      then have "nodes fs ((a @ drop (length b) p) @ [x]) \<noteq> None"
        using ex in_b assms(2) by (auto simp: nodes_move prefix_def)
      from wf_parent [OF assms(1) this] pb show ?thesis
        using assms(2) by (simp add: is_dir_at_move)
    qed
  next
    case False
    then have ex': "nodes fs (p @ [x]) \<noteq> None" and na: "\<not> prefix a (p @ [x])"
      using ex assms(2) by (auto simp: nodes_move split: if_splits)
    then have "\<not> prefix a p" "\<not> prefix b p" using False by auto
    with wf_parent [OF assms(1) ex'] show ?thesis
      using assms(2) by (simp add: is_dir_at_move)
  qed
qed simp_all

lemma sys_create_wf: "wf_fs fs \<Longrightarrow> sys_create fs path m = Inr (q, fs') \<Longrightarrow> wf_fs fs'"
  by (auto simp: sys_create_def err_simps is_dir_at_def elim!: dir_entry_Inr intro!: wf_with split: if_splits)

lemma sys_mkdir_wf: "wf_fs fs \<Longrightarrow> sys_mkdir fs path m = Inr fs' \<Longrightarrow> wf_fs fs'"
  by (auto simp: sys_mkdir_def err_simps is_dir_at_def elim!: dir_entry_Inr intro!: wf_with split: if_splits)

lemma sys_remove_wf:
  assumes "wf_fs fs" and "sys_remove fs path = Inr fs'"
  shows "wf_fs fs'"
proof -
  from assms(2) obtain q where q: "dir_entry fs path = Inr q" "fs' = without_node fs q" "\<not> (is_dir_at fs q \<and> children fs q \<noteq> [])"
    by (auto simp: sys_remove_def err_simps split: if_splits)
  have "q \<noteq> []" using q(1) by (auto elim: dir_entry_Inr)
  moreover have "nodes fs (q @ [c]) = None" for c
    using q(3) no_children [OF assms(1)] children_iff [of c fs q] by auto
  ultimately show ?thesis using wf_without [OF assms(1)] q(2) by blast
qed

lemma sys_rename_cases:
  assumes "sys_rename fs old new = Inr fs'"
  obtains (same) a where "dir_entry fs old = Inr a" "dir_entry fs new = Inr a" "nodes fs a \<noteq> None" "fs' = fs"
  | (moved) a b where "dir_entry fs old = Inr a" "dir_entry fs new = Inr b" "nodes fs a \<noteq> None"
    "\<not> prefix a b" "\<not> prefix b a" "fs' = move_tree fs a b" "is_dir_at fs b \<longrightarrow> is_dir_at fs a \<and> children fs b = []"
  using assms by (auto simp: sys_rename_def err_simps is_dir_at_def split: if_splits)

lemma sys_rename_wf:
  assumes "wf_fs fs" and "sys_rename fs old new = Inr fs'"
  shows "wf_fs fs'"
  using assms(2)
proof (cases rule: sys_rename_cases)
  case (moved a b)
  have "a \<noteq> []" using moved(1) by (auto elim: dir_entry_Inr)
  with moved show ?thesis
    by (auto elim!: dir_entry_Inr [of fs new b] intro: wf_move [OF assms(1)])
qed (use assms in simp)

lemma os_renameD: "os_rename fs old new = Inr fs' \<Longrightarrow> sys_rename fs old new = Inr fs'"
  by (auto simp: os_rename_def split: sum.splits node.splits if_splits)

lemma dir_entry_iff:
  assumes "wf_fs fs" and "canonical cs" and "cs \<noteq> []" and "link_free fs (butlast cs)"
  shows "dir_entry fs (path_of cs) = Inr cs \<longleftrightarrow> is_dir_at fs (butlast cs) \<and> clear fs cs"
proof
  assume l: "dir_entry fs (path_of cs) = Inr cs"
  from l obtain d k where "cs = d @ [last cs]" "walk fs True (max_links fs) [] (butlast cs) = Inr (d, k)" "is_dir_at fs d" "io_err fs cs = None"
    using assms(2) by (auto intro: dir_entry_Inr [OF l])
  moreover from this have "clear fs d"
    using walk_reaches [OF _ assms(1) wf_root [OF assms(1)]] by fastforce
  ultimately show "is_dir_at fs (butlast cs) \<and> clear fs cs"
    by (metis butlast_snoc clear_snoc)
next
  assume r: "is_dir_at fs (butlast cs) \<and> clear fs cs"
  then have "walk fs True (max_links fs) [] (butlast cs) = Inr (butlast cs, max_links fs)"
    using walk_location [OF assms(1), of "[]" "butlast cs"] clear_butlast dir_not_link by (fastforce simp: is_dir_at_iff)
  moreover have "ordinary (last cs)" "io_err fs cs = None"
    using assms(2,3) r by (auto simp: canonical_def list_all_iff ordinary_name clear_def)
  ultimately show "dir_entry fs (path_of cs) = Inr cs"
    using assms(2,3) r by (simp add: dir_entry_def)
qed

end
