(* ===== verification/Base64.thy ===== *)
theory Base64
  imports Prelude
begin

text \<open>
  The two base64 encodings the sources use (\<^verbatim>\<open>base64.StdEncoding\<close> with padding,
  \<^verbatim>\<open>base64.RawURLEncoding\<close> without) and the lower-case hexadecimal encoding of
  \<^verbatim>\<open>hex.EncodeToString\<close>. As in Go, the decoders skip carriage returns and line feeds and
  do not insist that unused bits are zero.
\<close>

section \<open>Definitions\<close>

definition std_alphabet :: string where
  "std_alphabet = ''ABCDEFGHIJKLMNOPQRSTUVWXYZabcdefghijklmnopqrstuvwxyz0123456789+/''"

definition url_alphabet :: string where
  "url_alphabet = ''ABCDEFGHIJKLMNOPQRSTUVWXYZabcdefghijklmnopqrstuvwxyz0123456789-_''"

definition sextet :: "string \<Rightarrow> char \<Rightarrow> nat option" where
  "sextet alpha c = map_of (zip alpha [0..<64]) c"

fun encode :: "string \<Rightarrow> string \<Rightarrow> nat list \<Rightarrow> string" where
  "encode alpha pad [] = []"
| "encode alpha pad [a] = [alpha ! (a div 4), alpha ! (a mod 4 * 16)] @ pad @ pad"
| "encode alpha pad [a, b] =
     [alpha ! (a div 4), alpha ! (a mod 4 * 16 + b div 16), alpha ! (b mod 16 * 4)] @ pad"
| "encode alpha pad (a # b # c # r) =
     [alpha ! (a div 4), alpha ! (a mod 4 * 16 + b div 16), alpha ! (b mod 16 * 4 + c div 64),
      alpha ! (c mod 64)] @ encode alpha pad r"

definition one_byte :: "nat option \<Rightarrow> nat option \<Rightarrow> nat list option" where
  "one_byte w x = (case (w, x) of (Some w, Some x) \<Rightarrow> Some [w * 4 + x div 16] | _ \<Rightarrow> None)"

definition two_bytes :: "nat option \<Rightarrow> nat option \<Rightarrow> nat option \<Rightarrow> nat list option" where
  "two_bytes w x y =
     (case (w, x, y) of
        (Some w, Some x, Some y) \<Rightarrow> Some [w * 4 + x div 16, x mod 16 * 16 + y div 4]
      | _ \<Rightarrow> None)"

definition three_bytes ::
  "nat option \<Rightarrow> nat option \<Rightarrow> nat option \<Rightarrow> nat option \<Rightarrow> nat list option" where
  "three_bytes w x y z =
     (case (w, x, y, z) of
        (Some w, Some x, Some y, Some z) \<Rightarrow>
          Some [w * 4 + x div 16, x mod 16 * 16 + y div 4, y mod 4 * 64 + z]
      | _ \<Rightarrow> None)"

definition append_opt :: "nat list option \<Rightarrow> nat list option \<Rightarrow> nat list option" where
  "append_opt a b = (case (a, b) of (Some x, Some y) \<Rightarrow> Some (x @ y) | _ \<Rightarrow> None)"

fun decode_std :: "string \<Rightarrow> nat list option" where
  "decode_std [] = Some []"
| "decode_std (w # x # y # z # r) =
     (let v = sextet std_alphabet
      in if r = [] \<and> y = CHR ''='' \<and> z = CHR ''='' then one_byte (v w) (v x)
         else if r = [] \<and> z = CHR ''='' then two_bytes (v w) (v x) (v y)
         else append_opt (three_bytes (v w) (v x) (v y) (v z)) (decode_std r))"
| "decode_std _ = None"

fun decode_url :: "string \<Rightarrow> nat list option" where
  "decode_url [] = Some []"
| "decode_url [w, x] = one_byte (sextet url_alphabet w) (sextet url_alphabet x)"
| "decode_url [w, x, y] =
     two_bytes (sextet url_alphabet w) (sextet url_alphabet x) (sextet url_alphabet y)"
| "decode_url (w # x # y # z # r) =
     append_opt (three_bytes (sextet url_alphabet w) (sextet url_alphabet x)
       (sextet url_alphabet y) (sextet url_alphabet z)) (decode_url r)"
| "decode_url _ = None"

definition skip_newlines :: "string \<Rightarrow> string" where
  "skip_newlines s = filter (\<lambda>c. c \<noteq> CHR 0x0A \<and> c \<noteq> CHR 0x0D) s"

definition b64_encode :: "bytes \<Rightarrow> string" where
  "b64_encode bs = encode std_alphabet ''='' (map unat bs)"

definition b64_decode :: "string \<Rightarrow> bytes option" where
  "b64_decode s = map_option (map word_of_nat) (decode_std (skip_newlines s))"

definition b64url_encode :: "bytes \<Rightarrow> string" where
  "b64url_encode bs = encode url_alphabet [] (map unat bs)"

definition b64url_decode :: "string \<Rightarrow> bytes option" where
  "b64url_decode s = map_option (map word_of_nat) (decode_url (skip_newlines s))"

definition hex_digits :: string where
  "hex_digits = ''0123456789abcdef''"

definition hex_encode :: "bytes \<Rightarrow> string" where
  "hex_encode bs = concat (map (\<lambda>b. [hex_digits ! (unat b div 16), hex_digits ! (unat b mod 16)]) bs)"

section \<open>Lemmas\<close>

lemma alphabets:
  "length std_alphabet = 64" "distinct std_alphabet" "length url_alphabet = 64" "distinct url_alphabet"
  by code_simp+

lemma sextet_std [simp]: "n < 64 \<Longrightarrow> sextet std_alphabet (std_alphabet ! n) = Some n"
  unfolding sextet_def by (subst map_of_zip_nth) (simp_all add: alphabets)

lemma sextet_url [simp]: "n < 64 \<Longrightarrow> sextet url_alphabet (url_alphabet ! n) = Some n"
  unfolding sextet_def by (subst map_of_zip_nth) (simp_all add: alphabets)

lemma sextets:
  fixes a b c :: nat
  shows "a < 256 \<Longrightarrow> a div 4 < 64" "b < 256 \<Longrightarrow> a mod 4 * 16 + b div 16 < 64"
    "c < 256 \<Longrightarrow> b mod 16 * 4 + c div 64 < 64" "c mod 64 < 64" "a mod 4 * 16 < 64" "b mod 16 * 4 < 64"
  by simp_all

lemma regroup:
  fixes a b c :: nat
  shows "b < 256 \<Longrightarrow> a div 4 * 4 + (a mod 4 * 16 + b div 16) div 16 = a"
    "b < 256 \<Longrightarrow> c < 256 \<Longrightarrow> (a mod 4 * 16 + b div 16) mod 16 * 16 + (b mod 16 * 4 + c div 64) div 4 = b"
    "c < 256 \<Longrightarrow> (b mod 16 * 4 + c div 64) mod 4 * 64 + c mod 64 = c"
    "a div 4 * 4 + (a mod 4 * 16) div 16 = a"
    "b < 256 \<Longrightarrow> (a mod 4 * 16 + b div 16) mod 16 * 16 + (b mod 16 * 4) div 4 = b"
  by simp_all

lemma regroup_last:
  fixes b c :: nat
  shows "b < 256 \<Longrightarrow> b div 16 div 16 = 0" "b < 256 \<Longrightarrow> b div 16 mod 16 * 16 + b mod 16 = b"
    "b < 256 \<Longrightarrow> c < 256 \<Longrightarrow> b div 16 mod 16 * 16 + (b mod 16 + c div 64 div 4) = b"
    "c < 256 \<Longrightarrow> c div 64 mod 4 * 64 + c mod 64 = c"
  by simp_all

lemma pad_not_in_alphabet: "CHR ''='' \<notin> set std_alphabet"
  by code_simp

lemma std_neq_pad: "n < 64 \<Longrightarrow> std_alphabet ! n \<noteq> CHR ''=''"
  by (metis nth_mem alphabets(1) pad_not_in_alphabet)

lemma decode_std_encode:
  "\<forall>x\<in>set xs. x < 256 \<Longrightarrow> decode_std (encode std_alphabet ''='' xs) = Some xs"
proof (induction std_alphabet "''=''" xs rule: encode.induct)
  case (2 a)
  then show ?case
    by (simp add: one_byte_def sextets regroup)
next
  case (3 a b)
  then show ?case
    by (simp add: two_bytes_def std_neq_pad sextets regroup regroup_last)
next
  case (4 a b c r)
  then show ?case
    by (simp add: three_bytes_def append_opt_def std_neq_pad sextets regroup regroup_last)
qed simp

lemma decode_url_encode:
  "\<forall>x\<in>set xs. x < 256 \<Longrightarrow> decode_url (encode url_alphabet [] xs) = Some xs"
proof (induction url_alphabet "[] :: string" xs rule: encode.induct)
  case (2 a)
  then show ?case
    by (simp add: one_byte_def sextets regroup)
next
  case (3 a b)
  then show ?case
    by (simp add: two_bytes_def sextets regroup regroup_last)
next
  case (4 a b c r)
  then show ?case
    by (simp add: three_bytes_def append_opt_def std_neq_pad sextets regroup regroup_last)
qed simp

lemma encode_chars:
  "\<forall>x\<in>set xs. x < 256 \<Longrightarrow> length alpha = 64 \<Longrightarrow> set (encode alpha pad xs) \<subseteq> set alpha \<union> set pad"
proof (induction alpha pad xs rule: encode.induct)
  case (2 alpha pad a)
  then show ?case by (auto simp: sextets)
next
  case (3 alpha pad a b)
  then show ?case by (auto simp: sextets)
next
  case (4 alpha pad a b c r)
  then show ?case by (auto simp: sextets)
qed simp

lemma unat_byte_list: "\<forall>x\<in>set (map unat (bs :: bytes)). x < 256"
  using unsigned_less [where ?'a = nat and ?'b = 8] by auto

lemma skip_newlines_id:
  "set s \<subseteq> set alpha \<union> set pad \<Longrightarrow> CHR 0x0A \<notin> set alpha \<union> set pad \<Longrightarrow> CHR 0x0D \<notin> set alpha \<union> set pad \<Longrightarrow>
   skip_newlines s = s"
  unfolding skip_newlines_def by (intro filter_True) auto

lemma no_newlines:
  "CHR 0x0A \<notin> set std_alphabet \<union> set ''=''" "CHR 0x0D \<notin> set std_alphabet \<union> set ''=''"
  "CHR 0x0A \<notin> set url_alphabet \<union> set []" "CHR 0x0D \<notin> set url_alphabet \<union> set []"
  by code_simp+

lemma b64_roundtrip [simp]: "b64_decode (b64_encode bs) = Some bs"
  using encode_chars [OF unat_byte_list [of bs] alphabets(1), of "''=''"] no_newlines
    decode_std_encode [OF unat_byte_list [of bs]]
  by (simp add: b64_decode_def b64_encode_def skip_newlines_id [where pad = "''=''"] comp_def)

lemma b64url_roundtrip [simp]: "b64url_decode (b64url_encode bs) = Some bs"
  using encode_chars [OF unat_byte_list [of bs] alphabets(3), of "[]"] no_newlines
    decode_url_encode [OF unat_byte_list [of bs]]
  by (simp add: b64url_decode_def b64url_encode_def skip_newlines_id [where pad = "[]"] comp_def)

lemma b64url_chars: "set (b64url_encode bs) \<subseteq> set url_alphabet"
  using encode_chars [OF unat_byte_list [of bs] alphabets(3), of "[]"] by (simp add: b64url_encode_def)

lemma b64_chars: "set (b64_encode bs) \<subseteq> insert CHR ''='' (set std_alphabet)"
  using encode_chars [OF unat_byte_list [of bs] alphabets(1), of "''=''"] by (auto simp: b64_encode_def)

lemma length_encode_raw: "length (encode alpha [] xs) = (4 * length xs + 2) div 3"
  by (induction alpha "[] :: string" xs rule: encode.induct) auto

lemma length_hex_encode [simp]: "length (hex_encode bs) = 2 * length bs"
  by (induction bs) (simp_all add: hex_encode_def)

lemma hex_encode_inject: "hex_encode xs = hex_encode ys \<Longrightarrow> xs = ys"
proof (induction xs arbitrary: ys)
  case Nil
  then show ?case by (cases ys) (auto simp: hex_encode_def)
next
  case (Cons x xs)
  obtain y zs where ys: "ys = y # zs"
    using Cons.prems by (cases ys) (auto simp: hex_encode_def)
  have d: "distinct hex_digits" "length hex_digits = 16"
    by code_simp+
  have b: "unat x div 16 < 16" "unat y div 16 < 16"
    using unsigned_less [of x, where ?'a = nat] unsigned_less [of y, where ?'a = nat] by simp_all
  have "unat x div 16 = unat y div 16" "unat x mod 16 = unat y mod 16"
    using Cons.prems ys d b by (auto simp: hex_encode_def nth_eq_iff_index_eq)
  then have "unat x = unat y"
    by (metis mod_div_mult_eq)
  moreover have "hex_encode xs = hex_encode zs"
    using Cons.prems ys by (simp add: hex_encode_def)
  ultimately show ?case
    using Cons.IH ys by (simp add: word_unat_eq_iff)
qed

end
