(* ===== verification/FileTools.thy ===== *)
theory FileTools
  imports Syscalls Base64
begin

text \<open>
  The file tools of the agent (\<^verbatim>\<open>internal/executor/executor.go\<close>). A tool gets its decoded
  arguments (\<open>None\<close>: they do not decode) and returns its result; a tool that changes the file system
  also returns the sequence of states the file system goes through, one after each system call, so
  that what an observer or a crash can see is part of the model. \<open>env\<close> says which of the calls on
  open files fail, and gives what the operating system chooses: the time, the random part of the
  name of a temporary file (\<^verbatim>\<open>os.CreateTemp\<close> draws another one when the first is taken;
  \<open>tmp_random\<close> is the last one it draws), the content of special files and the sizes of other nodes.
\<close>

section \<open>Definitions\<close>

definition max_read_bytes :: int where "max_read_bytes = 4194304"
definition max_write_bytes :: int where "max_write_bytes = 4194304"
definition max_list_items :: int where "max_list_items = 2000"
definition max_combined_read_bytes :: int where "max_combined_read_bytes = 8388608"

record env =
  now :: time
  tmp_random :: string
  create_fault :: "oserr option"
  chmod_fault :: "oserr option"
  write_fault :: "(nat \<times> oserr) option"
  sync_fault :: "oserr option"
  close_fault :: "oserr option"
  rename_fault :: "oserr option"
  remove_fault :: "oserr option"
  open_fault :: "loc \<Rightarrow> oserr option"
  read_fault :: "loc \<Rightarrow> oserr option"
  special_data :: "loc \<Rightarrow> bytes"
  other_size :: "loc \<Rightarrow> nat"

subsection \<open>Text and binary content\<close>

text \<open>\<^verbatim>\<open>utf8.Valid\<close>.\<close>

definition cont :: "byte \<Rightarrow> bool" where
  "cont b = (0x80 \<le> b \<and> b \<le> 0xBF)"

definition second_of_three :: "byte \<Rightarrow> byte \<Rightarrow> bool" where
  "second_of_three a b =
     (if a = 0xE0 then 0xA0 \<le> b \<and> b \<le> 0xBF else if a = 0xED then 0x80 \<le> b \<and> b \<le> 0x9F else cont b)"

definition second_of_four :: "byte \<Rightarrow> byte \<Rightarrow> bool" where
  "second_of_four a b =
     (if a = 0xF0 then 0x90 \<le> b \<and> b \<le> 0xBF else if a = 0xF4 then 0x80 \<le> b \<and> b \<le> 0x8F
      else 0xF1 \<le> a \<and> a \<le> 0xF3 \<and> cont b)"

fun utf8_valid :: "bytes \<Rightarrow> bool" where
  "utf8_valid [] = True"
| "utf8_valid (a # r) =
     (if a < 0x80 then utf8_valid r
      else if a < 0xC2 then False
      else if a \<le> 0xDF then (case r of b # r1 \<Rightarrow> cont b \<and> utf8_valid r1 | _ \<Rightarrow> False)
      else if a \<le> 0xEF then
        (case r of b # c # r2 \<Rightarrow> second_of_three a b \<and> cont c \<and> utf8_valid r2 | _ \<Rightarrow> False)
      else (case r of b # c # d # r3 \<Rightarrow> second_of_four a b \<and> cont c \<and> cont d \<and> utf8_valid r3 | _ \<Rightarrow> False))"

declare utf8_valid.simps(2) [simp del]

definition encode_content :: "bytes \<Rightarrow> string \<times> string" where
  "encode_content b =
     (if utf8_valid b then (''utf-8'', string_of_bytes b) else (''base64'', b64_encode b))"

definition decode_content :: "string \<Rightarrow> string \<Rightarrow> goerror + bytes" where
  "decode_content encoding content =
     (if encoding = [] \<or> encoding = ''utf-8'' then Inr (bytes_of_string content)
      else if encoding = ''base64'' then
        (case b64_decode content of None \<Rightarrow> Inl (ErrMsg ''invalid base64 content'') | Some b \<Rightarrow> Inr b)
      else Inl (ErrMsg ''encoding must be utf-8 or base64''))"

subsection \<open>Reading\<close>

definition lift_os :: "oserr + 'a \<Rightarrow> goerror + 'a" where
  "lift_os r = (case r of Inl e \<Rightarrow> Inl (ErrOS e) | Inr x \<Rightarrow> Inr x)"

definition check_fault :: "oserr option \<Rightarrow> goerror + unit" where
  "check_fault f = (case f of None \<Rightarrow> Inr () | Some e \<Rightarrow> Inl (ErrOS e))"

definition node_bytes :: "env \<Rightarrow> loc \<Rightarrow> node \<Rightarrow> goerror + bytes" where
  "node_bytes e q nd =
     (case nd of File m d \<Rightarrow> Inr d | Directory m \<Rightarrow> Inl (ErrOS EISDIR) | _ \<Rightarrow> Inr (special_data e q))"

text \<open>Open a path and read it whole.\<close>

definition open_read :: "env \<Rightarrow> fsys \<Rightarrow> string \<Rightarrow> goerror + bytes" where
  "open_read e fs path =
     bindE (lift_os (walk fs True (max_links fs) [] (split_on CHR ''/'' path))) (\<lambda>(q, _).
     bindE (check_fault (open_fault e q)) (\<lambda>_.
     bindE (lift_os (node_at fs q)) (\<lambda>nd.
     bindE (check_fault (read_fault e q)) (\<lambda>_.
       node_bytes e q nd))))"

definition is_directory :: "node \<Rightarrow> bool" where
  "is_directory nd = (case nd of Directory _ \<Rightarrow> True | _ \<Rightarrow> False)"

record read_args =
  ra_path :: string
  ra_offset :: int
  ra_max_bytes :: int

record file_content =
  fc_path :: string
  fc_encoding :: string
  fc_content :: string
  fc_offset :: int
  fc_next_offset :: int
  fc_truncated :: bool

definition byte_limit :: "int \<Rightarrow> int" where
  "byte_limit n = (if n \<le> 0 \<or> n > max_read_bytes then max_read_bytes else n)"

definition invalid_arguments :: goerror where
  "invalid_arguments = ErrMsg ''invalid arguments''"

definition decode_args :: "'a option \<Rightarrow> goerror + 'a" where
  "decode_args a = (case a of None \<Rightarrow> Inl invalid_arguments | Some x \<Rightarrow> Inr x)"

text \<open>The answer of \<^verbatim>\<open>readFile\<close> for a file whose bytes are \<open>all\<close>.\<close>

definition file_chunk :: "string \<Rightarrow> int \<Rightarrow> int \<Rightarrow> bytes \<Rightarrow> file_content" where
  "file_chunk path offset limit all =
     (let got = take_upto (limit + 1) (drop (nat offset) all);
          trunc = (int (length got) > limit);
          b = (if trunc then take_upto limit got else got);
          enc = encode_content b
      in \<lparr>fc_path = path, fc_encoding = fst enc, fc_content = snd enc, fc_offset = offset,
          fc_next_offset = wrap64 (offset + int (length b)), fc_truncated = trunc\<rparr>)"

definition read_file :: "policy \<Rightarrow> env \<Rightarrow> fsys \<Rightarrow> read_args option \<Rightarrow> goerror + file_content" where
  "read_file p e fs args =
     bindE (decode_args args) (\<lambda>a.
     bindE (resolve_existing p fs (ra_path a)) (\<lambda>path.
     bindE (lift_os (stat fs path)) (\<lambda>st.
     bindE (ensure (\<not> is_directory st) (ErrMsg ''path is a directory'')) (\<lambda>_.
     let limit = byte_limit (ra_max_bytes a) in
     bindE (ensure (\<not> ra_offset a < 0) (ErrMsg ''offset cannot be negative'')) (\<lambda>_.
     bindE (open_read e fs path) (\<lambda>all.
       Inr (file_chunk path (ra_offset a) limit all)))))))"

text \<open>\<^verbatim>\<open>readMultipleFiles\<close>: an entry is an error for the requested path, or the content.\<close>

datatype multi_entry = EntryError string goerror | EntryContent string bool string string

definition read_one :: "policy \<Rightarrow> env \<Rightarrow> fsys \<Rightarrow> int \<Rightarrow> string \<Rightarrow> goerror + (string \<times> bytes \<times> bool)" where
  "read_one p e fs limit requested =
     bindE (resolve_existing p fs requested) (\<lambda>path.
     bindE (lift_os (stat fs path)) (\<lambda>st.
     bindE (ensure (\<not> is_directory st) (ErrMsg ''path is a directory'')) (\<lambda>_.
     bindE (open_read e fs path) (\<lambda>all.
       let got = take_upto (limit + 1) all;
           trunc = (int (length got) > limit)
       in Inr (path, if trunc then take_upto limit got else got, trunc)))))"

fun read_each ::
  "policy \<Rightarrow> env \<Rightarrow> fsys \<Rightarrow> int \<Rightarrow> int \<Rightarrow> multi_entry list \<Rightarrow> string list \<Rightarrow> goerror + multi_entry list" where
  "read_each p e fs limit sofar files [] = Inr files"
| "read_each p e fs limit sofar files (requested # rest) =
     (case read_one p e fs limit requested of
        Inl err \<Rightarrow> read_each p e fs limit sofar (files @ [EntryError requested err]) rest
      | Inr (path, b, trunc) \<Rightarrow>
        if sofar + int (length b) > max_combined_read_bytes then Inl (ErrMsg ''combined read exceeds 8MiB'')
        else (case encode_content b of (enc, content) \<Rightarrow>
                read_each p e fs limit (sofar + int (length b)) (files @ [EntryContent path trunc enc content]) rest))"

definition read_multiple_files ::
  "policy \<Rightarrow> env \<Rightarrow> fsys \<Rightarrow> (string list \<times> int) option \<Rightarrow> goerror + multi_entry list" where
  "read_multiple_files p e fs args =
     bindE (decode_args args) (\<lambda>(paths, maxBytes).
     bindE (ensure (\<not> (paths = [] \<or> length paths > 32)) (ErrMsg ''paths must contain 1 to 32 files'')) (\<lambda>_.
       read_each p e fs (byte_limit maxBytes) 0 [] paths))"

definition entry_type :: "node \<Rightarrow> string" where
  "entry_type nd =
     (case nd of Directory _ \<Rightarrow> ''directory'' | Link _ _ \<Rightarrow> ''symlink'' | File _ _ \<Rightarrow> ''file'' | Special _ \<Rightarrow> ''other'')"

definition meta_of :: "node \<Rightarrow> meta" where
  "meta_of nd = (case nd of File m _ \<Rightarrow> m | Directory m \<Rightarrow> m | Link m _ \<Rightarrow> m | Special m \<Rightarrow> m)"

definition size_of :: "env \<Rightarrow> loc \<Rightarrow> node \<Rightarrow> nat" where
  "size_of e q nd = (case nd of File _ d \<Rightarrow> length d | Link _ t \<Rightarrow> length t | _ \<Rightarrow> other_size e q)"

record dir_item =
  di_name :: string
  di_type :: string
  di_size :: nat
  di_modified_at :: time

definition list_directory ::
  "policy \<Rightarrow> env \<Rightarrow> fsys \<Rightarrow> string option \<Rightarrow> goerror + (string \<times> dir_item list \<times> bool)" where
  "list_directory p e fs args =
     bindE (decode_args args) (\<lambda>a.
     bindE (resolve_existing p fs a) (\<lambda>path.
     bindE (lift_os (walk fs True (max_links fs) [] (split_on CHR ''/'' path))) (\<lambda>(q, _).
     bindE (check_fault (open_fault e q)) (\<lambda>_.
     bindE (ensure (is_dir_at fs q) (ErrOS ENOTDIR)) (\<lambda>_.
       let names = children fs q;
           trunc = (int (length names) > max_list_items);
           shown = (if trunc then take_upto max_list_items names else names)
       in Inr (path,
               List.map_filter (\<lambda>c.
                 case (io_err fs (q @ [c]), nodes fs (q @ [c])) of
                   (None, Some nd) \<Rightarrow> Some \<lparr>di_name = c, di_type = entry_type nd, di_size = size_of e (q @ [c]) nd,
                                            di_modified_at = mtime (meta_of nd)\<rparr>
                 | _ \<Rightarrow> None) shown,
               trunc))))))"

definition get_file_info ::
  "policy \<Rightarrow> env \<Rightarrow> fsys \<Rightarrow> string option \<Rightarrow> goerror + (string \<times> string \<times> nat \<times> meta \<times> bool)" where
  "get_file_info p e fs args =
     bindE (decode_args args) (\<lambda>a.
     bindE (resolve_existing p fs a) (\<lambda>path.
     bindE (lift_os (stat fs path)) (\<lambda>st.
       Inr (path, path_base path, size_of e (comps path) st, meta_of st, is_directory st))))"

subsection \<open>Writing\<close>

text \<open>The name \<^verbatim>\<open>os.CreateTemp\<close> gives to the file.\<close>

definition tmp_name :: "string \<Rightarrow> string \<Rightarrow> string \<Rightarrow> string" where
  "tmp_name dir pre rnd =
     (if dir \<noteq> [] \<and> last dir = CHR ''/'' then dir @ pre @ rnd else dir @ ''/'' @ pre @ rnd)"

text \<open>The deferred function: the temporary file is removed unless all went well.\<close>

definition give_up :: "env \<Rightarrow> string \<Rightarrow> goerror \<Rightarrow> fsys list \<Rightarrow> (goerror + unit) \<times> fsys list" where
  "give_up e name err trace =
     (Inl err,
      trace @ [case remove_fault e of
                 Some _ \<Rightarrow> last trace
               | None \<Rightarrow> (case sys_remove (last trace) name of Inl _ \<Rightarrow> last trace | Inr fs \<Rightarrow> fs)])"

definition atomic_write ::
  "env \<Rightarrow> string \<Rightarrow> fsys \<Rightarrow> string \<Rightarrow> bytes \<Rightarrow> 32 word \<Rightarrow> (goerror + unit) \<times> fsys list" where
  "atomic_write e pre fs path data mode =
     (let name = tmp_name (path_dir path) pre (tmp_random e)
      in case (case create_fault e of Some err \<Rightarrow> Inl err | None \<Rightarrow> sys_create fs name \<lparr>perm = 0x180, mtime = now e\<rparr>) of
           Inl err \<Rightarrow> (Inl (ErrOS err), [fs])
         | Inr (q, fs1) \<Rightarrow>
           (case chmod_fault e of
              Some err \<Rightarrow> give_up e name (ErrOS err) [fs, fs1]
            | None \<Rightarrow>
              (let m = \<lparr>perm = mode, mtime = now e\<rparr>;
                   fs2 = with_node fs1 q (File m [])
               in case write_fault e of
                    Some (n, err) \<Rightarrow> give_up e name (ErrOS err) [fs, fs1, fs2, with_node fs2 q (File m (take n data))]
                  | None \<Rightarrow>
                    (let fs3 = with_node fs2 q (File m data);
                         fault = (case sync_fault e of Some err \<Rightarrow> Some err | None \<Rightarrow>
                                   (case close_fault e of Some err \<Rightarrow> Some err | None \<Rightarrow> rename_fault e))
                     in case fault of
                          Some err \<Rightarrow> give_up e name (ErrOS err) [fs, fs1, fs2, fs3]
                        | None \<Rightarrow>
                          (case os_rename fs3 name path of
                             Inl err \<Rightarrow> give_up e name (ErrOS err) [fs, fs1, fs2, fs3]
                           | Inr fs4 \<Rightarrow> (Inr (), [fs, fs1, fs2, fs3, fs4]))))))"

record write_args =
  wa_path :: string
  wa_content :: string
  wa_encoding :: string
  wa_mode :: "32 word"

definition file_mode :: "32 word \<Rightarrow> 32 word \<Rightarrow> 32 word" where
  "file_mode dflt m = (if m \<noteq> 0 then m AND 0x1FF else dflt)"

text \<open>The checks of \<^verbatim>\<open>writeFile\<close> before the temporary file is created.\<close>

definition write_checks ::
  "policy \<Rightarrow> fsys \<Rightarrow> write_args option \<Rightarrow> goerror + (string \<times> bytes \<times> 32 word)" where
  "write_checks p fs args =
     bindE (decode_args args) (\<lambda>a.
     bindE (resolve_for_create p fs (wa_path a)) (\<lambda>path.
     bindE (decode_content (wa_encoding a) (wa_content a)) (\<lambda>data.
     bindE (ensure (\<not> int (length data) > max_write_bytes) (ErrMsg ''write exceeds 4MiB'')) (\<lambda>_.
     bindE (resolve_existing p fs (path_dir path)) (\<lambda>_.
     bindE (case lstat fs path of
              Inr (Link _ _) \<Rightarrow> Inl (ErrMsg ''refusing to overwrite a symlink'')
            | Inr _ \<Rightarrow> Inr ()
            | Inl err \<Rightarrow> if err = ENOENT then Inr () else Inl (ErrOS err)) (\<lambda>_.
       Inr (path, data, file_mode 0x180 (wa_mode a))))))))"

definition write_file ::
  "policy \<Rightarrow> env \<Rightarrow> fsys \<Rightarrow> write_args option \<Rightarrow> (goerror + (string \<times> nat)) \<times> fsys list" where
  "write_file p e fs args =
     (case write_checks p fs args of
        Inl err \<Rightarrow> (Inl err, [fs])
      | Inr (path, data, mode) \<Rightarrow>
        (case atomic_write e ''.orc-write-'' fs path data mode of
           (Inl err, trace) \<Rightarrow> (Inl err, trace)
         | (Inr _, trace) \<Rightarrow> (Inr (path, length data), trace)))"

text \<open>\<^verbatim>\<open>bytes.Count\<close> and \<^verbatim>\<open>bytes.ReplaceAll\<close> for a non-empty pattern.\<close>

function count_seq :: "bytes \<Rightarrow> bytes \<Rightarrow> nat" where
  "count_seq old s =
     (if s = [] \<or> old = [] then 0
      else if prefix old s then Suc (count_seq old (drop (length old) s))
      else count_seq old (tl s))"
  by pat_completeness auto
termination
  by (relation "measure (\<lambda>(old, s). length s)") auto

function replace_seq :: "bytes \<Rightarrow> bytes \<Rightarrow> bytes \<Rightarrow> bytes" where
  "replace_seq old new s =
     (if s = [] \<or> old = [] then s
      else if prefix old s then new @ replace_seq old new (drop (length old) s)
      else hd s # replace_seq old new (tl s))"
  by pat_completeness auto
termination
  by (relation "measure (\<lambda>(old, new, s). length s)") auto

declare count_seq.simps [simp del] replace_seq.simps [simp del]

record edit_args =
  ea_file_path :: string
  ea_old_string :: string
  ea_new_string :: string
  ea_expected :: int

definition edit_checks ::
  "policy \<Rightarrow> env \<Rightarrow> fsys \<Rightarrow> edit_args option \<Rightarrow> goerror + (string \<times> bytes \<times> nat \<times> 32 word)" where
  "edit_checks p e fs args =
     bindE (decode_args args) (\<lambda>a.
     bindE (ensure (ea_old_string a \<noteq> []) (ErrMsg ''old_string cannot be empty'')) (\<lambda>_.
     let expected = (if ea_expected a = 0 then 1 else ea_expected a) in
     bindE (ensure (\<not> (expected < 1 \<or> expected > 1000)) (ErrMsg ''expected_replacements must be between 1 and 1000'')) (\<lambda>_.
     bindE (resolve_existing p fs (ea_file_path a)) (\<lambda>path.
     bindE (lift_os (lstat fs path)) (\<lambda>st.
     bindE (ensure (case st of Link _ _ \<Rightarrow> False | _ \<Rightarrow> True) (ErrMsg ''refusing to edit a symlink'')) (\<lambda>_.
     bindE (ensure (\<not> is_directory st) (ErrMsg ''path is a directory'')) (\<lambda>_.
     bindE (ensure (\<not> int (size_of e (comps path) st) > max_write_bytes) (ErrMsg ''file exceeds 4MiB edit limit'')) (\<lambda>_.
     bindE (open_read e fs path) (\<lambda>data.
     bindE (ensure (utf8_valid data) (ErrMsg ''edit_block supports UTF-8 text files only'')) (\<lambda>_.
     let old = bytes_of_string (ea_old_string a); count = count_seq old data in
     bindE (ensure (int count = expected)
              (ErrMsg (''replacement count mismatch: found '' @ show_nat count @ '', expected '' @ show_int expected))) (\<lambda>_.
     let newData = replace_seq old (bytes_of_string (ea_new_string a)) data in
     bindE (ensure (\<not> int (length newData) > max_write_bytes) (ErrMsg ''edited file would exceed 4MiB'')) (\<lambda>_.
       Inr (path, newData, count, perm (meta_of st) AND 0x1FF)))))))))))))"

definition edit_block ::
  "policy \<Rightarrow> env \<Rightarrow> fsys \<Rightarrow> edit_args option \<Rightarrow> (goerror + (string \<times> nat \<times> nat)) \<times> fsys list" where
  "edit_block p e fs args =
     (case edit_checks p e fs args of
        Inl err \<Rightarrow> (Inl err, [fs])
      | Inr (path, newData, count, mode) \<Rightarrow>
        (case atomic_write e ''.orc-edit-'' fs path newData mode of
           (Inl err, trace) \<Rightarrow> (Inl err, trace)
         | (Inr _, trace) \<Rightarrow> (Inr (path, count, length newData), trace)))"

definition create_directory ::
  "policy \<Rightarrow> env \<Rightarrow> fsys \<Rightarrow> (string \<times> 32 word) option \<Rightarrow> (goerror + string) \<times> fsys list" where
  "create_directory p e fs args =
     (case bindE (decode_args args) (\<lambda>(path, m). bindE (resolve_for_create p fs path) (\<lambda>r. Inr (r, m))) of
        Inl err \<Rightarrow> (Inl err, [fs])
      | Inr (path, m) \<Rightarrow>
        (case mkdir_all fs \<lparr>perm = file_mode 0x1E8 m, mtime = now e\<rparr> (comps path) of
           (Inl err, trace) \<Rightarrow> (Inl (ErrOS err), trace)
         | (Inr _, trace) \<Rightarrow> (Inr path, trace)))"

record move_args =
  ma_source :: string
  ma_destination :: string
  ma_overwrite :: bool

definition move_checks :: "policy \<Rightarrow> fsys \<Rightarrow> move_args option \<Rightarrow> goerror + (string \<times> string)" where
  "move_checks p fs args =
     bindE (decode_args args) (\<lambda>a.
     bindE (resolve_existing p fs (ma_source a)) (\<lambda>src.
     bindE (resolve_for_create p fs (ma_destination a)) (\<lambda>dst.
     bindE (case lstat fs dst of
              Inr (Link _ _) \<Rightarrow> Inl (ErrMsg ''refusing to replace symlink'')
            | Inr _ \<Rightarrow> ensure (ma_overwrite a) (ErrMsg ''destination exists; set overwrite=true to replace it'')
            | Inl err \<Rightarrow> if err = ENOENT then Inr () else Inl (ErrOS err)) (\<lambda>_.
       Inr (src, dst)))))"

definition move_file ::
  "policy \<Rightarrow> env \<Rightarrow> fsys \<Rightarrow> move_args option \<Rightarrow> (goerror + (string \<times> string)) \<times> fsys list" where
  "move_file p e fs args =
     (case move_checks p fs args of
        Inl err \<Rightarrow> (Inl err, [fs])
      | Inr (src, dst) \<Rightarrow>
        (case (case rename_fault e of Some err \<Rightarrow> Inl err | None \<Rightarrow> os_rename fs src dst) of
           Inl err \<Rightarrow> (Inl (ErrOS err), [fs])
         | Inr fs' \<Rightarrow> (Inr (src, dst), [fs, fs'])))"

end
