(* ===== verification/AtomicWrite.thy ===== *)
theory AtomicWrite
  imports FileTools
begin

text \<open>
  The two ways in which the tools change the file system, system call by system call: the write of
  a file through a temporary file that is renamed over the target (\<^verbatim>\<open>writeFile\<close> and \<^verbatim>\<open>atomicWrite\<close> of
  \<^verbatim>\<open>internal/executor/executor.go\<close>), and \<^verbatim>\<open>os.MkdirAll\<close>.
\<close>

section \<open>Writing through a temporary file\<close>

text \<open>
  \<open>same_os fs s\<close>: \<open>s\<close> is a later state of the same machine. While a write is going on the only
  difference is the temporary file at \<open>t\<close>.
\<close>

definition same_os :: "fsys \<Rightarrow> fsys \<Rightarrow> bool" where
  "same_os fs s \<longleftrightarrow> io_err s = io_err fs \<and> cwd s = cwd fs \<and> max_links s = max_links fs"

definition tmp_state :: "fsys \<Rightarrow> loc \<Rightarrow> fsys \<Rightarrow> bool" where
  "tmp_state fs t s \<longleftrightarrow> same_os fs s \<and> (\<exists>m d. nodes s = (nodes fs)(t \<mapsto> File m d))"

lemma same_os_refl [simp]: "same_os fs fs"
  by (simp add: same_os_def)

lemma same_os_trans: "same_os a b \<Longrightarrow> same_os b c \<Longrightarrow> same_os a c"
  by (simp add: same_os_def)

lemma same_os_ops [simp]:
  "same_os fs (with_node s q nd) = same_os fs s" "same_os fs (without_node s q) = same_os fs s"
  "same_os fs (move_tree s a b) = same_os fs s"
  by (simp_all add: same_os_def)

lemma tmp_state_with:
  "same_os fs s \<Longrightarrow> nodes s = nodes fs \<or> tmp_state fs t s \<Longrightarrow> tmp_state fs t (with_node s t (File m d))"
  unfolding tmp_state_def by auto blast+

lemma below_leaf: "wf_fs fs \<Longrightarrow> \<not> is_dir_at fs p \<Longrightarrow> nodes fs (p @ x # xs) = None"
  using wf_prefix_dir [of fs p "x # xs"] by (cases "nodes fs (p @ x # xs)") auto

lemma clear_same_os: "same_os fs s \<Longrightarrow> clear s = clear fs"
  by (simp add: same_os_def clear_def fun_eq_iff)

lemma wf_same_nodes: "wf_fs fs \<Longrightarrow> same_os fs s \<Longrightarrow> nodes s = nodes fs \<Longrightarrow> wf_fs s"
  by (simp add: wf_fs_def same_os_def is_dir_at_def)

lemma link_free_same_nodes: "nodes s = nodes fs \<Longrightarrow> link_free s q = link_free fs q"
  by (simp add: link_free_iff is_link_at_def)

text \<open>The facts about the place of a temporary file that every step relies on.\<close>

definition tmp_slot :: "fsys \<Rightarrow> loc \<Rightarrow> bool" where
  "tmp_slot fs t \<longleftrightarrow> wf_fs fs \<and> canonical t \<and> t \<noteq> [] \<and> link_free fs (butlast t) \<and>
     is_dir_at fs (butlast t) \<and> clear fs t \<and> nodes fs t = None"

lemma tmp_slot_state:
  assumes "tmp_slot fs t" and "tmp_state fs t s"
  shows "wf_fs s" "dir_entry s (path_of t) = Inr t" "\<not> is_dir_at s t"
    "\<And>q. link_free fs q \<Longrightarrow> link_free s q"
proof -
  obtain m d where n: "nodes s = (nodes fs)(t \<mapsto> File m d)" and os: "same_os fs s"
    using assms(2) by (auto simp: tmp_state_def)
  let ?w = "with_node fs t (File m d)"
  have t: "t = butlast t @ [last t]" and ok: "name_ok (last t)" and par: "butlast t \<noteq> t"
    using assms(1) by (auto simp: tmp_slot_def canonical_def list_all_iff) (metis append_butlast_last_id not_Cons_self2 self_append_conv)
  have none: "nodes fs t = None" and wf: "wf_fs fs" and d: "is_dir_at fs (butlast t)"
    using assms(1) by (simp_all add: tmp_slot_def)
  have "wf_fs (with_node fs (butlast t @ [last t]) (File m d))"
    using t none by (intro wf_with [OF wf d ok]) (simp add: is_dir_at_def)
  then have w: "wf_fs ?w" using t by simp
  have nw: "nodes s = nodes ?w" and osw: "same_os ?w s"
    using n os by (simp_all add: same_os_def)
  show "wf_fs s" by (rule wf_same_nodes [OF w osw nw])
  show lf: "link_free s q" if "link_free fs q" for q
    using link_free_with [OF that, of "File m d" t] by (simp add: link_free_same_nodes [OF nw])
  show "\<not> is_dir_at s t" using n by (simp add: is_dir_at_def)
  have "is_dir_at s (butlast t)" using d par n by (simp add: is_dir_at_def)
  then show "dir_entry s (path_of t) = Inr t"
    using assms(1) lf clear_same_os [OF os] by (subst dir_entry_iff [OF \<open>wf_fs s\<close>]) (auto simp: tmp_slot_def)
qed

lemma sys_create_slot:
  assumes "wf_fs fs" and "canonical t" and "link_free fs (butlast t)" and "sys_create fs (path_of t) m = Inr (q, s)"
  shows "q = t" "s = with_node fs t (File m [])" "tmp_slot fs t"
proof -
  from assms(4) have e: "dir_entry fs (path_of t) = Inr q" and n: "nodes fs q = None" and s: "s = with_node fs q (File m [])"
    by (auto simp: sys_create_def err_simps split: if_splits)
  note l = dir_entry_link_free [OF e assms(2,3)]
  show "q = t" "s = with_node fs t (File m [])" using l s by simp_all
  have "dir_entry fs (path_of t) = Inr t" using e l by simp
  then show "tmp_slot fs t"
    using assms l n by (simp add: tmp_slot_def dir_entry_iff)
qed

lemma sys_remove_slot:
  assumes "tmp_slot fs t" and "tmp_state fs t s"
  obtains s' where "sys_remove s (path_of t) = Inr s'" "nodes s' = nodes fs" "same_os fs s'"
proof
  show "sys_remove s (path_of t) = Inr (without_node s t)"
    using tmp_slot_state [OF assms] assms(2) by (auto simp: sys_remove_def err_simps tmp_state_def)
  show "nodes (without_node s t) = nodes fs" "same_os fs (without_node s t)"
    using assms by (auto simp: tmp_state_def tmp_slot_def fun_eq_iff)
qed

text \<open>The rename that publishes the file: the target gets the new content, the temporary name is free again.\<close>

lemma os_rename_slot:
  assumes "tmp_slot fs t" and "same_os fs s" and "nodes s = (nodes fs)(t \<mapsto> File m d)"
    and "canonical cs" and "link_free fs (butlast cs)" and "os_rename s (path_of t) (path_of cs) = Inr s'"
  shows "nodes s' = (nodes fs)(cs \<mapsto> File m d)" "same_os fs s'" "\<not> is_dir_at fs cs" "clear fs cs"
proof -
  have st: "tmp_state fs t s" using assms(2,3) by (auto simp: tmp_state_def)
  note S = tmp_slot_state [OF assms(1) st]
  have none: "nodes fs t = None" and wf: "wf_fs fs" using assms(1) by (simp_all add: tmp_slot_def)
  have goal: "nodes s' = (nodes fs)(cs \<mapsto> File m d) \<and> same_os fs s' \<and> \<not> is_dir_at fs cs"
    using os_renameD [OF assms(6)]
  proof (cases rule: sys_rename_cases)
    case (same a)
    then have "a = t" "a = cs"
      using S(2) dir_entry_link_free(1) [OF _ assms(4) S(4) [OF assms(5)]] by simp_all
    with same none assms(2,3) show ?thesis by (simp add: is_dir_at_def)
  next
    case (moved a b)
    then have ab: "a = t" "b = cs"
      using S(2) dir_entry_link_free(1) [OF _ assms(4) S(4) [OF assms(5)]] by simp_all
    note mv = moved [unfolded ab]
    have nd: "\<not> is_dir_at fs cs"
      using mv(4,7) S(3) assms(3) by (auto simp: is_dir_at_def split: if_splits)
    have below: "nodes s (t @ x # xs) = None" "nodes fs (t @ x # xs) = None" "nodes fs (cs @ x # xs) = None" for x xs
      using S(1,3) wf nd none by (simp_all add: below_leaf is_dir_at_def [of fs t])
    have "nodes s' q = ((nodes fs)(cs \<mapsto> File m d)) q" for q
    proof (cases "prefix cs q")
      case True
      then obtain zs where q: "q = cs @ zs" by (auto simp: prefix_def)
      with mv(4,6) below assms(3) show ?thesis by (cases zs) (auto simp: nodes_move)
    next
      case False
      then have "q \<noteq> cs" by auto
      show ?thesis
      proof (cases "prefix t q")
        case True
        then obtain zs where q: "q = t @ zs" by (auto simp: prefix_def)
        with False \<open>q \<noteq> cs\<close> mv(4,6) below none show ?thesis by (cases zs) (auto simp: nodes_move)
      next
        case False
        then have "q \<noteq> t" by auto
        with False \<open>\<not> prefix cs q\<close> \<open>q \<noteq> cs\<close> mv(4,6) assms(3) show ?thesis by (simp add: nodes_move)
      qed
    qed
    with nd mv(6) assms(2) show ?thesis by auto
  qed
  then show "nodes s' = (nodes fs)(cs \<mapsto> File m d)" "same_os fs s'" "\<not> is_dir_at fs cs" by blast+
  obtain b where b: "dir_entry s (path_of cs) = Inr b"
    using os_renameD [OF assms(6)] by (cases rule: sys_rename_cases)
  note dir_entry_link_free [OF b assms(4) S(4) [OF assms(5)]]
  with b show "clear fs cs"
    using dir_entry_iff [OF S(1) assms(4) _ S(4) [OF assms(5)]] clear_same_os [OF assms(2)] by simp
qed

lemma tmp_name_path_of:
  "canonical ds \<Longrightarrow> tmp_name (path_of ds) pre rnd = path_of (ds @ [pre @ rnd])"
proof (cases ds rule: rev_cases)
  case (snoc cs c)
  moreover assume "canonical ds"
  ultimately have "last (path_of ds) \<noteq> CHR ''/''"
    by (auto simp: path_of_snoc name_ok_def dest: last_in_set)
  moreover have "ds \<noteq> []" using snoc by simp
  ultimately show ?thesis by (simp add: tmp_name_def path_of_snoc)
qed (simp add: tmp_name_def path_of_def)

lemma name_ok_tmp:
  "CHR ''/'' \<notin> set rnd \<Longrightarrow> name_ok (''.orc-write-'' @ rnd)" "CHR ''/'' \<notin> set rnd \<Longrightarrow> name_ok (''.orc-edit-'' @ rnd)"
  by (auto simp: name_ok_def)

text \<open>How a write ends: before anything is created, after an error with the temporary file gone (or left, when it cannot be removed), or with the file in place.\<close>

definition unwound :: "env \<Rightarrow> fsys \<Rightarrow> loc \<Rightarrow> fsys \<Rightarrow> bool" where
  "unwound e fs t s \<longleftrightarrow> same_os fs s \<and> (if remove_fault e = None then nodes s = nodes fs else tmp_state fs t s)"

lemma give_up_unwound:
  assumes "tmp_slot fs t" and "tmp_state fs t (last tr)" and "give_up e (path_of t) err tr = (r, trace)"
  shows "\<exists>s. r = Inl err \<and> trace = tr @ [s] \<and> unwound e fs t s"
proof -
  obtain s' where s': "sys_remove (last tr) (path_of t) = Inr s'" "nodes s' = nodes fs" "same_os fs s'"
    by (rule sys_remove_slot [OF assms(1,2)])
  with assms(2,3) show ?thesis
    by (cases "remove_fault e") (auto simp: give_up_def unwound_def tmp_state_def)
qed

lemma tmp_state_node: "tmp_state fs t s \<Longrightarrow> tmp_state fs t (with_node s t (File m d))"
  unfolding tmp_state_def by (elim exE conjE, intro conjI exI [of _ m] exI [of _ d]) simp_all

text \<open>The runs of \<^verbatim>\<open>atomicWrite\<close>: no temporary file, a failure after it was created, or all steps.\<close>

lemma atomic_write_run:
  assumes "atomic_write e pre fs path data mode = (r, trace)"
  defines "name \<equiv> tmp_name (path_dir path) pre (tmp_random e)" and "m \<equiv> \<lparr>perm = mode, mtime = now e\<rparr>"
  obtains (refused) err where "r = Inl err" "trace = [fs]"
  | (gave_up) q fs1 err mid where "sys_create fs name \<lparr>perm = 0x180, mtime = now e\<rparr> = Inr (q, fs1)" "give_up e name err (fs # mid) = (r, trace)"
      "mid = [fs1] \<or> (\<exists>n. mid = [fs1, with_node fs1 q (File m []), with_node (with_node fs1 q (File m [])) q (File m (take n data))])
        \<or> mid = [fs1, with_node fs1 q (File m []), with_node (with_node fs1 q (File m [])) q (File m data)]"
  | (complete) q fs1 s where "sys_create fs name \<lparr>perm = 0x180, mtime = now e\<rparr> = Inr (q, fs1)" "r = Inr ()"
      "trace = fs # [fs1, with_node fs1 q (File m []), with_node (with_node fs1 q (File m [])) q (File m data)] @ [s]"
      "os_rename (with_node (with_node fs1 q (File m [])) q (File m data)) name path = Inr s"
proof -
  let ?made = "case create_fault e of Some err \<Rightarrow> Inl err | None \<Rightarrow> sys_create fs name \<lparr>perm = 0x180, mtime = now e\<rparr>"
  note run = assms(1) [unfolded atomic_write_def Let_def, folded name_def m_def]
  show thesis
  proof (cases ?made)
    case (Inl err)
    with run show thesis by (intro refused) auto
  next
    case (Inr qs)
    then obtain q fs1 where qs: "?made = Inr (q, fs1)" by (cases qs) auto
    then have "sys_create fs name \<lparr>perm = 0x180, mtime = now e\<rparr> = Inr (q, fs1)" by (auto split: option.splits)
    note gave_up = gave_up [OF this] and complete = complete [OF this]
    from run qs show thesis
      by (auto split: option.splits sum.splits prod.splits intro: complete gave_up [of _ "[fs1]"]
          gave_up [of _ "[fs1, with_node fs1 q (File m []), with_node (with_node fs1 q (File m [])) q (File m (take n data))]" for n]
          gave_up [of _ "[fs1, with_node fs1 q (File m []), with_node (with_node fs1 q (File m [])) q (File m data)]"])
  qed
qed

lemma atomic_write_cases:
  assumes wf: "wf_fs fs" and cs: "canonical cs" "link_free fs (butlast cs)"
    and c: "name_ok (pre @ tmp_random e)" and t: "t = butlast cs @ [pre @ tmp_random e]"
    and run: "atomic_write e pre fs (path_of cs) data mode = (r, trace)"
  obtains (refused) err where "r = Inl err" "trace = [fs]"
  | (failed) err mid s where "r = Inl err" "trace = fs # mid @ [s]" "tmp_slot fs t"
      "\<forall>s\<in>set mid. tmp_state fs t s" "unwound e fs t s"
  | (complete) mid s where "r = Inr ()" "trace = fs # mid @ [s]" "tmp_slot fs t"
      "\<forall>s\<in>set mid. tmp_state fs t s" "same_os fs s" "wf_fs s" "\<not> is_dir_at fs cs" "clear fs cs"
      "nodes s = (nodes fs)(cs \<mapsto> File \<lparr>perm = mode, mtime = now e\<rparr> data)"
proof -
  have ct: "canonical t" and bt: "butlast t = butlast cs"
    using cs c t by (auto simp: canonical_butlast)
  have name: "tmp_name (path_dir (path_of cs)) pre (tmp_random e) = path_of t"
    using cs t by (simp add: tmp_name_path_of canonical_butlast)
  define m where "m = \<lparr>perm = mode, mtime = now e\<rparr>"
  from run show thesis
  proof (cases rule: atomic_write_run)
    case (refused err)
    then show thesis by (rule that(1))
  next
    case (gave_up q fs1 err mid)
    note g = gave_up [unfolded name]
    note made = sys_create_slot [OF wf ct _ g(1), unfolded bt, OF cs(2)]
    have "tmp_state fs t fs1" using made(2) by (auto simp: tmp_state_def)
    then have "\<forall>s\<in>set mid. tmp_state fs t s" "mid \<noteq> []" using g(3) made(1) tmp_state_node by auto
    then show thesis using give_up_unwound [OF made(3) _ g(2)] failed [of err mid] made(3) by auto
  next
    case (complete q fs1 s)
    note d = complete [unfolded name, folded m_def]
    note made = sys_create_slot [OF wf ct _ d(1), unfolded bt, OF cs(2)]
    let ?s2 = "with_node fs1 t (File m [])" and ?s3 = "with_node (with_node fs1 t (File m [])) t (File m data)"
    have "tmp_state fs t fs1" using made(2) by (auto simp: tmp_state_def)
    then have T: "\<forall>s\<in>set [fs1, ?s2, ?s3]. tmp_state fs t s" using tmp_state_node by auto
    have n3: "nodes ?s3 = (nodes fs)(t \<mapsto> File m data)" "same_os fs ?s3" using made(2) by simp_all
    note ren = d(4) [unfolded made(1)]
    note R = os_rename_slot [OF made(3) n3(2,1) cs(1,2) ren]
    have "wf_fs s" using sys_rename_wf [OF tmp_slot_state(1) [OF made(3)] os_renameD [OF ren]] T by simp
    with R T made(3) d(2) d(3) [unfolded made(1)] show thesis by (intro that(3) [of "[fs1, ?s2, ?s3]" s]) (auto simp: m_def)
  qed
qed

lemma stat_link_free:
  assumes "canonical cs" and "link_free fs cs"
  shows "stat fs (path_of cs) = Inr nd \<Longrightarrow> nodes fs cs = Some nd" "lstat fs (path_of cs) = Inr nd \<Longrightarrow> nodes fs cs = Some nd"
proof -
  have "q = cs" if "walk fs fol n [] cs = Inr (q, k)" for fol n q k
    using walk_link_free [OF that assms(1)] assms(2) by simp
  then show "stat fs (path_of cs) = Inr nd \<Longrightarrow> nodes fs cs = Some nd" "lstat fs (path_of cs) = Inr nd \<Longrightarrow> nodes fs cs = Some nd"
    using assms(1) by (fastforce simp: stat_def lstat_def err_simps walk_root_path node_at_def split: option.splits)+
qed

section \<open>Making directories\<close>

text \<open>\<open>grown m cs fs s\<close>: new directories on the way to \<open>cs\<close> are all that \<open>s\<close> adds.\<close>

definition grown :: "meta \<Rightarrow> loc \<Rightarrow> fsys \<Rightarrow> fsys \<Rightarrow> bool" where
  "grown m cs fs s \<longleftrightarrow> wf_fs s \<and> same_os fs s \<and>
     (\<forall>q. nodes s q = nodes fs q \<or> nodes fs q = None \<and> prefix q cs \<and> nodes s q = Some (Directory m))"

lemma grown_refl: "wf_fs fs \<Longrightarrow> grown m cs fs fs"
  by (simp add: grown_def)

lemma grown_link_free: "grown m cs fs s \<Longrightarrow> link_free fs q \<Longrightarrow> link_free s q"
  unfolding grown_def link_free_iff is_link_at_def by (auto split: option.splits node.splits) (metis node.distinct option.inject option.discI)

lemma grown_longer: "grown m (butlast cs) fs s \<Longrightarrow> grown m cs fs s"
  unfolding grown_def using prefix_order.trans [OF _ prefixeq_butlast] by blast

lemma sys_mkdir_grown:
  assumes "grown m cs fs s" and "canonical cs" and "link_free fs cs" and "sys_mkdir s (path_of cs) m = Inr s'"
  shows "grown m cs fs s'" "is_dir_at s' cs"
proof -
  have "dir_entry s (path_of cs) = Inr cs" "nodes s cs = None" "s' = with_node s cs (Directory m)"
    using assms(4) dir_entry_link_free(1) [OF _ assms(2) link_free_butlast [OF grown_link_free [OF assms(1,3)]]]
    by (auto simp: sys_mkdir_def err_simps split: if_splits)
  moreover from this have "nodes fs cs = None"
    using assms(1) unfolding grown_def by (metis option.discI)
  ultimately show "grown m cs fs s'" "is_dir_at s' cs"
    using assms(1) sys_mkdir_wf [OF _ assms(4)] by (auto simp: grown_def)
qed

text \<open>The last directory: it is made, or it is there already.\<close>

lemma mkdir_last_grown:
  assumes "canonical cs" and "link_free fs cs" and "tr \<noteq> []" "\<forall>s\<in>set tr. grown m cs fs s"
    and "(case sys_mkdir (last tr) (path_of cs) m of
        Inr fs' \<Rightarrow> (Inr (), tr @ [fs'])
      | Inl e \<Rightarrow> (case lstat (last tr) (path_of cs) of Inr (Directory _) \<Rightarrow> (Inr (), tr) | _ \<Rightarrow> (Inl e, tr))) = (r, tr')"
  shows "tr' \<noteq> [] \<and> hd tr' = hd tr \<and> (\<forall>s\<in>set tr'. grown m cs fs s) \<and> (r = Inr () \<longrightarrow> is_dir_at (last tr') cs)"
proof (cases "sys_mkdir (last tr) (path_of cs) m")
  case (Inr s')
  with assms(3-5) sys_mkdir_grown [OF _ assms(1,2) Inr] show ?thesis by auto
next
  case (Inl e)
  have G: "grown m cs fs (last tr)" using assms(3,4) by simp
  have "is_dir_at (last tr) cs" if "lstat (last tr) (path_of cs) = Inr (Directory m')" for m'
    using stat_link_free(2) [OF assms(1) grown_link_free [OF G assms(2)] that] by (simp add: is_dir_at_def)
  with assms(3-5) Inl show ?thesis by (auto split: sum.splits node.splits)
qed

lemma mkdir_all_grown:
  assumes "wf_fs fs" and "canonical cs" and "link_free fs cs" and "mkdir_all fs m cs = (r, tr)"
  shows "tr \<noteq> [] \<and> hd tr = fs \<and> (\<forall>s\<in>set tr. grown m cs fs s) \<and> (r = Inr () \<longrightarrow> is_dir_at (last tr) cs)"
  using assms
proof (induction fs m cs arbitrary: r tr rule: mkdir_all.induct)
  case (1 fs m cs)
  note prems = "1.prems"
  have stay: ?case if "tr = [fs]" "r = Inr () \<Longrightarrow> is_dir_at fs cs"
    using that grown_refl [OF prems(1)] by simp
  show ?case
  proof (cases "stat fs (path_of cs)")
    case (Inr nd)
    have "is_dir_at fs cs" if "nd = Directory m'" for m'
      using stat_link_free(1) [OF prems(2,3) Inr] that by (simp add: is_dir_at_def)
    moreover have "tr = [fs] \<and> (r = Inr () \<longrightarrow> is_directory nd)"
      using Inr prems(4) by (auto simp: mkdir_all.simps [of fs m cs] is_directory_def split: node.splits)
    ultimately show ?thesis
      by (intro stay) (auto simp: is_directory_def split: node.splits)
  next
    case (Inl e)
    show ?thesis
    proof (cases "cs = []")
      case True
      with Inl prems(4) show ?thesis by (intro stay) (auto simp: mkdir_all.simps)
    next
      case False
      obtain r1 tr1 where run: "mkdir_all fs m (butlast cs) = (r1, tr1)" by fastforce
      note IH = "1.IH" [OF Inl False prems(1) canonical_butlast [OF prems(2)] link_free_butlast [OF prems(3)] run]
      then have G: "\<forall>s\<in>set tr1. grown m cs fs s" by (auto intro: grown_longer)
      show ?thesis
      proof (cases r1)
        case Inl1: (Inl e1)
        have "r = r1" "tr = tr1" using prems(4) Inl False run Inl1 by (simp_all add: mkdir_all.simps [of fs m cs])
        with IH G Inl1 show ?thesis by auto
      next
        case (Inr u)
        with prems(4) Inl False run IH G mkdir_last_grown [OF prems(2,3), of tr1 m r tr] show ?thesis
          by (simp add: mkdir_all.simps [of fs m cs])
      qed
    qed
  qed
qed

end
