(* ===== verification/FileEffects.thy ===== *)
theory FileEffects
  imports AtomicWrite
begin

text \<open>
  What the tools of \<^verbatim>\<open>internal/executor/executor.go\<close> that change the file system do to it:
  every state they go through is well-formed and differs from the first one under the allowed roots
  only, a written file appears complete or not at all, and a failed write leaves nothing behind.
\<close>

section \<open>The tools\<close>

subsection \<open>The calls a client can make\<close>

datatype change =
    WriteFile "write_args option"
  | EditBlock "edit_args option"
  | CreateDirectory "(string \<times> 32 word) option"
  | MoveFile "move_args option"

definition change_trace :: "policy \<Rightarrow> env \<Rightarrow> fsys \<Rightarrow> change \<Rightarrow> fsys list" where
  "change_trace p e fs c =
     (case c of
        WriteFile a \<Rightarrow> snd (write_file p e fs a)
      | EditBlock a \<Rightarrow> snd (edit_block p e fs a)
      | CreateDirectory a \<Rightarrow> snd (create_directory p e fs a)
      | MoveFile a \<Rightarrow> snd (move_file p e fs a))"

text \<open>A call of \<^verbatim>\<open>move_file\<close> that moves an allowed root, or a directory with one in it.\<close>

definition moves_root :: "policy \<Rightarrow> fsys \<Rightarrow> change \<Rightarrow> bool" where
  "moves_root p fs c =
     (case c of
        MoveFile a \<Rightarrow> (case move_checks p fs a of
                          Inl _ \<Rightarrow> False
                        | Inr (src, dst) \<Rightarrow> list_ex (\<lambda>r. prefix (comps src) (comps r)) (roots p))
      | _ \<Rightarrow> False)"

text \<open>The allowed roots are directories, as \<^verbatim>\<open>pathpolicy.New\<close> requires.\<close>

definition roots_stand :: "policy \<Rightarrow> fsys \<Rightarrow> bool" where
  "roots_stand p fs = list_all (\<lambda>r. is_dir_at fs (comps r)) (roots p)"

text \<open>What may have happened to a file system: only locations inside the policy differ.\<close>

definition only_inside :: "policy \<Rightarrow> fsys \<Rightarrow> fsys \<Rightarrow> bool" where
  "only_inside p fs s \<longleftrightarrow> wf_fs s \<and> same_os fs s \<and> (\<forall>q. \<not> inside p q \<longrightarrow> nodes s q = nodes fs q)"

lemma only_inside_refl: "wf_fs fs \<Longrightarrow> only_inside p fs fs"
  by (simp add: only_inside_def)

lemma only_inside_trans: "only_inside p a b \<Longrightarrow> only_inside p b c \<Longrightarrow> only_inside p a c"
  by (auto simp: only_inside_def intro: same_os_trans)

lemma inside_iff: "inside p q \<longleftrightarrow> (\<exists>r\<in>set (roots p). prefix (comps r) q)"
  by (simp add: inside_def list_ex_iff)

lemma roots_stand_iff: "roots_stand p fs \<longleftrightarrow> (\<forall>r\<in>set (roots p). is_dir_at fs (comps r))"
  by (simp add: roots_stand_def list_all_iff)

text \<open>A location inside that is no directory is not a root, so its parent is inside as well.\<close>

lemma inside_butlast:
  assumes "roots_stand p fs" and "inside p cs" and "\<not> is_dir_at fs cs"
  shows "inside p (butlast cs)" "cs \<noteq> []"
proof -
  obtain r where r: "r \<in> set (roots p)" "prefix (comps r) cs" "comps r \<noteq> cs"
    using assms by (auto simp: inside_iff roots_stand_iff)
  then obtain x zs where "cs = comps r @ zs @ [x]"
    by (auto simp: prefix_def) (metis append.right_neutral rev_exhaust)
  with r show "inside p (butlast cs)" "cs \<noteq> []"
    by (auto simp: inside_iff butlast_append intro!: bexI [of _ r])
qed

subsection \<open>Writing and editing\<close>

text \<open>The invariant of every state of a call: confined changes, and the roots still stand.\<close>

definition good_state :: "policy \<Rightarrow> fsys \<Rightarrow> fsys \<Rightarrow> bool" where
  "good_state p fs s \<longleftrightarrow> only_inside p fs s \<and> roots_stand p s"

lemma good_state_refl: "wf_fs fs \<Longrightarrow> roots_stand p fs \<Longrightarrow> good_state p fs fs"
  by (simp add: good_state_def only_inside_refl)

lemma good_file:
  assumes "wf_fs s" and "same_os fs s" and "nodes s = (nodes fs)(t \<mapsto> File m d)"
    and "inside p t" and "\<not> is_dir_at fs t" and "roots_stand p fs"
  shows "good_state p fs s"
proof -
  have "is_dir_at s q \<longleftrightarrow> is_dir_at fs q" for q
    using assms(3,5) by (auto simp: is_dir_at_def)
  with assms show ?thesis by (auto simp: good_state_def only_inside_def roots_stand_iff)
qed

lemma good_same_nodes:
  "wf_fs fs \<Longrightarrow> same_os fs s \<Longrightarrow> nodes s = nodes fs \<Longrightarrow> roots_stand p fs \<Longrightarrow> good_state p fs s"
  using wf_same_nodes by (auto simp: good_state_def only_inside_def roots_stand_iff is_dir_at_def)

lemma atomic_write_good:
  assumes "wf_fs fs" and "roots_stand p fs" and "canonical cs" and "link_free fs cs"
    and "inside p cs" and "inside p (butlast cs)" and "name_ok (pre @ tmp_random e)"
    and run: "atomic_write e pre fs (path_of cs) data mode = (r, trace)"
  shows "trace \<noteq> [] \<and> hd trace = fs \<and> (\<forall>s\<in>set trace. good_state p fs s)"
proof -
  define t where "t = butlast cs @ [pre @ tmp_random e]"
  have tin: "inside p t" using inside_append [OF assms(6)] by (simp add: t_def)
  have fs: "good_state p fs fs" by (rule good_state_refl [OF assms(1,2)])
  have tmp: "good_state p fs s" if "tmp_slot fs t" "tmp_state fs t s" for s
    using that tmp_slot_state(1) [OF that] tin assms(2) good_file [of s fs t]
    by (auto simp: tmp_state_def tmp_slot_def is_dir_at_def)
  show ?thesis
    using assms(1,3) link_free_butlast [OF assms(4)] assms(7) t_def run
  proof (cases rule: atomic_write_cases)
    case refused
    with fs show ?thesis by simp
  next
    case (failed err mid s)
    then have "good_state p fs s"
      using tmp good_same_nodes [OF assms(1) _ _ assms(2)] by (auto simp: unwound_def split: if_splits)
    with failed fs tmp show ?thesis by auto
  next
    case (complete mid s)
    then have "good_state p fs s"
      using assms(2,5) by (intro good_file) auto
    with complete fs tmp show ?thesis by auto
  qed
qed

lemma resolve_link_free:
  assumes "wf_fs fs" and "canonical ds" and "link_free fs ds" and "resolve_existing p fs (path_of ds) = Inr r"
  shows "r = path_of ds"
proof -
  obtain q k where q: "walk fs True 255 [] ds = Inr (q, k)" "r = clean (path_of q)"
    using assms(2,4)
    by (auto simp: resolve_existing_def abs_path_def eval_symlinks_def walk_root_path Let_def err_simps split: if_splits sum.splits)
  then have "q = ds" using walk_link_free [OF q(1) assms(2)] assms(3) by simp
  with q assms(2) show ?thesis by simp
qed

lemma lift_os_Inr [err_simps]: "lift_os r = Inr x \<longleftrightarrow> r = Inr x"
  by (simp add: lift_os_def split: sum.splits)

lemma decode_args_Inr [err_simps]: "decode_args a = Inr x \<longleftrightarrow> a = Some x"
  by (simp add: decode_args_def split: option.splits)

lemma write_checks_place:
  assumes "wf_fs fs" and "policy_ok p" and "write_checks p fs a = Inr (path, data, mode)"
  obtains cs where "path = path_of cs" "canonical cs" "link_free fs cs" "inside p cs" "inside p (butlast cs)"
proof -
  from assms(3) obtain x r' where x: "resolve_for_create p fs x = Inr path" "resolve_existing p fs (path_dir path) = Inr r'"
    by (auto simp: write_checks_def err_simps)
  note C = create.resolved_comps [OF assms(1,2) x(1)]
  have d: "path_dir path = path_of (butlast (comps path))"
    using C(3,4) path_dir_path_of by metis
  note B = canonical_butlast [OF C(3)] link_free_butlast [OF C(2)]
  have "r' = path_of (butlast (comps path))"
    using resolve_link_free [OF assms(1) B] x(2) d by simp
  then have "inside p (butlast (comps path))"
    using existing.resolved_comps(1) [OF assms(1,2) x(2)] B by simp
  with C that show thesis by metis
qed

lemma edit_checks_place:
  assumes "wf_fs fs" and "policy_ok p" and "edit_checks p e fs a = Inr (path, data, n, mode)"
  obtains cs nd where "path = path_of cs" "canonical cs" "link_free fs cs" "inside p cs"
    "nodes fs cs = Some nd" "\<not> is_directory nd" "mode = perm (meta_of nd) AND 0x1FF"
proof -
  from assms(3) obtain x st where x: "resolve_existing p fs x = Inr path" "lstat fs path = Inr st"
    "\<not> is_directory st" "mode = perm (meta_of st) AND 0x1FF"
    by (auto simp: edit_checks_def err_simps Let_def)
  note C = existing.resolved_comps [OF assms(1,2) x(1)]
  have "nodes fs (comps path) = Some st"
    using stat_link_free(2) [OF C(3,2)] x(2) C(4) by simp
  with C x that show thesis by metis
qed

lemma is_directory_iff: "nodes fs q = Some nd \<Longrightarrow> is_directory nd \<longleftrightarrow> is_dir_at fs q"
  by (simp add: is_directory_def is_dir_at_def split: node.splits)

lemma write_file_good:
  assumes "wf_fs fs" and "policy_ok p" and "roots_stand p fs" and "CHR ''/'' \<notin> set (tmp_random e)"
    and "write_file p e fs a = (r, trace)"
  shows "trace \<noteq> [] \<and> hd trace = fs \<and> (\<forall>s\<in>set trace. good_state p fs s)"
proof (cases "write_checks p fs a")
  case (Inl err)
  with assms(5) good_state_refl [OF assms(1,3)] show ?thesis by (auto simp: write_file_def)
next
  case (Inr x)
  then obtain path data mode where ok: "write_checks p fs a = Inr (path, data, mode)" by (cases x) auto
  obtain r' where run: "atomic_write e ''.orc-write-'' fs path data mode = (r', trace)"
    using ok assms(5) by (auto simp: write_file_def split: prod.splits sum.splits)
  obtain cs where "path = path_of cs" "canonical cs" "link_free fs cs" "inside p cs" "inside p (butlast cs)"
    by (rule write_checks_place [OF assms(1,2) ok])
  with run atomic_write_good [OF assms(1,3)] name_ok_tmp(1) [OF assms(4)] show ?thesis by blast
qed

lemma edit_block_good:
  assumes "wf_fs fs" and "policy_ok p" and "roots_stand p fs" and "CHR ''/'' \<notin> set (tmp_random e)"
    and "edit_block p e fs a = (r, trace)"
  shows "trace \<noteq> [] \<and> hd trace = fs \<and> (\<forall>s\<in>set trace. good_state p fs s)"
proof (cases "edit_checks p e fs a")
  case (Inl err)
  with assms(5) good_state_refl [OF assms(1,3)] show ?thesis by (auto simp: edit_block_def)
next
  case (Inr x)
  then obtain path data n mode where ok: "edit_checks p e fs a = Inr (path, data, n, mode)" by (cases x) auto
  obtain r' where run: "atomic_write e ''.orc-edit-'' fs path data mode = (r', trace)"
    using ok assms(5) by (auto simp: edit_block_def split: prod.splits sum.splits)
  obtain cs nd where cs: "path = path_of cs" "canonical cs" "link_free fs cs" "inside p cs" "nodes fs cs = Some nd" "\<not> is_directory nd"
    by (rule edit_checks_place [OF assms(1,2) ok])
  then have "inside p (butlast cs)"
    using inside_butlast(1) [OF assms(3)] is_directory_iff by blast
  with cs run atomic_write_good [OF assms(1,3)] name_ok_tmp(2) [OF assms(4)] show ?thesis by blast
qed

subsection \<open>Directories and moves\<close>

lemma grown_good:
  assumes "grown m cs fs s" and "wf_fs fs" and "roots_stand p fs" and "inside p cs"
  shows "good_state p fs s"
proof -
  obtain r where r: "r \<in> set (roots p)" "prefix (comps r) cs" using assms(4) by (auto simp: inside_iff)
  have dirs: "is_dir_at fs q \<Longrightarrow> is_dir_at s q" for q
    using assms(1) unfolding grown_def is_dir_at_def by (metis option.case_eq_if)
  have "nodes s q = nodes fs q" if "\<not> inside p q" for q
  proof (rule ccontr)
    assume "nodes s q \<noteq> nodes fs q"
    then have q: "nodes fs q = None" "prefix q cs"
      using assms(1) by (auto simp: grown_def)
    moreover have "\<not> prefix (comps r) q" using that r by (auto simp: inside_iff)
    ultimately have "prefix q (comps r)" using r(2) prefix_same_cases by blast
    then obtain zs where "comps r = q @ zs" by (auto simp: prefix_def)
    moreover have "is_dir_at fs (comps r)" using assms(3) r by (simp add: roots_stand_iff)
    ultimately have "is_dir_at fs q"
      using wf_prefix_dir [OF assms(2), of q zs] by (cases zs) (auto simp: is_dir_at_iff)
    with q show False by (simp add: is_dir_at_def)
  qed
  with dirs assms(1,3) show ?thesis
    by (auto simp: good_state_def only_inside_def grown_def roots_stand_iff)
qed

lemma create_directory_grown:
  assumes "wf_fs fs" and "policy_ok p" and "create_directory p e fs a = (r, trace)"
  obtains "trace = [fs]"
    | m cs where "inside p cs" "trace \<noteq> []" "hd trace = fs" "\<And>s. s \<in> set trace \<Longrightarrow> grown m cs fs s"
proof (cases "bindE (decode_args a) (\<lambda>(path, m). bindE (resolve_for_create p fs path) (\<lambda>r. Inr (r, m)))")
  case (Inl err)
  with assms(3) that(1) show ?thesis by (auto simp: create_directory_def)
next
  case (Inr x)
  then obtain path m0 a' where ok: "x = (path, m0)" "resolve_for_create p fs a' = Inr path"
    by (auto simp: err_simps)
  define m where "m = \<lparr>perm = file_mode 0x1E8 m0, mtime = now e\<rparr>"
  note C = create.resolved_comps [OF assms(1,2) ok(2)]
  obtain r' where run: "mkdir_all fs m (comps path) = (r', trace)"
    using Inr ok(1) assms(3) by (auto simp: create_directory_def m_def split: prod.splits sum.splits)
  from mkdir_all_grown [OF assms(1) C(3,2) run] that(2) [OF C(1)] show ?thesis by blast
qed

lemma create_directory_good:
  assumes "wf_fs fs" and "policy_ok p" and "roots_stand p fs" and "create_directory p e fs a = (r, trace)"
  shows "trace \<noteq> [] \<and> hd trace = fs \<and> (\<forall>s\<in>set trace. good_state p fs s)"
  using good_state_refl [OF assms(1,3)] grown_good [OF _ assms(1,3)]
  by (cases rule: create_directory_grown [OF assms(1,2,4)]) auto

lemma os_rename_good:
  assumes "wf_fs fs" and "roots_stand p fs" and "canonical a" "link_free fs a" "inside p a"
    and "canonical b" "link_free fs b" "inside p b" and "os_rename fs (path_of a) (path_of b) = Inr s"
    and "\<forall>r\<in>set (roots p). \<not> prefix a (comps r)"
  shows "good_state p fs s"
  using os_renameD [OF assms(9)]
proof (cases rule: sys_rename_cases)
  case same
  with good_state_refl [OF assms(1,2)] show ?thesis by simp
next
  case (moved a' b')
  have ab: "a' = a" "b' = b"
    using dir_entry_link_free(1) [OF moved(1) assms(3) link_free_butlast [OF assms(4)]]
      dir_entry_link_free(1) [OF moved(2) assms(6) link_free_butlast [OF assms(7)]] by simp_all
  note mv = moved [unfolded ab]
  have "wf_fs s" using sys_rename_wf [OF assms(1) os_renameD [OF assms(9)]] .
  moreover have "nodes s q = nodes fs q" if "\<not> inside p q" for q
  proof -
    have "\<not> prefix a q" "\<not> prefix b q"
      using that assms(5,8) inside_append by (auto simp: prefix_def)
    with mv(4,6) show ?thesis by (simp add: nodes_move)
  qed
  moreover have "is_dir_at s (comps r)" if r: "r \<in> set (roots p)" for r
  proof -
    have d: "is_dir_at fs (comps r)" using assms(2) r by (simp add: roots_stand_iff)
    have "is_dir_at fs (a @ drop (length b) (comps r))" if pre: "prefix b (comps r)"
    proof -
      obtain zs where z: "comps r = b @ zs" using pre by (auto simp: prefix_def)
      show ?thesis
      proof (cases zs)
        case Nil
        with z d mv(7) show ?thesis by simp
      next
        case (Cons x xs)
        with z d wf_prefix_dir [OF assms(1), of b zs] have "is_dir_at fs b"
          by (auto simp: is_dir_at_iff)
        then have "children fs b = []" using mv(7) by simp
        moreover have "x \<in> set (children fs b)"
          using wf_prefix_dir [OF assms(1), of "b @ [x]" xs] z d Cons
          by (cases xs) (auto simp: children_iff is_dir_at_iff)
        ultimately show ?thesis by simp
      qed
    qed
    with d mv(4,6) assms(10) r show ?thesis by (simp add: is_dir_at_move)
  qed
  ultimately show ?thesis
    using mv(6) by (simp add: good_state_def only_inside_def roots_stand_iff)
qed

lemma move_file_good:
  assumes "wf_fs fs" and "policy_ok p" and "roots_stand p fs" and "move_file p e fs a = (r, trace)"
    and "\<not> moves_root p fs (MoveFile a)"
  shows "trace \<noteq> [] \<and> hd trace = fs \<and> (\<forall>s\<in>set trace. good_state p fs s)"
proof -
  have fs: "good_state p fs fs" by (rule good_state_refl [OF assms(1,3)])
  from assms(4) consider "trace = [fs]"
    | src dst s where "move_checks p fs a = Inr (src, dst)" "os_rename fs src dst = Inr s" "trace = [fs, s]"
    by (auto simp: move_file_def split: sum.splits prod.splits option.splits)
  then show ?thesis
  proof cases
    case (2 src dst s)
    then obtain x y where xy: "resolve_existing p fs x = Inr src" "resolve_for_create p fs y = Inr dst"
      by (auto simp: move_checks_def err_simps)
    note S = existing.resolved_comps [OF assms(1,2) xy(1)] and D = create.resolved_comps [OF assms(1,2) xy(2)]
    have "good_state p fs s"
      using assms(5) 2 S D by (intro os_rename_good [OF assms(1,3), of "comps src" "comps dst"]) (auto simp: moves_root_def list_ex_iff)
    with 2 fs show ?thesis by simp
  qed (simp add: fs)
qed

text \<open>All four together.\<close>

lemma change_good:
  assumes "wf_fs fs" and "policy_ok p" and "roots_stand p fs" and "CHR ''/'' \<notin> set (tmp_random e)"
    and "\<not> moves_root p fs c"
  shows "change_trace p e fs c \<noteq> [] \<and> hd (change_trace p e fs c) = fs \<and> (\<forall>s\<in>set (change_trace p e fs c). good_state p fs s)"
  unfolding change_trace_def
  using assms write_file_good [OF assms(1-4)] edit_block_good [OF assms(1-4)] create_directory_good [OF assms(1-3)]
    move_file_good [OF assms(1-3)]
  by (cases c) (metis (no_types, lifting) change.simps prod.collapse)+

section \<open>Contents\<close>

lemma atomic_write_atomic:
  assumes "wf_fs fs" and "canonical cs" and "link_free fs (butlast cs)" and "name_ok (pre @ tmp_random e)"
    and run: "atomic_write e pre fs (path_of cs) data mode = (r, trace)"
  shows "\<forall>s\<in>set (butlast trace). \<forall>q. q \<noteq> comps (tmp_name (path_dir (path_of cs)) pre (tmp_random e)) \<longrightarrow> nodes s q = nodes fs q"
    and "case r of Inl err \<Rightarrow> remove_fault e = None \<longrightarrow> nodes (last trace) = nodes fs
         | Inr _ \<Rightarrow> nodes (last trace) = (nodes fs)(cs \<mapsto> File \<lparr>perm = mode, mtime = now e\<rparr> data) \<and>
             wf_fs (last trace) \<and> clear (last trace) cs \<and> \<not> is_dir_at fs cs"
proof -
  define t where "t = butlast cs @ [pre @ tmp_random e]"
  have t: "comps (tmp_name (path_dir (path_of cs)) pre (tmp_random e)) = t"
    using assms(2,4) by (simp add: tmp_name_path_of canonical_butlast t_def)
  show "\<forall>s\<in>set (butlast trace). \<forall>q. q \<noteq> comps (tmp_name (path_dir (path_of cs)) pre (tmp_random e)) \<longrightarrow> nodes s q = nodes fs q"
    unfolding t using assms(1-4) t_def run
    by (cases rule: atomic_write_cases) (fastforce simp: tmp_state_def butlast_append)+
  show "case r of Inl err \<Rightarrow> remove_fault e = None \<longrightarrow> nodes (last trace) = nodes fs
         | Inr _ \<Rightarrow> nodes (last trace) = (nodes fs)(cs \<mapsto> File \<lparr>perm = mode, mtime = now e\<rparr> data) \<and>
             wf_fs (last trace) \<and> clear (last trace) cs \<and> \<not> is_dir_at fs cs"
    using assms(1-4) t_def run
    by (cases rule: atomic_write_cases) (auto simp: unwound_def clear_same_os split: if_splits)
qed

lemma content_roundtrip [simp]: "decode_content (fst (encode_content b)) (snd (encode_content b)) = Inr b"
  by (simp add: encode_content_def decode_content_def)

lemma open_read_link_free:
  assumes "canonical cs" and "link_free fs cs" and "open_read e fs (path_of cs) = Inr data"
  obtains nd where "nodes fs cs = Some nd" "node_bytes e cs nd = Inr data"
proof -
  from assms obtain q k nd where q: "walk fs True (max_links fs) [] cs = Inr (q, k)" "nodes fs q = Some nd" "node_bytes e q nd = Inr data"
    by (auto simp: open_read_def err_simps walk_root_path node_at_def check_fault_def split: option.splits)
  then have "q = cs" using walk_link_free [OF q(1) assms(1)] assms(2) by simp
  with q that show thesis by blast
qed

lemma open_read_location:
  assumes "wf_fs fs" and "nodes fs cs = Some (File m d)" and "clear fs cs" and "open_fault e cs = None" and "read_fault e cs = None"
  shows "open_read e fs (path_of cs) = Inr d"
  using location_walk(1) [of fs cs] assms
  by (simp add: open_read_def lift_os_def check_fault_def node_at_def node_bytes_def is_link_at_def)

subsection \<open>Replacing\<close>

fun glue :: "bytes \<Rightarrow> bytes list \<Rightarrow> bytes" where
  "glue sep [] = []"
| "glue sep [x] = x"
| "glue sep (x # y # r) = x @ sep @ glue sep (y # r)"

lemma glue_Cons: "r \<noteq> [] \<Longrightarrow> glue sep (x # r) = x @ sep @ glue sep r"
  by (cases r) simp_all

lemma glue_hd: "glue sep ((c # x) # r) = c # glue sep (x # r)"
  by (cases r) simp_all

definition cut_parts :: "bytes \<Rightarrow> bytes \<Rightarrow> bytes \<Rightarrow> bytes list \<Rightarrow> bool" where
  "cut_parts old new s parts \<longleftrightarrow> length parts = Suc (count_seq old s) \<and> s = glue old parts \<and> replace_seq old new s = glue new parts \<and>
     (\<forall>x\<in>set parts. \<not> sublist old x)"

lemma cut_parts_match:
  assumes "old \<noteq> []" "s \<noteq> []" "prefix old s" and "cut_parts old new (drop (length old) s) parts"
  shows "cut_parts old new s ([] # parts)"
proof -
  note p = assms(4) [unfolded cut_parts_def]
  have s: "old @ drop (length old) s = s" using assms(3) by (auto simp: prefix_def)
  have g: "glue x ([] # parts) = x @ glue x parts" for x using p by (cases parts) auto
  have n: "count_seq old s = Suc (count_seq old (drop (length old) s))"
    "replace_seq old new s = new @ replace_seq old new (drop (length old) s)"
    using assms(1-3) by (simp_all add: count_seq.simps [of old s] replace_seq.simps [of old new s])
  have "s = glue old ([] # parts)" unfolding g using p s by metis
  moreover have "replace_seq old new s = glue new ([] # parts)" unfolding g n using p by metis
  ultimately show ?thesis using p n(1) assms(1) by (simp add: cut_parts_def)
qed

lemma cut_parts_skip:
  assumes "old \<noteq> []" "\<not> prefix old (x # s)" and "cut_parts old new s (y # ys)"
  shows "cut_parts old new (x # s) ((x # y) # ys)"
proof -
  note p = assms(3) [unfolded cut_parts_def]
  have "\<not> prefix old (x # y)"
  proof
    assume "prefix old (x # y)"
    moreover have "prefix (x # y) (x # s)" using p by (cases ys) (auto simp: prefix_def)
    ultimately show False using assms(2) prefix_order.trans by blast
  qed
  then have "\<not> sublist old (x # y)" using p by (simp add: sublist_Cons_right)
  moreover have "count_seq old (x # s) = count_seq old s" "replace_seq old new (x # s) = x # replace_seq old new s"
    using assms(1,2) by (simp_all add: count_seq.simps [of old "x # s"] replace_seq.simps [of old new "x # s"])
  moreover have "x # s = glue old ((x # y) # ys)" unfolding glue_hd using p by metis
  moreover have "x # replace_seq old new s = glue new ((x # y) # ys)" unfolding glue_hd using p by metis
  ultimately show ?thesis unfolding cut_parts_def using p by auto
qed

lemma replace_seq_parts:
  assumes "old \<noteq> []"
  shows "\<exists>parts. cut_parts old new s parts"
  using assms
proof (induction old s rule: count_seq.induct)
  case (1 old s)
  consider "s = []" | "s \<noteq> []" "prefix old s" | x s' where "s = x # s'" "\<not> prefix old s" by (cases s) auto
  then show ?case
  proof cases
    case 1
    then show ?thesis using "1.prems" by (intro exI [of _ "[[]]"]) (simp add: cut_parts_def count_seq.simps replace_seq.simps)
  next
    case 2
    then show ?thesis using "1.IH"(1) "1.prems" cut_parts_match by blast
  next
    case 3
    then obtain parts where "cut_parts old new s' parts" using "1.IH"(2) "1.prems" by auto
    moreover from this obtain y ys where "parts = y # ys" by (cases parts) (auto simp: cut_parts_def)
    ultimately show ?thesis using cut_parts_skip "1.prems" 3 by blast
  qed
qed

section \<open>Properties\<close>

text \<open>
  A client's session: calls one after the other, any of which may be cut short by a crash after any
  of its system calls. The random part of a temporary name has no slash.
\<close>

inductive session :: "policy \<Rightarrow> fsys \<Rightarrow> fsys \<Rightarrow> bool" for p fs where
  start: "session p fs fs"
| call: "session p fs s \<Longrightarrow> CHR ''/'' \<notin> set (tmp_random e) \<Longrightarrow> \<not> moves_root p s c \<Longrightarrow>
    s' \<in> set (change_trace p e s c) \<Longrightarrow> session p fs s'"

definition demo_file_env :: env where
  "demo_file_env = \<lparr>now = 7, tmp_random = ''42'', create_fault = None, chmod_fault = None, write_fault = None, sync_fault = None,
     close_fault = None, rename_fault = None, remove_fault = None, open_fault = (\<lambda>_. None), read_fault = (\<lambda>_. None),
     special_data = (\<lambda>_. []), other_size = (\<lambda>_. 0)\<rparr>"

definition demo_write :: write_args where
  "demo_write = \<lparr>wa_path = ''/r/b'', wa_content = ''hello'', wa_encoding = ''utf-8'', wa_mode = 0\<rparr>"



text \<open>
  C11. A written file appears whole or not at all. After every system call of write_file but the
  last, nothing differs from the start except the temporary file in the target's directory; if the
  call succeeds the only difference left is the target, which holds the decoded content under the
  requested mode; if it fails, whatever the reason, the file system is as it was, provided the
  temporary file can be removed.
\<close>

theorem write_file_atomic:
  assumes "wf_fs fs" and "policy_ok p" and "CHR ''/'' \<notin> set (tmp_random e)"
    and "write_file p e fs (Some a) = (r, trace)"
  shows "(case r of
      Inl err \<Rightarrow> remove_fault e = None \<longrightarrow> nodes (last trace) = nodes fs
    | Inr (path, n) \<Rightarrow> \<exists>data. decode_content (wa_encoding a) (wa_content a) = Inr data \<and> n = length data \<and>
        resolve_for_create p fs (wa_path a) = Inr path \<and>
        nodes (last trace) = (nodes fs)(comps path \<mapsto> File \<lparr>perm = file_mode 0x180 (wa_mode a), mtime = now e\<rparr> data)) \<and>
    (\<forall>path s q. resolve_for_create p fs (wa_path a) = Inr path \<longrightarrow> s \<in> set (butlast trace) \<longrightarrow>
       q \<noteq> comps (tmp_name (path_dir path) ''.orc-write-'' (tmp_random e)) \<longrightarrow> nodes s q = nodes fs q)"
proof (cases "write_checks p fs (Some a)")
  case (Inl err)
  with assms(4) show ?thesis by (auto simp: write_file_def)
next
  case (Inr x)
  then obtain path data mode where ok: "write_checks p fs (Some a) = Inr (path, data, mode)" by (cases x) auto
  then have d: "decode_content (wa_encoding a) (wa_content a) = Inr data" "resolve_for_create p fs (wa_path a) = Inr path"
    "mode = file_mode 0x180 (wa_mode a)"
    by (auto simp: write_checks_def err_simps)
  obtain r' where run: "atomic_write e ''.orc-write-'' fs path data mode = (r', trace)"
    "r = (case r' of Inl err \<Rightarrow> Inl err | Inr _ \<Rightarrow> Inr (path, length data))"
    using ok assms(4) by (auto simp: write_file_def split: prod.splits sum.splits)
  obtain cs where cs: "path = path_of cs" "canonical cs" "link_free fs cs"
    by (rule write_checks_place [OF assms(1,2) ok])
  note atomic_write_atomic [OF assms(1) cs(2) link_free_butlast [OF cs(3)] name_ok_tmp(1) [OF assms(3)] run(1) [unfolded cs(1)]]
  with d run(2) cs show ?thesis by (auto split: sum.splits)
qed

theorem write_file_atomic_witness:
  "nodes (last (snd (write_file demo_policy (demo_file_env\<lparr>sync_fault := Some EIO\<rparr>) demo_fs (Some demo_write)))) = nodes demo_fs \<and>
   nodes (last (snd (write_file demo_policy demo_file_env demo_fs (Some demo_write)))) =
     (nodes demo_fs)([''r'', ''b''] \<mapsto> File \<lparr>perm = 0x180, mtime = 7\<rparr> (bytes_of_string ''hello''))"
proof -
  let ?e = "demo_file_env\<lparr>sync_fault := Some EIO\<rparr>"
  have e: "CHR ''/'' \<notin> set (tmp_random ?e)" "CHR ''/'' \<notin> set (tmp_random demo_file_env)" "remove_fault ?e = None" "now demo_file_env = 7"
    by code_simp+
  have r: "fst (write_file demo_policy ?e demo_fs (Some demo_write)) = Inl (ErrOS EIO)"
    "fst (write_file demo_policy demo_file_env demo_fs (Some demo_write)) = Inr (''/r/b'', 5)" "comps ''/r/b'' = [''r'', ''b'']"
    "decode_content (wa_encoding demo_write) (wa_content demo_write) = Inr (bytes_of_string ''hello'')" "file_mode 0x180 (wa_mode demo_write) = 0x180"
    by code_simp+
  show ?thesis
    using write_file_atomic [OF wf_demo_fs policy_ok_demo e(1) surjective_pairing [of "write_file demo_policy ?e demo_fs (Some demo_write)"], THEN conjunct1] e(3)
      write_file_atomic [OF wf_demo_fs policy_ok_demo e(2) surjective_pairing [of "write_file demo_policy demo_file_env demo_fs (Some demo_write)"], THEN conjunct1] e(4)
    unfolding r by (simp add: r(3))
qed

text \<open>
  C24. What write_file stores, read_file gives back: after a successful write, reading the returned
  path from the start, with no bound or one that is large enough, returns text or base64 that
  decodes to exactly the bytes written, not truncated, and the next offset is their number.
\<close>

theorem write_read_roundtrip:
  assumes "wf_fs fs" and "policy_ok p" and "CHR ''/'' \<notin> set (tmp_random e)"
    and "write_file p e fs (Some a) = (Inr (path, n), trace)"
    and "open_fault e' (comps path) = None" and "read_fault e' (comps path) = None" and "int n \<le> byte_limit k"
  shows "\<exists>c. read_file p e' (last trace) (Some \<lparr>ra_path = path, ra_offset = 0, ra_max_bytes = k\<rparr>) = Inr c \<and>
    fc_path c = path \<and> decode_content (fc_encoding c) (fc_content c) = decode_content (wa_encoding a) (wa_content a) \<and>
    fc_next_offset c = int n \<and> \<not> fc_truncated c"
proof -
  define s where "s = last trace"
  obtain data mode where ok: "write_checks p fs (Some a) = Inr (path, data, mode)" "n = length data"
    "fst (atomic_write e ''.orc-write-'' fs path data mode) = Inr ()" "snd (atomic_write e ''.orc-write-'' fs path data mode) = trace"
    using assms(4) by (auto simp: write_file_def split: prod.splits sum.splits)
  then have d: "decode_content (wa_encoding a) (wa_content a) = Inr data"
    by (auto simp: write_checks_def err_simps)
  obtain cs where cs: "path = path_of cs" "canonical cs" "link_free fs cs" "inside p cs"
    by (rule write_checks_place [OF assms(1,2) ok(1)])
  have run: "atomic_write e ''.orc-write-'' fs (path_of cs) data mode = (Inr (), trace)"
    using ok(3,4) cs(1) by (metis prod.collapse)
  from atomic_write_atomic(2) [OF assms(1) cs(2) link_free_butlast [OF cs(3)] name_ok_tmp(1) [OF assms(3)] run]
  have s: "nodes s cs = Some (File \<lparr>perm = mode, mtime = now e\<rparr> data)" "wf_fs s" "clear s cs"
    by (simp_all add: s_def)
  then have nl: "\<not> is_link_at s cs" "nodes s cs \<noteq> None" by (simp_all add: is_link_at_def)
  have "resolve_existing p s path = Inr path"
    unfolding cs(1) by (rule resolve_location [OF s(2) assms(2) nl(2) s(3) nl(1) cs(4)])
  moreover have "stat s path = Inr (File \<lparr>perm = mode, mtime = now e\<rparr> data)"
    using location_walk(1) [OF s(2) nl(2) s(3) nl(1)] s(1) cs(1) by (simp add: stat_def node_at_def)
  moreover have "open_read e' s path = Inr data"
    using open_read_location [OF s(2,1,3)] assms(5,6) cs by simp
  moreover have "take_upto (byte_limit k + 1) data = data"
    using assms(7) ok(2) by (simp add: take_upto_take)
  moreover have "int n < 2 ^ 63"
    using assms(7) by (simp add: byte_limit_def max_read_bytes_def split: if_splits)
  ultimately show ?thesis
    using d assms(7) ok(2)
    by (simp add: read_file_def decode_args_def lift_os_def is_directory_def file_chunk_def Let_def s_def [symmetric])
qed

theorem write_read_roundtrip_witness:
  "let s = last (snd (write_file demo_policy demo_file_env demo_fs (Some demo_write)));
       r = read_file demo_policy demo_file_env s (Some \<lparr>ra_path = ''/r/b'', ra_offset = 0, ra_max_bytes = 0\<rparr>)
   in \<not> isl r \<and> decode_content (fc_encoding (projr r)) (fc_content (projr r)) = Inr (bytes_of_string ''hello'')"
proof -
  obtain trace where run: "write_file demo_policy demo_file_env demo_fs (Some demo_write) = (Inr (''/r/b'', 5), trace)"
  proof
    have "fst (write_file demo_policy demo_file_env demo_fs (Some demo_write)) = Inr (''/r/b'', 5)" by code_simp
    then show "write_file demo_policy demo_file_env demo_fs (Some demo_write) = (Inr (''/r/b'', 5), snd (write_file demo_policy demo_file_env demo_fs (Some demo_write)))"
      by (metis prod.collapse)
  qed
  have e: "CHR ''/'' \<notin> set (tmp_random demo_file_env)" "open_fault demo_file_env (comps ''/r/b'') = None" "read_fault demo_file_env (comps ''/r/b'') = None"
    "int 5 \<le> byte_limit 0" "decode_content (wa_encoding demo_write) (wa_content demo_write) = Inr (bytes_of_string ''hello'')"
    by code_simp+
  show ?thesis
    using write_read_roundtrip [OF wf_demo_fs policy_ok_demo e(1) run e(2-4)] e(5) run by (auto simp: Let_def)
qed

text \<open>
  C25. edit_block replaces what it counts, and nothing else. When it succeeds, the old content of the
  file is the pieces between the occurrences of the old text, glued with the old text; no piece
  contains the old text again; there are exactly as many occurrences as the caller expected (one
  when not said); and the new content is the same pieces glued with the new text. The permission
  bits are kept, every other location is as before, and the content stays within 4 MiB.
\<close>

theorem edit_block_exact:
  assumes "wf_fs fs" and "policy_ok p" and "CHR ''/'' \<notin> set (tmp_random e)"
    and "edit_block p e fs (Some a) = (Inr (path, n, len), trace)"
  shows "\<exists>nd data parts. nodes fs (comps path) = Some nd \<and> node_bytes e (comps path) nd = Inr data \<and>
    data = glue (bytes_of_string (ea_old_string a)) parts \<and> length parts = Suc n \<and>
    (\<forall>x\<in>set parts. \<not> sublist (bytes_of_string (ea_old_string a)) x) \<and>
    int n = (if ea_expected a = 0 then 1 else ea_expected a) \<and>
    len = length (glue (bytes_of_string (ea_new_string a)) parts) \<and> int len \<le> max_write_bytes \<and>
    nodes (last trace) = (nodes fs)(comps path \<mapsto>
      File \<lparr>perm = perm (meta_of nd) AND 0x1FF, mtime = now e\<rparr> (glue (bytes_of_string (ea_new_string a)) parts))"
proof -
  obtain new mode where ok: "edit_checks p e fs (Some a) = Inr (path, new, n, mode)" "len = length new"
    "atomic_write e ''.orc-edit-'' fs path new mode = (Inr (), trace)"
    using assms(4) by (auto simp: edit_block_def split: prod.splits sum.splits)
  obtain cs nd where cs: "path = path_of cs" "canonical cs" "link_free fs cs" "nodes fs cs = Some nd" "mode = perm (meta_of nd) AND 0x1FF"
    by (rule edit_checks_place [OF assms(1,2) ok(1)])
  let ?old = "bytes_of_string (ea_old_string a)" and ?new = "bytes_of_string (ea_new_string a)"
  from ok(1) obtain data where d: "open_read e fs path = Inr data" "ea_old_string a \<noteq> []"
    "int (count_seq ?old data) = (if ea_expected a = 0 then 1 else ea_expected a)" "n = count_seq ?old data"
    "new = replace_seq ?old ?new data" "int (length new) \<le> max_write_bytes"
    by (auto simp: edit_checks_def err_simps Let_def)
  have nb: "node_bytes e cs nd = Inr data"
    using open_read_link_free [OF cs(2,3)] d(1) cs(1,4) by (metis option.inject)
  have "?old \<noteq> []" using d(2) by (simp add: bytes_of_string_def)
  then obtain parts where parts: "length parts = Suc (count_seq ?old data)" "data = glue ?old parts"
    "replace_seq ?old ?new data = glue ?new parts" "\<forall>x\<in>set parts. \<not> sublist ?old x"
    using replace_seq_parts unfolding cut_parts_def by blast
  from atomic_write_atomic(2) [OF assms(1) cs(2) link_free_butlast [OF cs(3)] name_ok_tmp(2) [OF assms(3)] ok(3) [unfolded cs(1)]]
  have "nodes (last trace) = (nodes fs)(cs \<mapsto> File \<lparr>perm = mode, mtime = now e\<rparr> new)" by simp
  with cs nb parts d ok(2) show ?thesis
    by (intro exI [of _ nd] exI [of _ data] exI [of _ parts]) simp
qed

definition demo_edit :: edit_args where
  "demo_edit = \<lparr>ea_file_path = ''/r/a'', ea_old_string = [CHR 0x02], ea_new_string = ''xy'', ea_expected = 0\<rparr>"

theorem edit_block_exact_witness:
  "(let t = last (snd (edit_block demo_policy demo_file_env demo_fs (Some demo_edit)))
    in nodes t [''etc''] = nodes demo_fs [''etc''] \<and> nodes t [''r'', ''a''] \<noteq> nodes demo_fs [''r'', ''a''])"
proof -
  let ?r = "edit_block demo_policy demo_file_env demo_fs (Some demo_edit)"
  have r: "fst ?r = Inr (''/r/a'', 1, 4)" "comps ''/r/a'' = [''r'', ''a'']" "CHR ''/'' \<notin> set (tmp_random demo_file_env)"
    "map_option meta_of (nodes demo_fs [''r'', ''a'']) = Some demo_meta" "mtime demo_meta \<noteq> now demo_file_env"
    by code_simp+
  from r(1) have run: "?r = (Inr (''/r/a'', 1, 4), snd ?r)" by (metis prod.collapse)
  obtain nd c where "nodes (last (snd ?r)) = (nodes demo_fs)([''r'', ''a''] \<mapsto> File \<lparr>perm = perm (meta_of nd) AND 0x1FF, mtime = now demo_file_env\<rparr> c)"
    using edit_block_exact [OF wf_demo_fs policy_ok_demo r(3) run] r(2) by auto
  moreover have "demo_meta \<noteq> \<lparr>perm = perm (meta_of nd) AND 0x1FF, mtime = now demo_file_env\<rparr>"
    using r(5) by (metis meta.select_convs(2))
  ultimately show ?thesis using r(4) by (auto simp: Let_def meta_of_def [of "File _ _"])
qed

text \<open>
  read_file returns the requested slice: the path it names is inside the roots, and the content
  it returns decodes to the bytes of that file from the offset on, as many as the bound allows. The
  bound is what the caller asked for, and 4 MiB at most. The result says truncated exactly when
  bytes follow, and the next offset is the first one not returned.
\<close>

theorem read_file_slice:
  assumes "wf_fs fs" and "policy_ok p" and "read_file p e fs (Some a) = Inr c"
    and "ra_offset a + max_read_bytes < 2 ^ 63"
  shows "\<exists>nd data. inside p (comps (fc_path c)) \<and> nodes fs (comps (fc_path c)) = Some nd \<and>
    node_bytes e (comps (fc_path c)) nd = Inr data \<and>
    (let b = take (nat (byte_limit (ra_max_bytes a))) (drop (nat (ra_offset a)) data)
     in decode_content (fc_encoding c) (fc_content c) = Inr b \<and> int (length b) \<le> max_read_bytes \<and>
        fc_next_offset c = ra_offset a + int (length b) \<and>
        (fc_truncated c \<longleftrightarrow> fc_next_offset c < int (length data)))"
proof -
  from assms(3) obtain path data where r: "resolve_existing p fs (ra_path a) = Inr path" "0 \<le> ra_offset a"
    "open_read e fs path = Inr data"
    and c: "c = file_chunk path (ra_offset a) (byte_limit (ra_max_bytes a)) data"
    by (auto simp: read_file_def err_simps Let_def)
  note C = existing.resolved_comps [OF assms(1,2) r(1)]
  obtain nd where nd: "nodes fs (comps path) = Some nd" "node_bytes e (comps path) nd = Inr data"
    using open_read_link_free [OF C(3,2)] r(3) C(4) by auto
  define k where "k = byte_limit (ra_max_bytes a)"
  define rest where "rest = drop (nat (ra_offset a)) data"
  have k: "0 < k" "k \<le> max_read_bytes" by (auto simp: k_def byte_limit_def max_read_bytes_def)
  define b where "b = take (nat k) rest"
  have b: "(if int (length (take_upto (k + 1) rest)) > k then take_upto k (take_upto (k + 1) rest) else take_upto (k + 1) rest) = b"
    "int (length (take_upto (k + 1) rest)) > k \<longleftrightarrow> int (length b) < int (length rest)"
    using k by (auto simp: b_def take_upto_take min_def nat_add_distrib)
  have len: "int (length b) \<le> k" using k by (simp add: b_def)
  then have "wrap64 (ra_offset a + int (length b)) = ra_offset a + int (length b)"
    using assms(4) r(2) k by (intro wrap64_id) auto
  then have c': "fc_path c = path" "decode_content (fc_encoding c) (fc_content c) = Inr b"
    "fc_next_offset c = ra_offset a + int (length b)" "fc_truncated c \<longleftrightarrow> int (length b) < int (length rest)"
    unfolding c file_chunk_def Let_def k_def [symmetric] rest_def [symmetric] b(1) unfolding b(2) by simp_all
  moreover have "int (length b) < int (length rest) \<longleftrightarrow> ra_offset a + int (length b) < int (length data)"
    using r(2) by (auto simp: rest_def)
  ultimately show ?thesis
    using C(1) nd k len by (auto simp: Let_def b_def rest_def k_def)
qed

theorem read_file_slice_witness:
  "let r = read_file demo_policy demo_file_env demo_fs (Some \<lparr>ra_path = ''a'', ra_offset = 1, ra_max_bytes = 1\<rparr>)
   in \<not> isl r \<and> fc_next_offset (projr r) = 2 \<and> fc_truncated (projr r)"
proof -
  let ?a = "\<lparr>ra_path = ''a'', ra_offset = 1, ra_max_bytes = 1\<rparr>"
  have r: "\<not> isl (read_file demo_policy demo_file_env demo_fs (Some ?a))" "ra_offset ?a + max_read_bytes < 2 ^ 63" "byte_limit 1 = 1"
    "fc_path (projr (read_file demo_policy demo_file_env demo_fs (Some ?a))) = ''/r/a''"
    "nodes demo_fs (comps ''/r/a'') = Some (File demo_meta [1, 2, 3])"
    by code_simp+
  from r(1) have run: "read_file demo_policy demo_file_env demo_fs (Some ?a) = Inr (projr (read_file demo_policy demo_file_env demo_fs (Some ?a)))" by simp
  show ?thesis
    using read_file_slice [OF wf_demo_fs policy_ok_demo run r(2)] r(1) unfolding r(4) r(5)
    by (auto simp: Let_def r(3) node_bytes_def)
qed

subsection \<open>A root that has been moved\<close>

text \<open>
  The restriction on moves is needed. \<^verbatim>\<open>move_file\<close> accepts an allowed root as its source and, once
  it is gone, as its destination; a file moved there can be edited, and the edit puts its temporary
  file into the parent directory, outside the roots.
\<close>

definition two_roots_fs :: fsys where
  "two_roots_fs =
     \<lparr>tab = [([], Directory demo_meta), ([''r''], Directory demo_meta), ([''q''], Directory demo_meta),
             ([''q'', ''f''], File demo_meta [65])],
      io_err = (\<lambda>_. None), cwd = Some ''/r'', max_links = 40\<rparr>"

definition two_roots :: policy where
  "two_roots = \<lparr>roots = [''/r'', ''/q'']\<rparr>"

definition root_moved_away :: fsys where
  "root_moved_away = last (change_trace two_roots demo_file_env two_roots_fs
     (MoveFile (Some \<lparr>ma_source = ''/r'', ma_destination = ''/q/old'', ma_overwrite = False\<rparr>)))"

definition file_at_root :: fsys where
  "file_at_root = last (change_trace two_roots demo_file_env root_moved_away
     (MoveFile (Some \<lparr>ma_source = ''/q/f'', ma_destination = ''/r'', ma_overwrite = False\<rparr>)))"

lemma moved_root_escape:
  "new_policy two_roots_fs [''/r'', ''/q''] = Inr two_roots \<and> \<not> inside two_roots [''.orc-edit-42''] \<and>
   list_ex (\<lambda>s. nodes s [''.orc-edit-42''] \<noteq> None)
     (change_trace two_roots demo_file_env file_at_root
       (EditBlock (Some \<lparr>ea_file_path = ''/r'', ea_old_string = ''A'', ea_new_string = ''B'', ea_expected = 1\<rparr>)))"
  by (intro conjI; code_simp)

end
