(* ===== verification/SearchMgr.thy ===== *)
theory SearchMgr
  imports FileTools
begin

text \<open>
  The search sessions of the agent (\<^verbatim>\<open>internal/searchmgr/manager.go\<close>). A session is a cell of
  the heap and the table maps session ids to such references, as in the source. The goroutine that
  searches is a sequence of actions on its session, each of them one critical section of
  \<^verbatim>\<open>session.mu\<close>: it appends a match, sets the error, or marks the session done; they interleave
  freely with the calls of the clients. The regular expressions of Go's package \<^verbatim>\<open>regexp\<close> are a
  parameter: compiling a pattern gives an error or the position of the leftmost match. The root of
  a search is an absolute path without symbolic links on the way, as the executor resolves it.
\<close>

section \<open>Definitions\<close>

subsection \<open>Queries and matchers\<close>

record query =
  q_path :: string
  q_pattern :: string
  q_type :: string
  q_regex :: bool
  q_case :: bool
  q_hidden :: bool
  q_max_results :: int
  q_max_file :: int

record found =
  f_path :: string
  f_line :: int
  f_column :: int
  f_preview :: string
  f_kind :: string

type_synonym regex_engine = "string \<Rightarrow> goerror + (string \<Rightarrow> nat option)"

datatype matcher = Literal string bool | Regex "string \<Rightarrow> nat option"

text \<open>\<^verbatim>\<open>strings.Index\<close>.\<close>

fun index_sub :: "string \<Rightarrow> string \<Rightarrow> nat option" where
  "index_sub needle [] = (if needle = [] then Some 0 else None)"
| "index_sub needle (c # cs) = (if prefix needle (c # cs) then Some 0 else map_option Suc (index_sub needle cs))"

definition matcher_index :: "(string \<Rightarrow> string) \<Rightarrow> matcher \<Rightarrow> string \<Rightarrow> nat option" where
  "matcher_index uni m s =
     (case m of
        Literal needle cs \<Rightarrow> index_sub needle (if cs then s else to_lower uni s)
      | Regex f \<Rightarrow> f s)"

definition new_matcher :: "(string \<Rightarrow> string) \<Rightarrow> regex_engine \<Rightarrow> string \<Rightarrow> bool \<Rightarrow> bool \<Rightarrow> goerror + matcher" where
  "new_matcher uni engine pattern regexMode caseSensitive =
     (if regexMode then
        (case engine (if caseSensitive then pattern else ''(?i)'' @ pattern) of
           Inl e \<Rightarrow> Inl (ErrWrap ''invalid regex'' e)
         | Inr f \<Rightarrow> Inr (Regex f))
      else Inr (Literal (if caseSensitive then pattern else to_lower uni pattern) caseSensitive))"

definition is_hidden :: "string \<Rightarrow> bool" where
  "is_hidden name = (length name > 1 \<and> hd name = CHR ''.'')"

definition normalize_query :: "query \<Rightarrow> goerror + query" where
  "normalize_query q =
     (let pattern = trim_space (q_pattern q);
          typ = (if q_type q = [] then ''content'' else q_type q);
          r = (if q_max_results q \<le> 0 then 1000 else q_max_results q);
          f = (if q_max_file q \<le> 0 then 2097152 else q_max_file q)
      in bindE (ensure (pattern \<noteq> []) (ErrMsg ''search pattern is required'')) (\<lambda>_.
         bindE (ensure (typ = ''content'' \<or> typ = ''files'') (ErrMsg ''search_type must be content or files'')) (\<lambda>_.
           Inr (q\<lparr>q_path := clean (q_path q), q_pattern := pattern, q_type := typ,
                  q_max_results := (if r > 5000 then 5000 else r),
                  q_max_file := (if f > 16777216 then 16777216 else f)\<rparr>))))"

subsection \<open>The search\<close>

datatype ctx_err = Canceled | DeadlineExceeded

text \<open>What the callback returns to \<^verbatim>\<open>filepath.WalkDir\<close>.\<close>

datatype verdict = Continue | SkipDir | Enough | Stopped ctx_err

text \<open>
  What a search depends on besides the query: the file system, which calls on it fail, the case
  mapping of non-ASCII strings, and the state of the context at the n-th visited entry and at the end.
\<close>

record search_env =
  se_fs :: fsys
  se_env :: env
  se_lower :: "string \<Rightarrow> string"
  se_ctx :: "nat \<Rightarrow> ctx_err option"
  se_ctx_end :: "ctx_err option"

record progress =
  found_so_far :: "found list"
  visited :: nat

text \<open>The loop over the lines of a file, which stops as soon as there are enough results.\<close>

fun scan_lines :: "(string \<Rightarrow> nat option) \<Rightarrow> int \<Rightarrow> string \<Rightarrow> nat \<Rightarrow> string list \<Rightarrow> found list \<Rightarrow> found list \<times> verdict" where
  "scan_lines m lim path i [] res = (res, Continue)"
| "scan_lines m lim path i (line # ls) res =
     (case m line of
        None \<Rightarrow> scan_lines m lim path (Suc i) ls res
      | Some k \<Rightarrow>
        (let res' = res @ [\<lparr>f_path = path, f_line = int i + 1, f_column = int k + 1,
                            f_preview = take_upto 1000 line, f_kind = ''content''\<rparr>]
         in if int (length res') \<ge> lim then (res', Enough) else scan_lines m lim path (Suc i) ls res'))"

text \<open>\<^verbatim>\<open>Info\<close> and \<^verbatim>\<open>ReadFile\<close>: the text of the file, if it is to be searched.\<close>

definition searchable_text :: "search_env \<Rightarrow> query \<Rightarrow> loc \<Rightarrow> node \<Rightarrow> string option" where
  "searchable_text se q l nd =
     (if io_err (se_fs se) l \<noteq> None then None
      else (case nd of
              File _ d \<Rightarrow>
                if int (length d) > q_max_file q then None
                else (case open_read (se_env se) (se_fs se) (path_of l) of
                        Inl _ \<Rightarrow> None
                      | Inr b \<Rightarrow> if int (length b) > q_max_file q \<or> \<not> utf8_valid b \<or> 0 \<in> set b then None
                                else Some (string_of_bytes b))
            | _ \<Rightarrow> None))"

text \<open>The callback that \<^verbatim>\<open>run\<close> gives to \<^verbatim>\<open>WalkDir\<close>.\<close>

definition visit :: "search_env \<Rightarrow> query \<Rightarrow> matcher \<Rightarrow> progress \<Rightarrow> loc \<Rightarrow> node \<Rightarrow> progress \<times> verdict" where
  "visit se q m st l nd =
     (let path = path_of l; st' = st\<lparr>visited := Suc (visited st)\<rparr> in
      case se_ctx se (visited st) of
        Some c \<Rightarrow> (st', Stopped c)
      | None \<Rightarrow>
        if path \<noteq> q_path q \<and> \<not> q_hidden q \<and> is_hidden (path_base path)
        then (st', if is_directory nd then SkipDir else Continue)
        else if is_directory nd then (st', Continue)
        else if (case nd of Link _ _ \<Rightarrow> True | _ \<Rightarrow> False) then (st', Continue)
        else if int (length (found_so_far st)) \<ge> q_max_results q then (st', Enough)
        else if q_type q = ''files'' then
          (case matcher_index (se_lower se) m (case path_rel (q_path q) path of None \<Rightarrow> [] | Some rel \<Rightarrow> rel) of
             None \<Rightarrow> (st', Continue)
           | Some k \<Rightarrow> (st'\<lparr>found_so_far := found_so_far st @
               [\<lparr>f_path = path, f_line = 0, f_column = int k + 1, f_preview = [], f_kind = ''file''\<rparr>]\<rparr>, Continue))
        else
          (case searchable_text se q l nd of
             None \<Rightarrow> (st', Continue)
           | Some text \<Rightarrow>
             (case scan_lines (matcher_index (se_lower se) m) (q_max_results q) path 0
                     (split_on CHR 0x0A text) (found_so_far st) of
                (res, v) \<Rightarrow> (st'\<lparr>found_so_far := res\<rparr>, v))))"

text \<open>
  \<^verbatim>\<open>filepath.WalkDir\<close>: an entry first, then the entries of a directory in the order of their
  names. The callback ignores the directories that cannot be read. The nesting depth of the table
  bounds the recursion.
\<close>

fun walk_list :: "(loc \<Rightarrow> progress \<Rightarrow> progress \<times> verdict) \<Rightarrow> loc list \<Rightarrow> progress \<Rightarrow> progress \<times> verdict" where
  "walk_list f [] st = (st, Continue)"
| "walk_list f (l # ls) st = (case f l st of (st', Continue) \<Rightarrow> walk_list f ls st' | (st', v) \<Rightarrow> (st', v))"

definition readable_children :: "search_env \<Rightarrow> loc \<Rightarrow> loc list" where
  "readable_children se l =
     (if open_fault (se_env se) l \<noteq> None \<or> io_err (se_fs se) l \<noteq> None then []
      else map (\<lambda>c. l @ [c]) (children (se_fs se) l))"

primrec walk_at ::
  "search_env \<Rightarrow> (progress \<Rightarrow> loc \<Rightarrow> node \<Rightarrow> progress \<times> verdict) \<Rightarrow> nat \<Rightarrow> loc \<Rightarrow> progress \<Rightarrow> progress \<times> verdict" where
  "walk_at se fn 0 = (\<lambda>l st. (st, Continue))"
| "walk_at se fn (Suc d) =
     (\<lambda>l st. case nodes (se_fs se) l of
        None \<Rightarrow> (st, Continue)
      | Some nd \<Rightarrow>
        (case fn st l nd of
           (st', Continue) \<Rightarrow>
             if is_directory nd then walk_list (walk_at se fn d) (readable_children se l) st' else (st', Continue)
         | (st', SkipDir) \<Rightarrow> (st', Continue)
         | (st', v) \<Rightarrow> (st', v)))"

definition depth_bound :: "fsys \<Rightarrow> nat" where
  "depth_bound fs = Suc (fold max (map (length \<circ> fst) (tab fs)) 0)"

definition walk_dir :: "search_env \<Rightarrow> query \<Rightarrow> matcher \<Rightarrow> progress \<times> verdict" where
  "walk_dir se q m =
     (let l = comps (q_path q); st = \<lparr>found_so_far = [], visited = 0\<rparr> in
      if io_err (se_fs se) l \<noteq> None then (st, Continue)
      else walk_at se (visit se q m) (depth_bound (se_fs se)) l st)"

text \<open>\<^verbatim>\<open>run\<close>, as the actions of the goroutine on its session.\<close>

datatype action = AddFound found | SetError string | Finish

definition run_actions :: "search_env \<Rightarrow> query \<Rightarrow> matcher \<Rightarrow> action list" where
  "run_actions se q m =
     (case walk_dir se q m of (st, v) \<Rightarrow>
        map AddFound (found_so_far st) @
        (if v = Stopped DeadlineExceeded \<or> se_ctx_end se = Some DeadlineExceeded then [SetError ''search timed out''] else []) @
        [Finish])"

subsection \<open>Sessions\<close>

record search_session =
  results :: "found list"
  next_ix :: nat
  s_done :: bool
  s_err :: string
  s_cancelled :: bool
  todo :: "action list"

record search_manager =
  sessions :: "(string \<times> nat) list"
  s_heap :: "search_session list"
  max_sessions :: int

definition new_search_manager :: "int \<Rightarrow> search_manager" where
  "new_search_manager n = \<lparr>sessions = [], s_heap = [], max_sessions = (if n \<le> 0 then 8 else n)\<rparr>"

definition search_id :: "bytes option \<Rightarrow> goerror + string" where
  "search_id src = (case src of None \<Rightarrow> Inl (ErrMsg ''rand'') | Some b \<Rightarrow> Inr (''search_'' @ hex_encode b))"

definition active_sessions :: "search_manager \<Rightarrow> nat" where
  "active_sessions m = length (filter (\<lambda>(k, i). \<not> s_done (s_heap m ! i)) (sessions m))"

definition start_search ::
  "search_env \<Rightarrow> regex_engine \<Rightarrow> bytes option \<Rightarrow> query \<Rightarrow> search_manager \<Rightarrow> (goerror + string) \<times> search_manager" where
  "start_search se engine rand q0 m =
     (case bindE (normalize_query q0) (\<lambda>q.
           bindE (new_matcher (se_lower se) engine (q_pattern q) (q_regex q) (q_case q)) (\<lambda>mt.
           bindE (search_id rand) (\<lambda>i. Inr (q, mt, i)))) of
        Inl e \<Rightarrow> (Inl e, m)
      | Inr (q, mt, sid) \<Rightarrow>
        if int (active_sessions m) \<ge> max_sessions m then (Inl ErrSearchLimit, m)
        else (Inr sid,
              m\<lparr>sessions := AList.update sid (length (s_heap m)) (sessions m),
                s_heap := s_heap m @ [\<lparr>results = [], next_ix = 0, s_done = False, s_err = [], s_cancelled = False,
                                        todo = run_actions se q mt\<rparr>]\<rparr>))"

definition lookup_session :: "search_manager \<Rightarrow> string \<Rightarrow> nat option" where
  "lookup_session m sid = map_of (sessions m) sid"

definition upd_session :: "nat \<Rightarrow> (search_session \<Rightarrow> search_session) \<Rightarrow> search_manager \<Rightarrow> search_manager" where
  "upd_session i f m = m\<lparr>s_heap := (s_heap m)[i := f (s_heap m ! i)]\<rparr>"

record more_result =
  mr_results :: "found list"
  mr_done :: bool
  mr_error :: string
  mr_total :: nat

definition page_limit :: "int \<Rightarrow> nat" where
  "page_limit limit = (if limit \<le> 0 then 100 else if limit > 500 then 500 else nat limit)"

definition get_more :: "search_manager \<Rightarrow> string \<Rightarrow> int \<Rightarrow> (goerror + more_result) \<times> search_manager" where
  "get_more m sid limit =
     (case lookup_session m sid of
        None \<Rightarrow> (Inl ErrSearchNotFound, m)
      | Some i \<Rightarrow>
        (let s = s_heap m ! i;
             stop = min (next_ix s + page_limit limit) (length (results s))
         in (Inr \<lparr>mr_results = drop (next_ix s) (take stop (results s)),
                  mr_done = (s_done s \<and> stop \<ge> length (results s)), mr_error = s_err s,
                  mr_total = length (results s)\<rparr>,
             upd_session i (\<lambda>s. s\<lparr>next_ix := stop\<rparr>) m)))"

definition stop_search :: "search_manager \<Rightarrow> string \<Rightarrow> (goerror + unit) \<times> search_manager" where
  "stop_search m sid =
     (case lookup_session m sid of
        None \<Rightarrow> (Inl ErrSearchNotFound, m)
      | Some i \<Rightarrow> (Inr (), upd_session i (\<lambda>s. s\<lparr>s_cancelled := True\<rparr>) m))"

record search_summary =
  ss_id :: string
  ss_done :: bool
  ss_buffered :: int
  ss_returned :: nat
  ss_total :: nat

definition list_searches :: "search_manager \<Rightarrow> search_summary list" where
  "list_searches m =
     map (\<lambda>(sid, i). let s = s_heap m ! i in
            \<lparr>ss_id = sid, ss_done = s_done s, ss_buffered = int (length (results s)) - int (next_ix s),
             ss_returned = next_ix s, ss_total = length (results s)\<rparr>) (sessions m)"

text \<open>The timer of \<^verbatim>\<open>Start\<close>, which holds a reference to the session it belongs to.\<close>

definition expire_search :: "string \<Rightarrow> nat \<Rightarrow> search_manager \<Rightarrow> search_manager" where
  "expire_search sid i m =
     upd_session i (\<lambda>s. s\<lparr>s_cancelled := True\<rparr>)
       (if lookup_session m sid = Some i then m\<lparr>sessions := AList.delete sid (sessions m)\<rparr> else m)"

fun act :: "action \<Rightarrow> search_session \<Rightarrow> search_session" where
  "act (AddFound v) s = s\<lparr>results := results s @ [v]\<rparr>"
| "act (SetError e) s = s\<lparr>s_err := e\<rparr>"
| "act Finish s = s\<lparr>s_done := True\<rparr>"

text \<open>The next action of the goroutine of session \<open>i\<close>.\<close>

definition run_step :: "nat \<Rightarrow> search_manager \<Rightarrow> search_manager" where
  "run_step i m =
     upd_session i (\<lambda>s. case todo s of [] \<Rightarrow> s | a # as \<Rightarrow> act a (s\<lparr>todo := as\<rparr>)) m"

end
