(* ===== verification/SearchWalk.thy ===== *)
theory SearchWalk
  imports SearchMgr
begin

text \<open>
  What the walk of a search (\<^verbatim>\<open>run\<close> of \<^verbatim>\<open>internal/searchmgr/manager.go\<close>) finds: a reference without
  state and limit, and the proof that the code computes it.
\<close>

section \<open>The reference\<close>

text \<open>
  What a search should find, without the limit and the state of the code: the matches of each file
  of the listing, where the listing leaves out symbolic links and, unless they are asked for,
  hidden entries with all that is below them.
\<close>

fun line_matches :: "(string \<Rightarrow> nat option) \<Rightarrow> string \<Rightarrow> nat \<Rightarrow> string list \<Rightarrow> found list" where
  "line_matches m path i [] = []"
| "line_matches m path i (line # ls) =
     (case m line of
        None \<Rightarrow> line_matches m path (Suc i) ls
      | Some k \<Rightarrow>
        \<lparr>f_path = path, f_line = int i + 1, f_column = int k + 1, f_preview = take_upto 1000 line, f_kind = ''content''\<rparr> #
        line_matches m path (Suc i) ls)"

definition file_matches :: "search_env \<Rightarrow> query \<Rightarrow> matcher \<Rightarrow> loc \<Rightarrow> node \<Rightarrow> found list" where
  "file_matches se q m l nd =
     (if q_type q = ''files'' then
        (case matcher_index (se_lower se) m (case path_rel (q_path q) (path_of l) of None \<Rightarrow> [] | Some rel \<Rightarrow> rel) of
           None \<Rightarrow> []
         | Some k \<Rightarrow> [\<lparr>f_path = path_of l, f_line = 0, f_column = int k + 1, f_preview = [], f_kind = ''file''\<rparr>])
      else
        (case searchable_text se q l nd of
           None \<Rightarrow> []
         | Some text \<Rightarrow> line_matches (matcher_index (se_lower se) m) (path_of l) 0 (split_on CHR 0x0A text)))"

definition skipped :: "query \<Rightarrow> loc \<Rightarrow> bool" where
  "skipped q l = (path_of l \<noteq> q_path q \<and> \<not> q_hidden q \<and> is_hidden (path_base (path_of l)))"

primrec listing :: "search_env \<Rightarrow> query \<Rightarrow> nat \<Rightarrow> loc \<Rightarrow> (loc \<times> node) list" where
  "listing se q 0 = (\<lambda>l. [])"
| "listing se q (Suc d) =
     (\<lambda>l. case nodes (se_fs se) l of
        None \<Rightarrow> []
      | Some nd \<Rightarrow>
        if skipped q l then []
        else if is_directory nd then concat (map (listing se q d) (readable_children se l))
        else if (case nd of Link _ _ \<Rightarrow> True | _ \<Rightarrow> False) then []
        else [(l, nd)])"

definition all_matches :: "search_env \<Rightarrow> query \<Rightarrow> matcher \<Rightarrow> found list" where
  "all_matches se q m =
     (if io_err (se_fs se) (comps (q_path q)) \<noteq> None then []
      else concat (map (\<lambda>(l, nd). file_matches se q m l nd)
                       (listing se q (depth_bound (se_fs se)) (comps (q_path q)))))"

section \<open>Lemmas\<close>

subsection \<open>The search finds what the reference says\<close>

lemma scan_lines_spec:
  assumes "int (length res) < lim"
  shows "scan_lines m lim path i ls res =
    (let r = res @ line_matches m path i ls
     in if int (length r) < lim then (r, Continue) else (take (nat lim) r, Enough))"
  using assms
proof (induction m lim path i ls res rule: scan_lines.induct)
  case (2 m lim path i line ls res)
  show ?case
  proof (cases "m line")
    case None
    with 2 show ?thesis by simp
  next
    case (Some k)
    let ?v = "\<lparr>f_path = path, f_line = int i + 1, f_column = int k + 1, f_preview = take_upto 1000 line, f_kind = ''content''\<rparr>"
    show ?thesis
    proof (cases "int (length (res @ [?v])) \<ge> lim")
      case True
      then have "nat lim = Suc (length res)" using "2.prems" by simp
      with True Some "2.prems" show ?thesis by (simp add: Let_def)
    next
      case False
      with 2 Some show ?thesis by (simp add: Let_def)
    qed
  qed
qed simp

text \<open>
  The state of a walk that was not stopped by the context: \<open>capped\<close> says that the results are the
  matches seen so far, cut at the limit, and that it goes on only below the limit or when nothing
  was cut.
\<close>

definition capped :: "int \<Rightarrow> found list \<Rightarrow> progress \<times> verdict \<Rightarrow> bool" where
  "capped lim xs r \<longleftrightarrow>
     (case snd r of
        Continue \<Rightarrow> found_so_far (fst r) = xs \<and> int (length xs) \<le> lim
      | SkipDir \<Rightarrow> found_so_far (fst r) = xs \<and> int (length xs) \<le> lim
      | Enough \<Rightarrow> found_so_far (fst r) = take (nat lim) xs \<and> int (length xs) \<ge> lim
      | Stopped _ \<Rightarrow> prefix (found_so_far (fst r)) xs \<and> int (length (found_so_far (fst r))) \<le> lim)"

lemma capped_more: "capped lim xs (st, v) \<Longrightarrow> v \<noteq> Continue \<Longrightarrow> v \<noteq> SkipDir \<Longrightarrow> capped lim (xs @ ys) (st, v)"
  by (cases v) (auto simp: capped_def)

definition own_matches :: "search_env \<Rightarrow> query \<Rightarrow> matcher \<Rightarrow> loc \<Rightarrow> node \<Rightarrow> found list" where
  "own_matches se q m l nd =
     (if skipped q l \<or> is_directory nd \<or> (case nd of Link _ _ \<Rightarrow> True | _ \<Rightarrow> False) then [] else file_matches se q m l nd)"

lemma visit_capped:
  assumes "int (length (found_so_far st)) \<le> q_max_results q"
  shows "capped (q_max_results q) (found_so_far st @ own_matches se q m l nd) (visit se q m st l nd)"
proof (cases "se_ctx se (visited st)")
  case (Some c)
  with assms show ?thesis by (simp add: visit_def capped_def Let_def)
next
  case None
  show ?thesis
  proof (cases "skipped q l \<or> is_directory nd \<or> (case nd of Link _ _ \<Rightarrow> True | _ \<Rightarrow> False)")
    case True
    with None assms show ?thesis by (auto simp: visit_def capped_def own_matches_def skipped_def Let_def)
  next
    case plain: False
    show ?thesis
    proof (cases "int (length (found_so_far st)) \<ge> q_max_results q")
      case True
      with None assms plain show ?thesis by (auto simp: visit_def capped_def skipped_def Let_def)
    next
      case False
      with None plain show ?thesis
        by (auto simp: visit_def capped_def own_matches_def file_matches_def skipped_def Let_def scan_lines_spec
            split: option.splits)
    qed
  qed
qed

lemma visit_verdict:
  assumes "visit se q m st l nd = (st', v)"
  shows "v = SkipDir \<Longrightarrow> skipped q l" "v = Continue \<Longrightarrow> is_directory nd \<Longrightarrow> \<not> skipped q l"
proof -
  have "v' \<noteq> SkipDir" if "scan_lines f lim path i ls res = (r, v')" for f lim path i ls res r v'
    using that by (induction f lim path i ls res rule: scan_lines.induct) (auto simp: Let_def split: option.splits if_splits)
  with assms show "v = SkipDir \<Longrightarrow> skipped q l" "v = Continue \<Longrightarrow> is_directory nd \<Longrightarrow> \<not> skipped q l"
    by (auto simp: visit_def skipped_def Let_def split: option.splits if_splits prod.splits)
qed

lemma walk_list_capped:
  assumes "\<And>l st. l \<in> set ls \<Longrightarrow> int (length (found_so_far st)) \<le> lim \<Longrightarrow>
      capped lim (found_so_far st @ g l) (f l st) \<and> snd (f l st) \<noteq> SkipDir"
    and "int (length (found_so_far st)) \<le> lim"
  shows "capped lim (found_so_far st @ concat (map g ls)) (walk_list f ls st) \<and> snd (walk_list f ls st) \<noteq> SkipDir"
  using assms
proof (induction ls arbitrary: st)
  case Nil
  then show ?case by (simp add: capped_def)
next
  case (Cons l ls)
  obtain st' v where r: "f l st = (st', v)" by (cases "f l st")
  with Cons.prems(1) [of l st] Cons.prems(2) have c: "capped lim (found_so_far st @ g l) (st', v)" "v \<noteq> SkipDir"
    by simp_all
  show ?case
  proof (cases "v = Continue")
    case True
    then have st': "found_so_far st' = found_so_far st @ g l" "int (length (found_so_far st')) \<le> lim"
      using c by (simp_all add: capped_def)
    have "capped lim (found_so_far st' @ concat (map g ls)) (walk_list f ls st') \<and> snd (walk_list f ls st') \<noteq> SkipDir"
      using Cons.prems(1) st'(2) by (intro Cons.IH) auto
    with r True st' show ?thesis by simp
  next
    case False
    with r c capped_more [OF c(1), of "concat (map g ls)"] show ?thesis
      by (cases v) simp_all
  qed
qed

definition listed_matches :: "search_env \<Rightarrow> query \<Rightarrow> matcher \<Rightarrow> (loc \<times> node) list \<Rightarrow> found list" where
  "listed_matches se q m xs = concat (map (\<lambda>(l, nd). file_matches se q m l nd) xs)"

lemma listed_matches_concat:
  "listed_matches se q m (concat (map f ls)) = concat (map (\<lambda>l. listed_matches se q m (f l)) ls)"
  by (induction ls) (simp_all add: listed_matches_def)

lemma walk_at_capped:
  assumes "int (length (found_so_far st)) \<le> q_max_results q"
  shows "capped (q_max_results q) (found_so_far st @ listed_matches se q m (listing se q d l))
      (walk_at se (visit se q m) d l st) \<and> snd (walk_at se (visit se q m) d l st) \<noteq> SkipDir"
  using assms
proof (induction d arbitrary: l st)
  case 0
  then show ?case by (simp add: capped_def listed_matches_def)
next
  case (Suc d)
  show ?case
  proof (cases "nodes (se_fs se) l")
    case None
    with Suc.prems show ?thesis by (simp add: capped_def listed_matches_def)
  next
    case (Some nd)
    obtain st' v where v: "visit se q m st l nd = (st', v)" by fastforce
    note C = visit_capped [OF Suc.prems, of se m l nd, unfolded v] and V = visit_verdict [OF v]
    show ?thesis
    proof (cases "v = Continue \<and> is_directory nd")
      case True
      then have ns: "\<not> skipped q l" using V(2) by simp
      have f: "found_so_far st' = found_so_far st" "int (length (found_so_far st')) \<le> q_max_results q"
        using C True by (simp_all add: capped_def own_matches_def)
      note walk_list_capped [where f = "walk_at se (visit se q m) d" and g = "\<lambda>l. listed_matches se q m (listing se q d l)",
          OF Suc.IH f(2), of "readable_children se l"]
      with Some v True ns f(1) show ?thesis by (simp add: listed_matches_concat)
    next
      case False
      have own: "listed_matches se q m (listing se q (Suc d) l) = own_matches se q m l nd"
        if "\<not> (is_directory nd \<and> \<not> skipped q l)"
        using that Some by (auto simp: listed_matches_def own_matches_def)
      show ?thesis
      proof (cases "v = SkipDir \<or> v = Continue")
        case True
        with False V(1) have "\<not> (is_directory nd \<and> \<not> skipped q l)" by auto
        from own [OF this] True False C Some v show ?thesis by (auto simp: capped_def)
      next
        case stop: False
        have "own_matches se q m l nd = [] \<or> \<not> (is_directory nd \<and> \<not> skipped q l)" by (auto simp: own_matches_def)
        then have "capped (q_max_results q) (found_so_far st @ listed_matches se q m (listing se q (Suc d) l)) (st', v)"
          using own C capped_more [of "q_max_results q" "found_so_far st" st' v] stop by auto
        with Some v stop show ?thesis by (cases v) simp_all
      qed
    qed
  qed
qed

lemma walk_dir_capped:
  assumes "0 \<le> q_max_results q"
  shows "capped (q_max_results q) (all_matches se q m) (walk_dir se q m)"
proof (cases "io_err (se_fs se) (comps (q_path q))")
  case None
  with walk_at_capped [of "\<lparr>found_so_far = [], visited = 0\<rparr>" q se m "depth_bound (se_fs se)" "comps (q_path q)"] assms
  show ?thesis by (simp add: walk_dir_def all_matches_def listed_matches_def Let_def)
qed (use assms in \<open>simp add: walk_dir_def all_matches_def Let_def capped_def\<close>)

subsection \<open>The listing\<close>

text \<open>The entries of the listing: all files below the root that no skipped or unreadable directory hides.\<close>

definition reachable_file :: "search_env \<Rightarrow> query \<Rightarrow> loc \<Rightarrow> loc \<Rightarrow> node \<Rightarrow> bool" where
  "reachable_file se q r l nd \<longleftrightarrow>
     nodes (se_fs se) l = Some nd \<and> \<not> is_directory nd \<and> \<not> is_link_at (se_fs se) l \<and> prefix r l \<and>
     (\<forall>k. prefix r k \<longrightarrow> prefix k l \<longrightarrow> \<not> skipped q k \<and>
        (k \<noteq> l \<longrightarrow> open_fault (se_env se) k = None \<and> io_err (se_fs se) k = None))"

lemma readable_children_iff:
  "l \<in> set (readable_children se r) \<longleftrightarrow>
    open_fault (se_env se) r = None \<and> io_err (se_fs se) r = None \<and> (\<exists>c. l = r @ [c] \<and> nodes (se_fs se) l \<noteq> None)"
  by (auto simp: readable_children_def children_iff)

lemma prefix_exists: "wf_fs fs \<Longrightarrow> nodes fs l \<noteq> None \<Longrightarrow> prefix r l \<Longrightarrow> nodes fs r \<noteq> None"
  using wf_prefix_dir [of fs r] by (cases "l = r") (auto simp: prefix_def is_dir_at_iff)

lemma reachable_file_child:
  assumes "wf_fs (se_fs se)" and "is_dir_at (se_fs se) r" and "\<not> skipped q r"
  shows "reachable_file se q r l nd \<longleftrightarrow> (\<exists>c. r @ [c] \<in> set (readable_children se r) \<and> reachable_file se q (r @ [c]) l nd)"
proof
  assume L: "reachable_file se q r l nd"
  have "l \<noteq> r" using L assms(2) by (auto simp: reachable_file_def is_dir_at_iff is_directory_def)
  moreover obtain ys where "l = r @ ys" using L by (auto simp: reachable_file_def prefix_def)
  ultimately obtain c zs where l: "l = r @ c # zs" by (cases ys) auto
  have "nodes (se_fs se) (r @ [c]) \<noteq> None"
    using wf_prefix_dir [OF assms(1), of "r @ [c]" zs] L l by (cases zs) (auto simp: reachable_file_def is_dir_at_iff)
  moreover have "open_fault (se_env se) r = None" "io_err (se_fs se) r = None"
    using L \<open>l \<noteq> r\<close> by (auto simp: reachable_file_def)
  moreover have "reachable_file se q (r @ [c]) l nd"
    using L l unfolding reachable_file_def by (auto dest: append_prefixD)
  ultimately show "\<exists>c. r @ [c] \<in> set (readable_children se r) \<and> reachable_file se q (r @ [c]) l nd"
    by (auto simp: readable_children_iff)
next
  assume "\<exists>c. r @ [c] \<in> set (readable_children se r) \<and> reachable_file se q (r @ [c]) l nd"
  then obtain c where c: "r @ [c] \<in> set (readable_children se r)" "reachable_file se q (r @ [c]) l nd" by blast
  then have l: "prefix (r @ [c]) l" by (simp add: reachable_file_def)
  have r: "open_fault (se_env se) r = None" "io_err (se_fs se) r = None"
    using c(1) by (simp_all add: readable_children_iff)
  have "\<not> skipped q k \<and> (k \<noteq> l \<longrightarrow> open_fault (se_env se) k = None \<and> io_err (se_fs se) k = None)"
    if k: "prefix r k" "prefix k l" for k
  proof (cases "k = r")
    case True
    with r assms(3) show ?thesis by simp
  next
    case False
    have "prefix k (r @ [c]) \<or> prefix (r @ [c]) k" using l k(2) prefix_same_cases by blast
    with False k(1) have "prefix (r @ [c]) k" by (auto dest: prefix_order.antisym)
    with c(2) k(2) show ?thesis by (simp add: reachable_file_def)
  qed
  with c(2) append_prefixD [OF l] show "reachable_file se q r l nd"
    by (simp add: reachable_file_def)
qed

lemma reachable_file_self:
  assumes "nodes (se_fs se) r = Some nd'" and "\<not> is_directory nd'" and "wf_fs (se_fs se)"
  shows "reachable_file se q r l nd \<longleftrightarrow> l = r \<and> nd = nd' \<and> \<not> skipped q r \<and> \<not> is_link_at (se_fs se) r"
proof -
  have "l = r" if "prefix r l" "nodes (se_fs se) l \<noteq> None"
    using that assms(1,2) wf_prefix_dir [OF assms(3), of r] by (fastforce simp: prefix_def is_dir_at_iff is_directory_def)
  then show ?thesis
    using assms(1,2) prefix_order.antisym by (fastforce simp: reachable_file_def)
qed

lemma listing_iff:
  assumes "wf_fs (se_fs se)"
  shows "(l, nd) \<in> set (listing se q d r) \<longleftrightarrow> reachable_file se q r l nd \<and> length l < length r + d"
proof (induction d arbitrary: r)
  case 0
  have "\<not> length l < length r" if "prefix r l" using that prefix_length_le by fastforce
  then show ?case by (auto simp: reachable_file_def)
next
  case (Suc d)
  show ?case
  proof (cases "nodes (se_fs se) r")
    case None
    then have "\<not> reachable_file se q r l nd"
      using prefix_exists [OF assms, of l r] by (auto simp: reachable_file_def)
    with None show ?thesis by simp
  next
    case (Some nd')
    show ?thesis
    proof (cases "skipped q r")
      case True
      then have "\<not> reachable_file se q r l nd" by (auto simp: reachable_file_def)
      with Some True show ?thesis by simp
    next
      case ns: False
      show ?thesis
      proof (cases "is_directory nd'")
        case True
        then have dir: "is_dir_at (se_fs se) r" using Some by (simp add: is_dir_at_def is_directory_def)
        have kids: "\<exists>c. k = r @ [c]" if "k \<in> set (readable_children se r)" for k
          using that by (auto simp: readable_children_iff)
        have "(l, nd) \<in> set (listing se q (Suc d) r) \<longleftrightarrow> (\<exists>k\<in>set (readable_children se r). (l, nd) \<in> set (listing se q d k))"
          using Some ns True by auto
        also have "\<dots> \<longleftrightarrow> (\<exists>c. r @ [c] \<in> set (readable_children se r) \<and> reachable_file se q (r @ [c]) l nd \<and> length l < Suc (length r) + d)"
          using kids by (fastforce simp: Suc.IH)
        finally show ?thesis using reachable_file_child [OF assms dir ns, of l nd] by auto
      next
        case False
        with Some ns reachable_file_self [OF Some False assms] show ?thesis
          by (auto simp: is_link_at_def split: node.splits)
      qed
    qed
  qed
qed

lemma fold_max_ge: "(x :: nat) \<in> set xs \<or> x \<le> a \<Longrightarrow> x \<le> fold max xs a"
proof (induction xs arbitrary: a)
  case (Cons y ys)
  have "x \<in> set ys \<or> x \<le> max y a" using Cons.prems by auto
  from Cons.IH [OF this] show ?case by simp
qed simp

lemma depth_bound: "nodes fs l \<noteq> None \<Longrightarrow> length l < depth_bound fs"
proof -
  assume "nodes fs l \<noteq> None"
  then have "length l \<in> set (map (length \<circ> fst) (tab fs))"
    by (force simp: nodes_def dest: map_of_SomeD)
  then show ?thesis unfolding depth_bound_def less_Suc_eq_le by (intro fold_max_ge) simp
qed

lemma full_listing_iff:
  assumes "wf_fs (se_fs se)"
  shows "(l, nd) \<in> set (listing se q (depth_bound (se_fs se)) r) \<longleftrightarrow> reachable_file se q r l nd"
  using depth_bound [of "se_fs se" l] by (auto simp: listing_iff [OF assms] reachable_file_def)

end
