(* ===== verification/SearchSessions.thy ===== *)
theory SearchSessions
  imports SearchWalk
begin

text \<open>
  The search sessions of \<^verbatim>\<open>internal/searchmgr/manager.go\<close> as a step relation: the goroutines of the
  searches interleave with the calls of the clients and with the timers.
\<close>

section \<open>Sessions\<close>

text \<open>
  The steps of a manager. The label of a step is the session from which it takes a page, if it
  does.
\<close>

inductive search_step :: "nat option \<Rightarrow> search_manager \<Rightarrow> search_manager \<Rightarrow> bool" where
  step_start: "search_step None m (snd (start_search se engine rand q m))"
| step_more: "lookup_session m sid = Some i \<Longrightarrow> search_step (Some i) m (snd (get_more m sid limit))"
| step_stop: "search_step None m (snd (stop_search m sid))"
| step_expire: "search_step None m (expire_search sid i m)"
| step_run: "search_step None m (run_step i m)"

fun adds :: "action list \<Rightarrow> found list" where
  "adds [] = []"
| "adds (AddFound v # as) = v # adds as"
| "adds (a # as) = adds as"

lemma adds_append [simp]: "adds (xs @ ys) = adds xs @ adds ys"
  by (induction xs rule: adds.induct) simp_all

lemma adds_map [simp]: "adds (map AddFound vs) = vs"
  by (induction vs) simp_all

text \<open>What holds of a session whose goroutine finds \<open>everything\<close>.\<close>

definition session_ok :: "found list \<Rightarrow> search_session \<Rightarrow> bool" where
  "session_ok everything s \<longleftrightarrow>
     results s @ adds (todo s) = everything \<and> next_ix s \<le> length (results s) \<and>
     (if s_done s then todo s = [] else \<exists>as. todo s = as @ [Finish] \<and> Finish \<notin> set as)"

definition one_action :: "search_session \<Rightarrow> search_session" where
  "one_action s = (case todo s of [] \<Rightarrow> s | a # as \<Rightarrow> act a (s\<lparr>todo := as\<rparr>))"

lemma run_step_alt: "run_step i = upd_session i one_action"
  by (simp add: run_step_def one_action_def fun_eq_iff upd_session_def)

lemma session_ok_action: "session_ok vs s \<Longrightarrow> session_ok vs (one_action s)"
proof (cases "todo s")
  case (Cons a as)
  assume "session_ok vs s"
  with Cons show ?thesis
    by (cases a; cases as rule: rev_cases)
      (auto simp: session_ok_def one_action_def Cons_eq_append_conv split: if_splits)
qed (simp add: one_action_def)

lemma session_ok_cancelled [simp]: "session_ok vs (s\<lparr>s_cancelled := b\<rparr>) = session_ok vs s"
  by (simp add: session_ok_def)

lemma run_actions_shape:
  "\<exists>as. run_actions se q m = as @ [Finish] \<and> Finish \<notin> set as \<and> adds as = found_so_far (fst (walk_dir se q m))"
  by (cases "walk_dir se q m") (force simp: run_actions_def)

lemma start_search_Inr:
  assumes "start_search se engine rand q m = (Inr sid, m')"
  obtains q' mt where "normalize_query q = Inr q'"
    "new_matcher (se_lower se) engine (q_pattern q') (q_regex q') (q_case q') = Inr mt"
    "int (active_sessions m) < max_sessions m"
    "m' = m\<lparr>sessions := AList.update sid (length (s_heap m)) (sessions m),
            s_heap := s_heap m @ [\<lparr>results = [], next_ix = 0, s_done = False, s_err = [], s_cancelled = False, todo = run_actions se q' mt\<rparr>]\<rparr>"
  using assms by (fastforce simp: start_search_def err_simps split: sum.splits if_splits prod.splits)

lemma start_search_Inl: "fst (start_search se engine rand q m) = Inl e \<Longrightarrow> snd (start_search se engine rand q m) = m"
  by (auto simp: start_search_def split: sum.splits if_splits prod.splits)

lemma get_more_Some:
  assumes "lookup_session m sid = Some i"
  shows "get_more m sid limit =
    (let s = s_heap m ! i; stop = min (next_ix s + page_limit limit) (length (results s))
     in (Inr \<lparr>mr_results = drop (next_ix s) (take stop (results s)), mr_done = (s_done s \<and> stop \<ge> length (results s)),
              mr_error = s_err s, mr_total = length (results s)\<rparr>, upd_session i (\<lambda>s. s\<lparr>next_ix := stop\<rparr>) m))"
  using assms by (simp add: get_more_def)

text \<open>A step acts on a session of the heap in one of a few ways.\<close>

lemma step_cell:
  assumes "search_step lab m m'" and "i < length (s_heap m)"
  shows "i < length (s_heap m') \<and>
    (s_heap m' ! i = s_heap m ! i \<or> s_heap m' ! i = one_action (s_heap m ! i) \<or> s_heap m' ! i = (s_heap m ! i)\<lparr>s_cancelled := True\<rparr> \<or>
     (lab = Some i \<and> (\<exists>k. s_heap m' ! i = (s_heap m ! i)\<lparr>next_ix := min (next_ix (s_heap m ! i) + k) (length (results (s_heap m ! i)))\<rparr>)))"
  using assms
proof (cases rule: search_step.cases)
  case (step_start se engine rand q)
  show ?thesis
  proof (cases "fst (start_search se engine rand q m)")
    case (Inl e)
    with step_start assms(2) show ?thesis by (simp add: start_search_Inl)
  next
    case (Inr sid)
    then have "start_search se engine rand q m = (Inr sid, m')" using step_start by (metis prod.collapse)
    then show ?thesis using assms(2) by (elim start_search_Inr) (simp add: nth_append)
  qed
next
  case (step_more sid j limit)
  with assms(2) show ?thesis
    by (cases "i = j") (auto simp: get_more_Some Let_def upd_session_def)
next
  case (step_stop sid)
  with assms(2) show ?thesis
    by (cases "lookup_session m sid = Some i") (auto simp: stop_search_def upd_session_def split: option.splits)
next
  case (step_expire sid j)
  with assms(2) show ?thesis
    by (cases "i = j") (auto simp: expire_search_def upd_session_def)
next
  case (step_run j)
  with assms(2) show ?thesis
    by (cases "i = j") (auto simp: run_step_alt upd_session_def)
qed

lemma step_session_ok:
  assumes "search_step lab m m'" and "i < length (s_heap m)" and "session_ok vs (s_heap m ! i)"
  shows "session_ok vs (s_heap m' ! i)"
proof -
  have paged: "session_ok vs ((s_heap m ! i)\<lparr>next_ix := min k (length (results (s_heap m ! i)))\<rparr>)" for k
    using assms(3) by (auto simp: session_ok_def)
  show ?thesis
    using step_cell [OF assms(1,2)] session_ok_action [OF assms(3)] assms(3) paged
    by (elim conjE disjE exE) simp_all
qed

lemma step_keeps_page:
  assumes "search_step lab m m'" and "i < length (s_heap m)" and "lab \<noteq> Some i" and "session_ok vs (s_heap m ! i)"
  shows "next_ix (s_heap m' ! i) = next_ix (s_heap m ! i) \<and> take (next_ix (s_heap m ! i)) (results (s_heap m' ! i)) = take (next_ix (s_heap m ! i)) (results (s_heap m ! i))"
proof -
  have "next_ix (one_action s) = next_ix s \<and> (next_ix s \<le> length (results s) \<longrightarrow> take (next_ix s) (results (one_action s)) = take (next_ix s) (results s))" for s
    by (cases "todo s"; cases "hd (todo s)") (auto simp: one_action_def)
  with step_cell [OF assms(1,2)] assms(3,4) show ?thesis by (auto simp: session_ok_def)
qed

text \<open>
  A client that pages through session \<open>i\<close> under the id \<open>sid\<close>, while anything else may go on: what it
  got so far, and whether the last page said that there is no more.
\<close>

inductive polls :: "nat \<Rightarrow> string \<Rightarrow> search_manager \<Rightarrow> found list \<Rightarrow> bool \<Rightarrow> search_manager \<Rightarrow> bool" for i sid m where
  polls_begin: "polls i sid m [] False m"
| polls_other: "polls i sid m got dn m' \<Longrightarrow> search_step lab m' m'' \<Longrightarrow> lab \<noteq> Some i \<Longrightarrow> polls i sid m got dn m''"
| polls_page: "polls i sid m got dn m' \<Longrightarrow> lookup_session m' sid = Some i \<Longrightarrow> get_more m' sid limit = (Inr r, m'') \<Longrightarrow>
    polls i sid m (got @ mr_results r) (mr_done r) m''"

lemma take_more: "k \<le> j \<Longrightarrow> take k xs @ drop k (take j xs) = take j xs"
  by (metis append_take_drop_id min_absorb1 take_take)

lemma polls_got:
  assumes "polls i sid m got dn m'" and "i < length (s_heap m)" and "session_ok vs (s_heap m ! i)" and "next_ix (s_heap m ! i) = 0"
  shows "i < length (s_heap m') \<and> session_ok vs (s_heap m' ! i) \<and>
    got = take (next_ix (s_heap m' ! i)) (results (s_heap m' ! i)) \<and> (dn \<longrightarrow> got = vs)"
  using assms
proof (induction rule: polls.induct)
  case polls_begin
  then show ?case by simp
next
  case (polls_other got dn m' lab m'')
  from polls_other.IH [OF polls_other.prems] have IH: "i < length (s_heap m')" "session_ok vs (s_heap m' ! i)"
    "got = take (next_ix (s_heap m' ! i)) (results (s_heap m' ! i))" "dn \<longrightarrow> got = vs" by blast+
  from step_cell [OF polls_other.hyps(2) IH(1)] step_session_ok [OF polls_other.hyps(2) IH(1,2)]
    step_keeps_page [OF polls_other.hyps(2) IH(1) polls_other.hyps(3) IH(2)] IH(3,4)
  show ?case by simp
next
  case (polls_page got dn m' limit r m'')
  from polls_page.IH [OF polls_page.prems] have IH: "i < length (s_heap m')" "session_ok vs (s_heap m' ! i)"
    "got = take (next_ix (s_heap m' ! i)) (results (s_heap m' ! i))" by blast+
  define s where "s = s_heap m' ! i"
  define stop where "stop = min (next_ix s + page_limit limit) (length (results s))"
  have r: "mr_results r = drop (next_ix s) (take stop (results s))" "mr_done r \<longleftrightarrow> s_done s \<and> stop \<ge> length (results s)"
    and m'': "m'' = upd_session i (\<lambda>s. s\<lparr>next_ix := stop\<rparr>) m'"
    using polls_page.hyps(2,3) by (auto simp: get_more_Some Let_def s_def stop_def)
  have c: "s_heap m'' ! i = s\<lparr>next_ix := stop\<rparr>" "i < length (s_heap m'')"
    using m'' IH(1) by (simp_all add: upd_session_def s_def)
  have ok: "session_ok vs s" using IH(2) by (simp add: s_def)
  then have "next_ix s \<le> stop" by (simp add: stop_def session_ok_def)
  then have got: "got @ mr_results r = take stop (results s)"
    using IH(3) r(1) take_more by (simp add: s_def)
  moreover have "take stop (results s) = vs" if "mr_done r"
    using that r(2) ok by (auto simp: session_ok_def)
  moreover have "session_ok vs (s\<lparr>next_ix := stop\<rparr>)"
    using ok by (auto simp: session_ok_def stop_def)
  ultimately show ?case using c by simp
qed

subsection \<open>Limits\<close>

definition search_inv :: "search_manager \<Rightarrow> bool" where
  "search_inv m \<longleftrightarrow> distinct (map fst (sessions m)) \<and> (\<forall>(k, i)\<in>set (sessions m). i < length (s_heap m)) \<and>
     int (active_sessions m) \<le> max_sessions m \<and>
     (\<forall>s\<in>set (s_heap m). \<exists>vs. session_ok vs s \<and> length vs \<le> 5000)"

lemma normalize_query_Inr:
  assumes "normalize_query q = Inr q'"
  shows "1 \<le> q_max_results q' \<and> q_max_results q' \<le> 5000 \<and> 1 \<le> q_max_file q' \<and> q_max_file q' \<le> 16777216 \<and>
    q_path q' = clean (q_path q) \<and> q_pattern q' = trim_space (q_pattern q) \<and> q_pattern q' \<noteq> [] \<and>
    q_type q' \<in> {''content'', ''files''}"
  using assms by (auto simp: normalize_query_def Let_def err_simps)

lemma walk_dir_found:
  assumes "0 \<le> q_max_results q"
  shows "prefix (found_so_far (fst (walk_dir se q m))) (take (nat (q_max_results q)) (all_matches se q m))"
    and "(\<forall>c. snd (walk_dir se q m) \<noteq> Stopped c) \<Longrightarrow>
      found_so_far (fst (walk_dir se q m)) = take (nat (q_max_results q)) (all_matches se q m)"
proof -
  have cut: "prefix xs (take n ys)" if "prefix xs ys" "length xs \<le> n" for xs ys :: "found list" and n
    using that by (auto simp: prefix_def)
  note C = walk_dir_capped [OF assms, of se m]
  show "prefix (found_so_far (fst (walk_dir se q m))) (take (nat (q_max_results q)) (all_matches se q m))"
    using C assms cut by (cases "snd (walk_dir se q m)") (auto simp: capped_def)
  show "found_so_far (fst (walk_dir se q m)) = take (nat (q_max_results q)) (all_matches se q m)"
    if "\<forall>c. snd (walk_dir se q m) \<noteq> Stopped c"
    using C that assms by (cases "snd (walk_dir se q m)") (auto simp: capped_def)
qed

lemma new_session_ok:
  assumes "normalize_query q = Inr q'"
  shows "session_ok (found_so_far (fst (walk_dir se q' mt)))
      \<lparr>results = [], next_ix = 0, s_done = False, s_err = [], s_cancelled = False, todo = run_actions se q' mt\<rparr>"
    and "length (found_so_far (fst (walk_dir se q' mt))) \<le> 5000"
proof -
  show "session_ok (found_so_far (fst (walk_dir se q' mt)))
      \<lparr>results = [], next_ix = 0, s_done = False, s_err = [], s_cancelled = False, todo = run_actions se q' mt\<rparr>"
    using run_actions_shape [of se q' mt] by (auto simp: session_ok_def)
  note N = normalize_query_Inr [OF assms]
  then have "length (found_so_far (fst (walk_dir se q' mt))) \<le> nat (q_max_results q')"
    using prefix_length_le [OF walk_dir_found(1) [of q' se mt]] by simp
  with N show "length (found_so_far (fst (walk_dir se q' mt))) \<le> 5000" by linarith
qed

lemma filter_update_length: "length (filter P (AList.update k v xs)) \<le> Suc (length (filter P xs))"
  by (induction xs) auto

lemma update_entries: "set (AList.update k v xs) \<subseteq> insert (k, v) (set xs)"
  by (induction xs) auto

lemma filter_length_mono: "(\<And>x. P x \<Longrightarrow> Q x) \<Longrightarrow> length (filter P xs) \<le> length (filter Q xs)"
  by (induction xs) auto

lemma active_upd:
  assumes "\<And>s. s_done s \<Longrightarrow> s_done (f s)"
  shows "active_sessions (upd_session i f m) \<le> active_sessions m"
proof -
  have "s_done (s_heap m ! j) \<Longrightarrow> s_done (s_heap (upd_session i f m) ! j)" for j
    using assms by (cases "i < length (s_heap m)") (auto simp: upd_session_def nth_list_update list_update_beyond)
  then show ?thesis
    by (auto simp: active_sessions_def upd_session_def intro!: filter_length_mono)
qed

lemma one_action_done: "s_done s \<Longrightarrow> s_done (one_action s)"
  by (cases "todo s"; cases "hd (todo s)") (auto simp: one_action_def)

lemma upd_session_sel [simp]:
  "sessions (upd_session i f m) = sessions m" "max_sessions (upd_session i f m) = max_sessions m"
  "length (s_heap (upd_session i f m)) = length (s_heap m)"
  by (simp_all add: upd_session_def)

lemma search_inv_upd:
  assumes "search_inv m" and "\<And>s. s_done s \<Longrightarrow> s_done (f s)" and "\<And>vs s. session_ok vs s \<Longrightarrow> session_ok vs (f s)"
  shows "search_inv (upd_session i f m)"
proof -
  have "\<exists>vs. session_ok vs s \<and> length vs \<le> 5000" if "s \<in> set (s_heap (upd_session i f m))" for s
  proof (cases "i < length (s_heap m)")
    case True
    with that have "s = f (s_heap m ! i) \<or> s \<in> set (s_heap m)"
      by (auto simp: upd_session_def dest: subsetD [OF set_update_subset_insert])
    with assms(1,3) True show ?thesis by (auto simp: search_inv_def) (metis nth_mem)
  next
    case False
    with that assms(1) show ?thesis by (simp add: upd_session_def search_inv_def list_update_beyond)
  qed
  with assms(1) active_upd [of f i m, OF assms(2)] show ?thesis by (auto simp: search_inv_def)
qed

lemma search_inv_step:
  assumes "search_step lab m m'" and "search_inv m"
  shows "search_inv m'"
  using assms(1)
proof (cases rule: search_step.cases)
  case (step_start se engine rand q)
  show ?thesis
  proof (cases "fst (start_search se engine rand q m)")
    case (Inl e)
    with step_start assms(2) show ?thesis by (simp add: start_search_Inl)
  next
    case (Inr sid)
    then have "start_search se engine rand q m = (Inr sid, m')" using step_start by (metis prod.collapse)
    then obtain q' mt where s: "normalize_query q = Inr q'" "int (active_sessions m) < max_sessions m"
      and m': "m' = m\<lparr>sessions := AList.update sid (length (s_heap m)) (sessions m),
            s_heap := s_heap m @ [\<lparr>results = [], next_ix = 0, s_done = False, s_err = [], s_cancelled = False, todo = run_actions se q' mt\<rparr>]\<rparr>"
      by (elim start_search_Inr)
    note sub = update_entries [of sid "length (s_heap m)" "sessions m"]
    have "filter (\<lambda>(k, i). \<not> s_done (s_heap m' ! i)) (sessions m) = filter (\<lambda>(k, i). \<not> s_done (s_heap m ! i)) (sessions m)"
      using assms(2) m' by (intro filter_cong) (auto simp: search_inv_def nth_append)
    then have "active_sessions m' \<le> Suc (active_sessions m)"
      using filter_update_length [of "\<lambda>(k, i). \<not> s_done (s_heap m' ! i)" sid "length (s_heap m)" "sessions m"] m'
      by (simp add: active_sessions_def)
    with s assms(2) m' sub new_session_ok [OF s(1), of se mt] show ?thesis
      by (fastforce simp: search_inv_def distinct_update)
  qed
next
  case (step_more sid i limit)
  let ?s = "s_heap m ! i"
  have "search_inv (upd_session i (\<lambda>s. s\<lparr>next_ix := min (next_ix s + page_limit limit) (length (results s))\<rparr>) m)"
    by (rule search_inv_upd [OF assms(2)]) (auto simp: session_ok_def)
  with step_more show ?thesis by (simp add: get_more_Some Let_def upd_session_def)
next
  case (step_stop sid)
  then show ?thesis
    using search_inv_upd [OF assms(2), of "\<lambda>s. s\<lparr>s_cancelled := True\<rparr>"] assms(2)
    by (auto simp: stop_search_def split: option.splits)
next
  case (step_expire sid i)
  have "active_sessions (m\<lparr>sessions := AList.delete sid (sessions m)\<rparr>) \<le> active_sessions m"
    by (auto simp: active_sessions_def AList.delete_eq intro!: filter_length_mono)
  then have "search_inv (m\<lparr>sessions := AList.delete sid (sessions m)\<rparr>)"
    using assms(2) by (auto simp: search_inv_def AList.delete_eq distinct_map_filter)
  with step_expire assms(2) search_inv_upd [of _ "\<lambda>s. s\<lparr>s_cancelled := True\<rparr>" i] show ?thesis
    by (auto simp: expire_search_def)
next
  case (step_run i)
  with search_inv_upd [OF assms(2) one_action_done session_ok_action] show ?thesis by (simp add: run_step_alt)
qed

lemma session_ok_more: "session_ok vs s \<Longrightarrow> session_ok vs (s\<lparr>next_ix := min n (length (results s))\<rparr>)"
  by (simp add: session_ok_def)

lemma todo_action: "length (todo (one_action s)) \<le> length (todo s)"
  by (cases "todo s"; cases "hd (todo s)") (auto simp: one_action_def)

lemma action_progress:
  assumes "session_ok vs s" and "\<not> s_done s"
  shows "length (todo s) = Suc (length (todo (one_action s)))"
  using assms by (cases "todo s"; cases "hd (todo s)") (auto simp: one_action_def session_ok_def)

lemma run_to_end:
  assumes "i < length (s_heap m)" and "session_ok vs (s_heap m ! i)"
  shows "s_done (s_heap ((run_step i ^^ length (todo (s_heap m ! i))) m) ! i)"
  using assms
proof (induction "length (todo (s_heap m ! i))" arbitrary: m)
  case 0
  then show ?case by (auto simp: session_ok_def split: if_splits)
next
  case (Suc n)
  show ?case
  proof (cases "s_done (s_heap m ! i)")
    case True
    with Suc.prems Suc.hyps(2) show ?thesis by (simp add: session_ok_def)
  next
    case False
    have cell: "s_heap (run_step i m) ! i = one_action (s_heap m ! i)"
      using Suc.prems(1) by (simp add: run_step_alt upd_session_def)
    then have "length (todo (s_heap (run_step i m) ! i)) = n"
      using action_progress [OF Suc.prems(2) False] Suc.hyps(2) by simp
    moreover have "s_done (s_heap ((run_step i ^^ length (todo (s_heap (run_step i m) ! i))) (run_step i m)) ! i)"
      using Suc.prems \<open>length (todo (s_heap (run_step i m) ! i)) = n\<close> cell
      by (intro Suc.hyps(1)) (simp_all add: session_ok_action, simp add: run_step_alt)
    ultimately show ?thesis
      unfolding Suc.hyps(2) [symmetric] by (simp add: funpow_swap1)
  qed
qed

section \<open>Properties\<close>

text \<open>A directory with a hidden file, two text files and a symbolic link, searched for a word.\<close>

definition demo_search_env :: search_env where
  "demo_search_env =
     \<lparr>se_fs = demo_fs\<lparr>tab := [([], Directory demo_meta), ([''r''], Directory demo_meta),
        ([''r'', ''.h''], File demo_meta (bytes_of_string ''word'')),
        ([''r'', ''x''], File demo_meta (bytes_of_string ''a word'')),
        ([''r'', ''y''], File demo_meta (bytes_of_string ''Word word'')),
        ([''r'', ''z''], Link demo_meta ''x'')]\<rparr>,
      se_env = \<lparr>now = 7, tmp_random = [], create_fault = None, chmod_fault = None, write_fault = None, sync_fault = None,
        close_fault = None, rename_fault = None, remove_fault = None, open_fault = (\<lambda>_. None), read_fault = (\<lambda>_. None),
        special_data = (\<lambda>_. []), other_size = (\<lambda>_. 0)\<rparr>,
      se_lower = (\<lambda>s. s), se_ctx = (\<lambda>_. None), se_ctx_end = None\<rparr>"

definition demo_query :: query where
  "demo_query = \<lparr>q_path = ''/r'', q_pattern = ''WORD'', q_type = [], q_regex = False, q_case = False, q_hidden = False,
     q_max_results = 0, q_max_file = 0\<rparr>"

lemma wf_demo_search: "wf_fs (se_fs demo_search_env)"
  by (auto simp: wf_fs_def nodes_def demo_search_env_def demo_fs_def is_dir_at_def name_ok_def is_abs_def append_eq_Cons_conv
      split: if_splits)

text \<open>
  C33. A search finds what it should. Unless its context ends first, the results of a search are the
  matches of the reference, in its order, cut at the limit, and always they begin with them. The
  reference goes through the files below the root that no unreadable directory and, unless asked
  for, no hidden entry keeps from view, and symbolic links are not followed: its listing consists
  of exactly these files. So nothing outside the root is ever reported.
\<close>

theorem search_exact:
  assumes "wf_fs (se_fs se)" and "normalize_query q0 = Inr q"
  shows "prefix (found_so_far (fst (walk_dir se q m))) (take (nat (q_max_results q)) (all_matches se q m)) \<and>
    ((\<forall>c. snd (walk_dir se q m) \<noteq> Stopped c) \<longrightarrow>
       found_so_far (fst (walk_dir se q m)) = take (nat (q_max_results q)) (all_matches se q m)) \<and>
    set (listing se q (depth_bound (se_fs se)) (comps (q_path q))) =
      {(l, nd). reachable_file se q (comps (q_path q)) l nd} \<and>
    (\<forall>v\<in>set (found_so_far (fst (walk_dir se q m))). \<exists>l nd. reachable_file se q (comps (q_path q)) l nd \<and>
       f_path v = path_of l \<and> v \<in> set (file_matches se q m l nd))"
proof -
  have pos: "0 \<le> q_max_results q" using normalize_query_Inr [OF assms(2)] by simp
  note F = walk_dir_found [OF pos, of se m]
  have L: "set (listing se q (depth_bound (se_fs se)) (comps (q_path q))) = {(l, nd). reachable_file se q (comps (q_path q)) l nd}"
    using full_listing_iff [OF assms(1)] by auto
  have lm: "f_path v = path" if "v \<in> set (line_matches f path i ls)" for v f path i ls
    using that by (induction f path i ls rule: line_matches.induct) (auto split: option.splits)
  have fm: "f_path v = path_of l" if "v \<in> set (file_matches se q m l nd)" for v l nd
    using that lm by (auto simp: file_matches_def split: if_splits option.splits)
  have "set (found_so_far (fst (walk_dir se q m))) \<subseteq> set (all_matches se q m)"
    using F(1) set_mono_prefix [OF F(1)] set_take_subset by fastforce
  moreover have "\<exists>l nd. reachable_file se q (comps (q_path q)) l nd \<and> v \<in> set (file_matches se q m l nd)"
    if "v \<in> set (all_matches se q m)" for v
    using that L by (fastforce simp: all_matches_def split: if_splits)
  ultimately show ?thesis using F L fm by blast
qed

theorem search_exact_witness:
  "case normalize_query demo_query of Inl _ \<Rightarrow> False
   | Inr q \<Rightarrow> map (\<lambda>v. (f_path v, f_column v)) (found_so_far (fst (walk_dir demo_search_env q (Literal ''word'' False)))) =
       [(''/r/x'', 3), (''/r/y'', 1)] \<and>
       found_so_far (fst (walk_dir demo_search_env q (Literal ''word'' False))) = all_matches demo_search_env q (Literal ''word'' False)"
proof -
  define q where "q = projr (normalize_query demo_query)"
  have n: "normalize_query demo_query = Inr q" unfolding q_def by code_simp
  let ?w = "walk_dir demo_search_env (projr (normalize_query demo_query)) (Literal ''word'' False)"
  have r: "map (\<lambda>v. (f_path v, f_column v)) (found_so_far (fst ?w)) = [(''/r/x'', 3), (''/r/y'', 1)]"
    "case snd ?w of Stopped _ \<Rightarrow> False | _ \<Rightarrow> True" "q_max_results (projr (normalize_query demo_query)) = 1000"
    "length (all_matches demo_search_env (projr (normalize_query demo_query)) (Literal ''word'' False)) = 2"
    by code_simp+
  note r = this [folded q_def]
  have "\<forall>c. snd (walk_dir demo_search_env q (Literal ''word'' False)) \<noteq> Stopped c" using r(2) by auto
  with search_exact [OF wf_demo_search n, of "Literal ''word'' False"] r show ?thesis by (simp add: n)
qed

text \<open>
  C34. Paging through a search gives every result once. Take the session that a successful start
  creates. Whatever the search itself, other clients and the timers do in between, the pages that
  GetMore returns for it, put together, are the first results of the search, without gap or
  repetition; and when a page says that it is the last, they are all of them.
\<close>

theorem search_pages_exact:
  assumes "start_search se engine rand q0 m = (Inr sid, m1)" and "polls (length (s_heap m)) sid m1 got dn m2"
  shows "\<exists>q mt. normalize_query q0 = Inr q \<and> new_matcher (se_lower se) engine (q_pattern q) (q_regex q) (q_case q) = Inr mt \<and>
    prefix got (found_so_far (fst (walk_dir se q mt))) \<and> (dn \<longrightarrow> got = found_so_far (fst (walk_dir se q mt)))"
  using assms(1)
proof (cases rule: start_search_Inr)
  case (1 q mt)
  let ?i = "length (s_heap m)"
  have c: "?i < length (s_heap m1)" "session_ok (found_so_far (fst (walk_dir se q mt))) (s_heap m1 ! ?i)" "next_ix (s_heap m1 ! ?i) = 0"
    using new_session_ok(1) [OF 1(1)] by (simp_all add: 1(4))
  note P = polls_got [OF assms(2) c]
  then have "prefix (results (s_heap m2 ! ?i)) (found_so_far (fst (walk_dir se q mt)))"
    by (metis session_ok_def prefixI)
  with P have "prefix got (found_so_far (fst (walk_dir se q mt)))"
    by (metis prefix_order.trans take_is_prefix)
  with P 1(1,2) show ?thesis by blast
qed

definition demo_search_started :: search_manager where
  "demo_search_started = snd (start_search demo_search_env (\<lambda>p. Inl (ErrMsg p)) (Some [1, 2]) demo_query (new_search_manager 1))"

definition demo_search_ended :: search_manager where
  "demo_search_ended = (run_step 0 ^^ 3) demo_search_started"

theorem search_pages_exact_witness:
  "let r1 = get_more demo_search_ended ''search_0102'' 1; r2 = get_more (snd r1) ''search_0102'' 1
   in mr_results (projr (fst r1)) @ mr_results (projr (fst r2)) =
        found_so_far (fst (walk_dir demo_search_env (projr (normalize_query demo_query)) (Literal ''word'' False))) \<and>
      mr_done (projr (fst r2))"
proof -
  let ?m0 = "new_search_manager 1" and ?r1 = "get_more demo_search_ended ''search_0102'' 1"
  let ?r2 = "get_more (snd ?r1) ''search_0102'' 1"
  have q: "normalize_query demo_query = Inr (projr (normalize_query demo_query))"
    "fst (start_search demo_search_env (\<lambda>p. Inl (ErrMsg p)) (Some [1, 2]) demo_query ?m0) = Inr ''search_0102''"
    "lookup_session demo_search_ended ''search_0102'' = Some 0" "lookup_session (snd ?r1) ''search_0102'' = Some 0"
    "\<not> isl (fst ?r1)" "\<not> isl (fst ?r2)" "mr_done (projr (fst ?r2))" "length (s_heap ?m0) = 0"
    "q_regex (projr (normalize_query demo_query)) = False" "q_case (projr (normalize_query demo_query)) = False"
    "to_lower (se_lower demo_search_env) (q_pattern (projr (normalize_query demo_query))) = ''word''"
    by code_simp+
  have start: "start_search demo_search_env (\<lambda>p. Inl (ErrMsg p)) (Some [1, 2]) demo_query ?m0 = (Inr ''search_0102'', demo_search_started)"
    using q(2) unfolding demo_search_started_def by (metis prod.collapse)
  have "polls 0 ''search_0102'' demo_search_started [] False ((run_step 0 ^^ n) demo_search_started)" for n
    by (induction n) (auto intro: polls_begin polls_other step_run)
  then have p: "polls 0 ''search_0102'' demo_search_started [] False demo_search_ended" by (simp add: demo_search_ended_def)
  have "?r1 = (Inr (projr (fst ?r1)), snd ?r1)" "?r2 = (Inr (projr (fst ?r2)), snd ?r2)"
    using q(5,6) by (metis prod.collapse sum.collapse(2))+
  from polls_page [OF polls_page [OF p q(3) this(1)] q(4) this(2)]
  have "polls (length (s_heap ?m0)) ''search_0102'' demo_search_started (mr_results (projr (fst ?r1)) @ mr_results (projr (fst ?r2))) True (snd ?r2)"
    using q(7,8) by simp
  from search_pages_exact [OF start this] q(1,7,9-11) show ?thesis by (auto simp: Let_def new_matcher_def)
qed

text \<open>
  The limits of the search manager hold in every state it can reach: the sessions that are still
  searching are at most the configured number (8 when none is configured), every id leads to a
  session of its own time, and no session ever holds more than 5000 results or has handed out more
  than it holds.
\<close>

theorem search_limits:
  assumes "(\<lambda>m m'. \<exists>lab. search_step lab m m')\<^sup>*\<^sup>* (new_search_manager n) m"
  shows "int (active_sessions m) \<le> (if n \<le> 0 then 8 else n) \<and>
    list_all (\<lambda>(sid, i). i < length (s_heap m)) (sessions m) \<and>
    list_all (\<lambda>s. length (results s) \<le> 5000 \<and> next_ix s \<le> length (results s)) (s_heap m)"
proof -
  have "search_inv m \<and> max_sessions m = (if n \<le> 0 then 8 else n)"
    using assms
  proof (induction rule: rtranclp_induct)
    case base
    show ?case by (simp add: search_inv_def new_search_manager_def active_sessions_def)
  next
    case (step m m')
    then obtain lab where "search_step lab m m'" by blast
    then have "max_sessions m' = max_sessions m"
      by (cases rule: search_step.cases)
        (auto simp: start_search_def get_more_def stop_search_def expire_search_def run_step_def Let_def split: sum.splits option.splits prod.splits)
    with step search_inv_step show ?case by auto
  qed
  moreover have "length (results s) \<le> 5000 \<and> next_ix s \<le> length (results s)" if "session_ok vs s" "length vs \<le> 5000" for s vs
    using that by (auto simp: session_ok_def)
  ultimately show ?thesis by (fastforce simp: search_inv_def list_all_iff)
qed

theorem search_limits_witness:
  "int (active_sessions demo_search_started) = 1 \<and> int (active_sessions demo_search_started) \<le> 1"
proof -
  have "(\<lambda>m m'. \<exists>lab. search_step lab m m')\<^sup>*\<^sup>* (new_search_manager 1) demo_search_started"
    unfolding demo_search_started_def by (blast intro: step_start)
  from search_limits [OF this] show ?thesis
    by (intro conjI) (code_simp, simp)
qed



end
