(* ===== verification/Ring.thy ===== *)
theory Ring
  imports Prelude
begin

text \<open>
  The bounded output buffer of a process session (\<^verbatim>\<open>ring\<close> in
  \<^verbatim>\<open>internal/processmgr/manager.go\<close>), and its specification: the stream of all bytes ever
  written, of which the buffer holds the last ones, addressed by absolute positions.
\<close>

section \<open>Definitions\<close>

record ring =
  rdata :: bytes
  rbase :: int
  rmax :: int

definition ring_write :: "ring \<Rightarrow> bytes \<Rightarrow> ring" where
  "ring_write r p =
     (if rmax r \<le> 0 then r
      else if int (length p) \<ge> rmax r
      then r\<lparr>rbase := wrap64 (rbase r + (int (length (rdata r)) + int (length p) - rmax r)),
             rdata := drop (length p - nat (rmax r)) p\<rparr>
      else
        (let d = rdata r @ p
         in if int (length d) > rmax r
            then r\<lparr>rdata := drop (length d - nat (rmax r)) d,
                   rbase := wrap64 (rbase r + int (length d - nat (rmax r)))\<rparr>
            else r\<lparr>rdata := d\<rparr>))"

definition ring_read :: "ring \<Rightarrow> int \<Rightarrow> nat \<Rightarrow> bytes \<times> int \<times> bool" where
  "ring_read r cursor limit =
     (let truncated = (cursor < rbase r);
          c1 = (if cursor < rbase r then rbase r else cursor);
          stop = wrap64 (rbase r + int (length (rdata r)));
          c2 = (if c1 > stop then stop else c1);
          startIdx = nat (c2 - rbase r);
          available = min (length (rdata r) - startIdx) limit
      in (take available (drop startIdx (rdata r)), wrap64 (c2 + int available), truncated))"

definition ring_new :: "int \<Rightarrow> ring" where
  "ring_new m = \<lparr>rdata = [], rbase = 0, rmax = m\<rparr>"

text \<open>
  The specification: \<open>s\<close> is everything written so far. The buffer holds its last \<open>rmax\<close> bytes;
  a buffer without capacity holds nothing and counts nothing.
\<close>

definition ring_holds :: "ring \<Rightarrow> bytes \<Rightarrow> bool" where
  "ring_holds r s =
     (if rmax r \<le> 0 then rdata r = [] \<and> rbase r = 0
      else rdata r = drop (length s - nat (rmax r)) s \<and>
           rbase r = int (length s - nat (rmax r)))"

section \<open>Lemmas\<close>

lemma ring_holds_new: "ring_holds (ring_new m) []"
  by (simp add: ring_holds_def ring_new_def)

lemma rmax_ring_write [simp]: "rmax (ring_write r p) = rmax r"
  by (simp add: ring_write_def Let_def)

lemma ring_write_holds:
  assumes "ring_holds r s" and "length s + length p < 2 ^ 63"
  shows "ring_holds (ring_write r p) (s @ p)"
proof (cases "rmax r \<le> 0")
  case True
  with assms(1) show ?thesis by (simp add: ring_holds_def ring_write_def)
next
  case False
  then obtain n where n: "rmax r = int n" "0 < n"
    using zero_less_imp_eq_int [of "rmax r"] by auto
  from assms(1) False n have d: "rdata r = drop (length s - n) s" and b: "rbase r = int (length s - n)"
    by (simp_all add: ring_holds_def)
  consider "length p \<ge> n" | "length p < n" "length (rdata r @ p) > n" | "length p < n" "length (rdata r @ p) \<le> n"
    by linarith
  then show ?thesis
  proof cases
    case 1
    then have "rbase r + (int (length (rdata r)) + int (length p) - rmax r) = int (length (s @ p) - n)"
      using d b n by (auto simp: of_nat_diff)
    with 1 n assms(2) show ?thesis
      by (simp add: ring_holds_def ring_write_def)
  next
    case 2
    then have "rbase r + int (length (rdata r @ p) - n) = int (length (s @ p) - n)"
      using d b n by (cases "length s \<le> n") (auto simp: of_nat_diff)
    with 2 n d assms(2) show ?thesis
      by (simp add: ring_holds_def ring_write_def)
  next
    case 3
    with n d b show ?thesis
      by (cases "length s \<le> n") (auto simp: ring_holds_def ring_write_def)
  qed
qed

lemma ring_read_holds:
  assumes "ring_holds r s" and "length s < 2 ^ 63" and "0 < rmax r"
  shows "ring_read r cursor limit =
    (let lo = int (length s - nat (rmax r)); c = max lo (min cursor (int (length s)))
     in (take limit (drop (nat c) s), c + int (min limit (length s - nat c)), cursor < lo))"
proof -
  define n where "n = nat (rmax r)"
  define lo where "lo = length s - n"
  define c where "c = max (int lo) (min cursor (int (length s)))"
  have d: "rdata r = drop lo s" and b: "rbase r = int lo"
    using assms(1,3) by (simp_all add: ring_holds_def lo_def n_def)
  have le: "lo \<le> length s" by (simp add: lo_def)
  then have stop: "wrap64 (rbase r + int (length (rdata r))) = int (length s)"
    using assms(2) d b by simp
  have c2: "(let c1 = (if cursor < rbase r then rbase r else cursor) in if c1 > int (length s) then int (length s) else c1) = c"
    using b le by (simp add: c_def Let_def)
  have c: "int lo \<le> c" "c \<le> int (length s)"
    using le by (simp_all add: c_def)
  define k where "k = nat c"
  have k: "c = int k" "lo \<le> k" "k \<le> length s"
    using c by (simp_all add: k_def)
  have "ring_read r cursor limit =
    (take (min (length (rdata r) - (k - lo)) limit) (drop (k - lo) (rdata r)),
     wrap64 (int k + int (min (length (rdata r) - (k - lo)) limit)), cursor < int lo)"
    using c2 stop k b by (simp add: ring_read_def Let_def nat_diff_distrib')
  also have "length (rdata r) - (k - lo) = length s - k"
    using d k by simp
  also have "drop (k - lo) (rdata r) = drop k s"
    using d k by simp
  also have "wrap64 (int k + int (min (length s - k) limit)) = int k + int (min limit (length s - k))"
    using assms(2) k by (subst wrap64_id) (auto simp: min_def)
  also have "take (min (length s - k) limit) (drop k s) = take limit (drop k s)"
    by (simp add: min_def)
  finally show ?thesis
    using k(1) by (simp add: Let_def c_def lo_def n_def)
qed

text \<open>
  A reader that polls: an interleaving of writes and reads, in which each read continues at the
  cursor the previous one returned. The result lists what each read returned and whether it
  reported a gap.
\<close>

datatype ring_op = RWrite bytes | RRead nat

fun poll :: "ring \<Rightarrow> int \<Rightarrow> ring_op list \<Rightarrow> (bytes \<times> bool) list \<times> ring \<times> int" where
  "poll r cursor [] = ([], r, cursor)"
| "poll r cursor (RWrite p # ops) = poll (ring_write r p) cursor ops"
| "poll r cursor (RRead limit # ops) =
     (case ring_read r cursor limit of (d, next, trunc) \<Rightarrow>
        case poll r next ops of (rs, r', c') \<Rightarrow> ((d, trunc) # rs, r', c'))"

fun written :: "ring_op list \<Rightarrow> bytes" where
  "written [] = []"
| "written (RWrite p # ops) = p @ written ops"
| "written (RRead limit # ops) = written ops"

lemma poll_exact:
  assumes "ring_holds r s" and "0 < rmax r" and "length s + length (written ops) < 2 ^ 63"
    and "poll r (int k) ops = (rs, r', c')" and "\<forall>(d, trunc) \<in> set rs. \<not> trunc" and "k \<le> length s"
  shows "ring_holds r' (s @ written ops) \<and> 0 \<le> c' \<and> nat c' \<le> length (s @ written ops) \<and>
    take k s @ concat (map fst rs) = take (nat c') (s @ written ops)"
  using assms
proof (induction ops arbitrary: r s k rs)
  case Nil
  then show ?case by auto
next
  case (Cons op ops)
  show ?case
  proof (cases op)
    case (RWrite p)
    have "ring_holds (ring_write r p) (s @ p)"
      using Cons.prems RWrite by (intro ring_write_holds) auto
    with Cons.IH [of "ring_write r p" "s @ p" k rs] Cons.prems RWrite show ?thesis
      by simp
  next
    case (RRead limit)
    define j where "j = k + min limit (length s - k)"
    have l: "length s < 2 ^ 63"
      using Cons.prems(3) by linarith
    have "\<not> snd (snd (ring_read r (int k) limit))"
      using Cons.prems(4,5) RRead by (auto split: prod.splits)
    then have "int (length s - nat (rmax r)) \<le> int k"
      unfolding ring_read_holds [OF Cons.prems(1) l Cons.prems(2)] by (simp add: Let_def)
    then have rd: "ring_read r (int k) limit = (take limit (drop k s), int j, False)"
      using Cons.prems(6) unfolding ring_read_holds [OF Cons.prems(1) l Cons.prems(2)]
      by (simp add: Let_def j_def)
    with Cons.prems(4) RRead obtain rs' where rs: "rs = (take limit (drop k s), False) # rs'"
      and p: "poll r (int j) ops = (rs', r', c')"
      by (auto split: prod.splits)
    have "take j s = take k s @ take limit (drop k s)"
      by (simp add: j_def take_add min_def)
    moreover have "ring_holds r' (s @ written ops) \<and> 0 \<le> c' \<and> nat c' \<le> length (s @ written ops) \<and>
        take j s @ concat (map fst rs') = take (nat c') (s @ written ops)"
    proof (rule Cons.IH [OF Cons.prems(1,2) _ p])
      show "length s + length (written ops) < 2 ^ 63"
        using Cons.prems(3) RRead by simp
      show "\<forall>(d, trunc) \<in> set rs'. \<not> trunc"
        using Cons.prems(5) rs by simp
      show "j \<le> length s"
        using Cons.prems(6) by (simp add: j_def)
    qed
    ultimately show ?thesis
      using rs RRead by simp
  qed
qed

lemma ring_writes_hold:
  assumes "ring_holds r s" and "length s + length (concat ws) < 2 ^ 63"
  shows "ring_holds (foldl ring_write r ws) (s @ concat ws)"
  using assms
proof (induction ws arbitrary: r s)
  case (Cons w ws)
  then have "ring_holds (ring_write r w) (s @ w)"
    by (intro ring_write_holds) auto
  from Cons.IH [OF this] Cons.prems show ?case by simp
qed simp

lemma rmax_ring_writes [simp]: "rmax (foldl ring_write r ws) = rmax r"
  by (induction ws arbitrary: r) simp_all

section \<open>Properties\<close>

text \<open>
  C19. The buffer implements a window on the stream: after any writes (of fewer than \<open>2\<^sup>6\<^sup>3\<close> bytes in
  all) a read at an absolute position returns the bytes of the stream from that position on, moved
  into the window of the last \<open>m\<close> bytes if it lies outside, at most \<open>limit\<close> of them; it returns the
  position behind them, and reports a gap exactly when bytes from the cursor on have been dropped.
\<close>

theorem ring_read_stream:
  assumes "0 < m" and "length (concat ws) < 2 ^ 63"
  shows "ring_read (foldl ring_write (ring_new m) ws) cursor limit =
    (let s = concat ws; lo = int (length s - nat m); c = max lo (min cursor (int (length s)))
     in (take limit (drop (nat c) s), c + int (min limit (length s - nat c)), cursor < lo))"
proof -
  have "ring_holds (foldl ring_write (ring_new m) ws) (concat ws)"
    using ring_writes_hold [OF ring_holds_new, of ws m] assms(2) by simp
  from ring_read_holds [OF this assms(2)] assms(1) show ?thesis
    by (simp add: Let_def ring_new_def)
qed

theorem ring_read_stream_witness:
  "ring_read (foldl ring_write (ring_new 4) [[1, 2, 3], [4, 5], [6]]) 1 10 = ([3, 4, 5, 6], 6, True)"
  by (subst ring_read_stream) (simp_all add: Let_def)

text \<open>
  Polling loses nothing unnoticed: a reader that starts at position 0 and always continues at
  the cursor it was given, interleaved in any way with writes, has received exactly the first
  bytes of the stream up to its cursor, unless one of its reads reported a gap.
\<close>

theorem polling_gets_stream:
  assumes "poll (ring_new m) 0 ops = (rs, r', c')" and "0 < m" and "length (written ops) < 2 ^ 63"
    and "\<forall>(d, trunc) \<in> set rs. \<not> trunc"
  shows "concat (map fst rs) = take (nat c') (written ops) \<and> 0 \<le> c' \<and> nat c' \<le> length (written ops)"
  using poll_exact [OF ring_holds_new, of m ops 0 rs r' c'] assms by (simp add: ring_new_def)

theorem polling_gets_stream_witness:
  "concat (map fst (fst (poll (ring_new 4) 0
      [RWrite [1, 2, 3], RRead 2, RWrite [4, 5], RRead 100, RWrite [6], RRead 1]))) = [1, 2, 3, 4, 5, 6]"
proof -
  have p: "poll (ring_new 4) 0 [RWrite [1, 2, 3], RRead 2, RWrite [4, 5], RRead 100, RWrite [6], RRead 1] =
    ([([1, 2], False), ([3, 4, 5], False), ([6], False)], \<lparr>rdata = [3, 4, 5, 6], rbase = 2, rmax = 4\<rparr>, 6)"
    by code_simp
  show ?thesis
    unfolding p using polling_gets_stream [OF p] by simp
qed

end
