(* ===== verification/ProcessMgr.thy ===== *)
theory ProcessMgr
  imports Ring Base64 "HOL-Library.List_Lexorder" "HOL-Library.Char_ord"
begin

text \<open>
  The process manager of the agent (\<^verbatim>\<open>internal/processmgr/manager.go\<close>). A process object is
  a cell of the heap and the table maps session ids to such references, as in the source, so that a
  session id whose entry was replaced is told apart from its predecessor. Every critical section
  (of \<^verbatim>\<open>Manager.mu\<close> or \<^verbatim>\<open>process.mu\<close>) is one operation, and the goroutine that waits
  for the process is the sequence \<open>proc_exited\<close>, \<open>release\<close>, \<open>expire\<close>. What the operating system
  decides (random bytes, the outcome of starting, killing and writing) is an argument.
\<close>

section \<open>Definitions\<close>

record start_request =
  argv :: "string list"
  command :: string
  sr_cwd :: string
  envs :: "(string \<times> string) list"

record os_command =
  cmd_argv :: "string list"
  cmd_dir :: string
  cmd_env :: "string list option"

record read_result =
  res_data :: bytes
  next_cursor :: int
  truncated :: bool
  exited :: bool
  res_exit :: "int option"

text \<open>Where the goroutine of a process is: in \<^verbatim>\<open>cmd.Wait\<close>, about to give its place back, waiting
  for the timer, or finished.\<close>

datatype phase = Waiting | Exited | Released | Expired

record process =
  cmd :: os_command
  pid :: int
  stdin_data :: bytes
  stdin_open :: bool
  buf :: ring
  exit_code :: "int option"
  exited_at :: time
  cancelled :: bool
  phase :: phase

record manager =
  procs :: "string \<Rightarrow> nat option"
  heap :: "process list"
  max_procs :: int
  max_buffer :: int
  max_runtime :: duration
  allow_shell :: bool
  active :: int

text \<open>The environment of \<^verbatim>\<open>Start\<close>.\<close>

record os_env =
  windows :: bool
  environ :: "string list"
  rand16 :: "bytes option"
  stdin_pipe :: bool
  spawn :: "os_command \<Rightarrow> int option"

definition new_manager :: "int \<Rightarrow> int \<Rightarrow> duration \<Rightarrow> bool \<Rightarrow> manager" where
  "new_manager maxProcs maxBuffer maxRuntime allowShell =
     \<lparr>procs = Map.empty, heap = [], max_procs = maxProcs, max_buffer = maxBuffer,
      max_runtime = maxRuntime, allow_shell = allowShell, active = 0\<rparr>"

definition random_id :: "bytes option \<Rightarrow> goerror + string" where
  "random_id src = (case src of None \<Rightarrow> Inl (ErrMsg ''rand'') | Some b \<Rightarrow> Inr (hex_encode b))"

definition command_for :: "bool \<Rightarrow> start_request \<Rightarrow> bool \<Rightarrow> goerror + string list" where
  "command_for win req shell =
     (if argv req \<noteq> [] then
        (if length (argv req) > 128 then Inl (ErrMsg ''too many argv entries'')
         else if list_ex (\<lambda>a. CHR 0x00 \<in> set a \<or> int (length a) > 65536) (argv req)
         then Inl (ErrMsg ''invalid argv'')
         else Inr (argv req))
      else if trim_space (command req) = [] then Inl (ErrMsg ''argv or command is required'')
      else if \<not> shell then Inl (ErrMsg ''shell commands are disabled; use argv'')
      else if int (length (command req)) > 131072 then Inl (ErrMsg ''command exceeds 128KiB'')
      else if win then Inr [''cmd.exe'', ''/D'', ''/S'', ''/C'', command req]
      else Inr [''/bin/sh'', ''-lc'', command req])"

definition command_env ::
  "string list \<Rightarrow> (string \<times> string) list \<Rightarrow> goerror + string list option" where
  "command_env environment env =
     (if env = [] then Inr None
      else if list_ex (\<lambda>(k, v). CHR ''='' \<in> set k \<or> CHR 0x00 \<in> set k \<or> length k > 256) env
      then Inl (ErrMsg ''invalid environment variable name'')
      else if length env > 64 then Inl (ErrMsg ''too many environment overrides'')
      else if list_ex (\<lambda>(k, v). CHR 0x00 \<in> set v \<or> int (length v) > 32768) env
      then Inl (ErrMsg ''invalid environment variable value'')
      else Inr (Some (environment @ map (\<lambda>(k, v). k @ ''='' @ v) (sort_key fst env))))"

text \<open>The part of \<^verbatim>\<open>Start\<close> that validates the request and starts the command.\<close>

definition launch :: "os_env \<Rightarrow> start_request \<Rightarrow> bool \<Rightarrow> goerror + string \<times> os_command \<times> int" where
  "launch e req shell =
     bindE (random_id (rand16 e)) (\<lambda>sid.
     bindE (command_for (windows e) req shell) (\<lambda>args.
     bindE (command_env (environ e) (envs req)) (\<lambda>env.
     bindE (ensure (stdin_pipe e) (ErrMsg ''stdin'')) (\<lambda>_.
       let c = \<lparr>cmd_argv = args, cmd_dir = sr_cwd req, cmd_env = env\<rparr>
       in case spawn e c of None \<Rightarrow> Inl (ErrMsg ''start'') | Some n \<Rightarrow> Inr (sid, c, n)))))"

definition start :: "os_env \<Rightarrow> start_request \<Rightarrow> manager \<Rightarrow> (goerror + string \<times> int) \<times> manager" where
  "start e req m =
     (if active m \<ge> max_procs m then (Inl ErrProcLimit, m)
      else
        (case launch e req (allow_shell m) of
           Inl err \<Rightarrow> (Inl err, m)
         | Inr (sid, c, n) \<Rightarrow>
           (Inr (sid, n),
            m\<lparr>procs := (procs m)(sid \<mapsto> length (heap m)),
              heap := heap m @ [\<lparr>cmd = c, pid = n, stdin_data = [], stdin_open = True,
                 buf = ring_new (max_buffer m), exit_code = None, exited_at = 0, cancelled = False,
                 phase = Waiting\<rparr>],
              active := active m + 1\<rparr>)))"

definition update_proc :: "nat \<Rightarrow> (process \<Rightarrow> process) \<Rightarrow> manager \<Rightarrow> manager" where
  "update_proc r f m = m\<lparr>heap := (heap m)[r := f (heap m ! r)]\<rparr>"

text \<open>\<^verbatim>\<open>outputWriter.Write\<close>, for the two writers (\<^verbatim>\<open>prefix\<close> is empty for standard output).\<close>

definition output_write :: "string \<Rightarrow> bytes \<Rightarrow> process \<Rightarrow> process" where
  "output_write pre b p =
     (let r = (if pre \<noteq> [] \<and> length b > 0 then ring_write (buf p) (bytes_of_string pre) else buf p)
      in p\<lparr>buf := ring_write r b\<rparr>)"

definition stderr_prefix :: string where
  "stderr_prefix = ''[stderr] ''"

text \<open>The goroutine: what \<^verbatim>\<open>cmd.Wait\<close> returns is no error, an exit code, or another error.\<close>

datatype wait_result = WaitOk | WaitExit int | WaitFailed

definition proc_exited :: "wait_result \<Rightarrow> time \<Rightarrow> process \<Rightarrow> process" where
  "proc_exited w now p =
     p\<lparr>exit_code := Some (case w of WaitOk \<Rightarrow> 0 | WaitExit c \<Rightarrow> c | WaitFailed \<Rightarrow> - 1),
       exited_at := now, stdin_open := False, cancelled := True, phase := Exited\<rparr>"

definition release :: "nat \<Rightarrow> manager \<Rightarrow> manager" where
  "release r m =
     (update_proc r (\<lambda>p. p\<lparr>phase := Released\<rparr>) m)
       \<lparr>active := (if active m > 0 then active m - 1 else active m)\<rparr>"

definition expire :: "string \<Rightarrow> nat \<Rightarrow> manager \<Rightarrow> manager" where
  "expire sid r m =
     (update_proc r (\<lambda>p. p\<lparr>phase := Expired\<rparr>) m)
       \<lparr>procs := (if procs m sid = Some r then (procs m)(sid := None) else procs m)\<rparr>"

definition get_proc :: "manager \<Rightarrow> string \<Rightarrow> goerror + nat" where
  "get_proc m sid = (case procs m sid of None \<Rightarrow> Inl ErrProcNotFound | Some r \<Rightarrow> Inr r)"

definition read_limit :: "int \<Rightarrow> nat" where
  "read_limit maxBytes = (if maxBytes \<le> 0 \<or> maxBytes > 262144 then 65536 else nat maxBytes)"

definition read_proc :: "manager \<Rightarrow> string \<Rightarrow> int \<Rightarrow> int \<Rightarrow> goerror + read_result" where
  "read_proc m sid cursor maxBytes =
     bindE (get_proc m sid) (\<lambda>r.
       let p = heap m ! r
       in case ring_read (buf p) cursor (read_limit maxBytes) of (d, next, trunc) \<Rightarrow>
            Inr \<lparr>res_data = d, next_cursor = next, truncated = trunc,
                 exited = (exit_code p \<noteq> None), res_exit = exit_code p\<rparr>)"

text \<open>\<^verbatim>\<open>Write\<close>: \<open>written\<close> is how much the pipe took, and whether it failed.\<close>

definition write_proc ::
  "manager \<Rightarrow> string \<Rightarrow> bytes \<Rightarrow> (nat \<times> bool) \<Rightarrow> (goerror + unit) \<times> manager" where
  "write_proc m sid data pipe =
     (if int (length data) > 65536 then (Inl (ErrMsg ''stdin chunk exceeds 64KiB''), m)
      else (case get_proc m sid of
              Inl e \<Rightarrow> (Inl e, m)
            | Inr r \<Rightarrow>
              if exit_code (heap m ! r) \<noteq> None then (Inl (ErrMsg ''process already exited''), m)
              else if snd pipe
              then (Inl (ErrMsg ''write''),
                    update_proc r (\<lambda>p. p\<lparr>stdin_data := stdin_data p @ take (fst pipe) data\<rparr>) m)
              else (Inr (), update_proc r (\<lambda>p. p\<lparr>stdin_data := stdin_data p @ data\<rparr>) m)))"

definition terminate :: "manager \<Rightarrow> string \<Rightarrow> bool \<Rightarrow> (goerror + unit) \<times> manager" where
  "terminate m sid killed =
     (case get_proc m sid of
        Inl e \<Rightarrow> (Inl e, m)
      | Inr r \<Rightarrow>
        if exit_code (heap m ! r) \<noteq> None then (Inr (), m)
        else (if killed then Inr () else Inl (ErrMsg ''kill''),
              update_proc r (\<lambda>p. p\<lparr>cancelled := True\<rparr>) m))"

definition cleanup_exited :: "duration \<Rightarrow> time \<Rightarrow> manager \<Rightarrow> manager" where
  "cleanup_exited olderThan now m =
     m\<lparr>procs := (\<lambda>sid. case procs m sid of
         None \<Rightarrow> None
       | Some r \<Rightarrow>
         (let p = heap m ! r
          in if exit_code p \<noteq> None \<and> exited_at p \<noteq> 0 \<and> \<not> exited_at p > now - olderThan
             then None else Some r))\<rparr>"

text \<open>One entry of \<^verbatim>\<open>List\<close>.\<close>

record session_summary =
  sum_id :: string
  sum_pid :: int
  sum_exited :: bool
  sum_exit :: "int option"

definition summary_of :: "manager \<Rightarrow> string \<Rightarrow> session_summary option" where
  "summary_of m sid =
     map_option (\<lambda>r. let p = heap m ! r
       in \<lparr>sum_id = sid, sum_pid = pid p, sum_exited = (exit_code p \<noteq> None), sum_exit = exit_code p\<rparr>)
     (procs m sid)"

text \<open>All interleavings of the operations and of the goroutines.\<close>

inductive proc_step :: "manager \<Rightarrow> manager \<Rightarrow> bool" where
  step_start: "proc_step m (snd (start e req m))"
| step_output: "r < length (heap m) \<Longrightarrow> phase (heap m ! r) = Waiting \<Longrightarrow>
    proc_step m (update_proc r (output_write pre b) m)"
| step_exit: "r < length (heap m) \<Longrightarrow> phase (heap m ! r) = Waiting \<Longrightarrow>
    proc_step m (update_proc r (proc_exited w now) m)"
| step_release: "r < length (heap m) \<Longrightarrow> phase (heap m ! r) = Exited \<Longrightarrow> proc_step m (release r m)"
| step_expire: "r < length (heap m) \<Longrightarrow> phase (heap m ! r) = Released \<Longrightarrow> proc_step m (expire sid r m)"
| step_write: "proc_step m (snd (write_proc m sid data pipe))"
| step_terminate: "proc_step m (snd (terminate m sid killed))"
| step_cleanup: "proc_step m (cleanup_exited olderThan now m)"

inductive proc_reach :: "manager \<Rightarrow> manager \<Rightarrow> bool" where
  reach_init: "proc_reach m m"
| reach_step: "proc_reach m m' \<Longrightarrow> proc_step m' m'' \<Longrightarrow> proc_reach m m''"

section \<open>Invariant\<close>

definition occupies :: "process \<Rightarrow> bool" where
  "occupies p = (phase p = Waiting \<or> phase p = Exited)"

definition proc_ok :: "int \<Rightarrow> process \<Rightarrow> bool" where
  "proc_ok maxBuffer p =
     ((exit_code p = None) = (phase p = Waiting) \<and> stdin_open p = (exit_code p = None) \<and>
      rmax (buf p) = maxBuffer \<and> int (length (rdata (buf p))) \<le> max 0 maxBuffer)"

definition proc_inv :: "manager \<Rightarrow> bool" where
  "proc_inv m =
     (active m = int (length (filter occupies (heap m))) \<and> active m \<le> max 0 (max_procs m) \<and>
      (\<forall>p\<in>set (heap m). proc_ok (max_buffer m) p) \<and>
      (\<forall>sid r. procs m sid = Some r \<longrightarrow> r < length (heap m)))"

section \<open>Lemmas\<close>

lemma update_proc_simps [simp]:
  "procs (update_proc r f m) = procs m" "length (heap (update_proc r f m)) = length (heap m)"
  "active (update_proc r f m) = active m" "max_procs (update_proc r f m) = max_procs m"
  "max_buffer (update_proc r f m) = max_buffer m" "allow_shell (update_proc r f m) = allow_shell m"
  "max_runtime (update_proc r f m) = max_runtime m"
  by (simp_all add: update_proc_def)

lemma ring_write_bounded:
  "int (length (rdata r)) \<le> max 0 (rmax r) \<Longrightarrow> int (length (rdata (ring_write r p))) \<le> max 0 (rmax r)"
  by (auto simp: ring_write_def Let_def)

lemma output_write_ok: "proc_ok b p \<Longrightarrow> proc_ok b (output_write pre out p)"
  using ring_write_bounded [of "buf p"] ring_write_bounded [of "ring_write (buf p) (bytes_of_string pre)" out]
  by (auto simp: proc_ok_def output_write_def Let_def)

lemma proc_inv_ok: "proc_inv m \<Longrightarrow> r < length (heap m) \<Longrightarrow> proc_ok (max_buffer m) (heap m ! r)"
  by (simp add: proc_inv_def)

lemma proc_inv_ref: "proc_inv m \<Longrightarrow> procs m sid = Some r \<Longrightarrow> r < length (heap m)"
  by (simp add: proc_inv_def)

text \<open>The effect of changing one process on the invariant.\<close>

lemma proc_inv_update:
  assumes "proc_inv m" and "r < length (heap m)" and "proc_ok (max_buffer m) (f (heap m ! r))"
    and "occupies (f (heap m ! r)) = occupies (heap m ! r)"
  shows "proc_inv (update_proc r f m)"
  using assms count_list_update [of r "heap m" occupies "f (heap m ! r)"]
    list_update_all [of r "heap m" "proc_ok (max_buffer m)" "f (heap m ! r)"]
  by (simp add: proc_inv_def update_proc_def)

lemma release_inv:
  assumes "proc_inv m" and "r < length (heap m)" and "phase (heap m ! r) = Exited"
  shows "proc_inv (release r m)" "active m > 0"
proof -
  let ?p = "(heap m ! r)\<lparr>phase := Released\<rparr>"
  have occ: "occupies (heap m ! r)" "\<not> occupies ?p"
    using assms(3) by (simp_all add: occupies_def)
  have "heap m ! r \<in> set (filter occupies (heap m))"
    using assms(2) occ by simp
  then show pos: "active m > 0"
    using assms(1) unfolding proc_inv_def
    by (metis length_pos_if_in_set of_nat_0_less_iff)
  have "proc_ok (max_buffer m) ?p"
    using assms by (auto simp: proc_inv_def proc_ok_def)
  then show "proc_inv (release r m)"
    using assms(1,2) occ pos count_list_update [of r "heap m" occupies ?p]
      list_update_all [of r "heap m" "proc_ok (max_buffer m)" ?p]
    by (simp add: proc_inv_def update_proc_def release_def)
qed

lemma expire_inv:
  assumes "proc_inv m" and "r < length (heap m)" and "phase (heap m ! r) = Released"
  shows "proc_inv (expire sid r m)"
proof -
  have "proc_inv (update_proc r (\<lambda>p. p\<lparr>phase := Expired\<rparr>) m)"
    using assms by (intro proc_inv_update) (auto simp: proc_inv_def proc_ok_def occupies_def)
  then show ?thesis
    by (auto simp: expire_def proc_inv_def)
qed

lemma launch_Inr:
  "launch e req shell = Inr (sid, c, n) \<Longrightarrow>
   \<exists>args env. command_for (windows e) req shell = Inr args \<and> command_env (environ e) (envs req) = Inr env \<and>
     c = \<lparr>cmd_argv = args, cmd_dir = sr_cwd req, cmd_env = env\<rparr>"
  by (auto simp: launch_def Let_def err_simps split: option.splits)

lemma start_cases:
  obtains (fails) err where "start e req m = (Inl err, m)"
  | (starts) sid c n where "fst (start e req m) = Inr (sid, n)" "active m < max_procs m"
    "launch e req (allow_shell m) = Inr (sid, c, n)"
    "snd (start e req m) =
      m\<lparr>procs := (procs m)(sid \<mapsto> length (heap m)),
        heap := heap m @ [\<lparr>cmd = c, pid = n, stdin_data = [], stdin_open = True,
           buf = ring_new (max_buffer m), exit_code = None, exited_at = 0, cancelled = False,
           phase = Waiting\<rparr>],
        active := active m + 1\<rparr>"
  unfolding start_def by (fastforce split: sum.splits prod.splits if_splits)

lemma command_for_Inr:
  "command_for win req shell = Inr args \<Longrightarrow>
   (if argv req \<noteq> [] then args = argv req \<and> length (argv req) \<le> 128 \<and> (\<forall>a\<in>set (argv req). CHR 0x00 \<notin> set a)
    else shell \<and> last args = command req \<and> trim_space (command req) \<noteq> [])"
  by (auto simp: command_for_def list_ex_iff split: if_splits)

lemma command_env_Inr:
  "command_env environment env = Inr r \<Longrightarrow>
   r = (if env = [] then None
        else Some (environment @ map (\<lambda>(k, v). k @ ''='' @ v) (sort_key fst env))) \<and>
   (\<forall>(k, v)\<in>set env. CHR ''='' \<notin> set k \<and> CHR 0x00 \<notin> set k \<and> CHR 0x00 \<notin> set v)"
  by (auto simp: command_env_def list_ex_iff split: if_splits)

lemma start_inv:
  assumes "proc_inv m"
  shows "proc_inv (snd (start e req m))"
proof (cases rule: start_cases [of e req m])
  case (starts sid c n)
  then show ?thesis
    using assms by (auto simp: proc_inv_def proc_ok_def occupies_def ring_new_def less_Suc_eq)
qed (use assms in simp)

lemma cleanup_inv: "proc_inv m \<Longrightarrow> proc_inv (cleanup_exited d now m)"
  by (auto simp: proc_inv_def cleanup_exited_def Let_def split: option.splits if_splits)

lemma proc_step_inv:
  assumes "proc_step m m'" and "proc_inv m"
  shows "proc_inv m'"
  using assms
proof cases
  case (step_start e req)
  with assms(2) show ?thesis by (simp add: start_inv)
next
  case (step_output r pre b)
  moreover have "proc_ok (max_buffer m) (output_write pre b (heap m ! r))"
    using proc_inv_ok [OF assms(2)] step_output by (simp add: output_write_ok)
  ultimately show ?thesis
    using assms(2) by (simp add: proc_inv_update occupies_def output_write_def Let_def)
next
  case (step_exit r w now)
  moreover have "proc_ok (max_buffer m) (proc_exited w now (heap m ! r))"
    using proc_inv_ok [OF assms(2)] step_exit by (simp add: proc_ok_def proc_exited_def)
  ultimately show ?thesis
    using assms(2) by (simp add: proc_inv_update occupies_def proc_exited_def)
next
  case (step_release r)
  with assms(2) show ?thesis by (simp add: release_inv)
next
  case (step_expire r sid)
  with assms(2) show ?thesis by (simp add: expire_inv)
next
  case (step_write sid data pipe)
  then show ?thesis
    using assms(2) proc_inv_ref [OF assms(2), of sid] proc_inv_ok [OF assms(2)]
    by (auto simp: write_proc_def get_proc_def occupies_def proc_ok_def split: option.splits intro!: proc_inv_update)
next
  case (step_terminate sid killed)
  then show ?thesis
    using assms(2) proc_inv_ref [OF assms(2), of sid] proc_inv_ok [OF assms(2)]
    by (auto simp: terminate_def get_proc_def occupies_def proc_ok_def split: option.splits intro!: proc_inv_update)
next
  case (step_cleanup d now)
  with assms(2) show ?thesis by (simp add: cleanup_inv)
qed

lemma proc_step_config:
  "proc_step m m' \<Longrightarrow> max_procs m' = max_procs m \<and> max_buffer m' = max_buffer m \<and> allow_shell m' = allow_shell m"
proof (induction rule: proc_step.induct)
  case (step_start m e req)
  then show ?case by (cases rule: start_cases [of e req m]) auto
qed (auto simp: release_def expire_def write_proc_def terminate_def cleanup_exited_def split: sum.splits)

lemma proc_reach_inv:
  assumes "proc_reach m0 m" and "proc_inv m0"
  shows "proc_inv m \<and> max_procs m = max_procs m0 \<and> max_buffer m = max_buffer m0"
  using assms by (induction rule: proc_reach.induct) (auto dest: proc_step_inv proc_step_config)

lemma new_manager_inv: "proc_inv (new_manager a b c d)"
  by (simp add: proc_inv_def new_manager_def)

lemma waiting_le_active:
  assumes "proc_inv m"
  shows "int (length (filter (\<lambda>p. phase p = Waiting) (heap m))) \<le> active m"
proof -
  have "length (filter (\<lambda>p. phase p = Waiting) (filter occupies (heap m))) \<le> length (filter occupies (heap m))"
    by (rule length_filter_le)
  moreover have "filter (\<lambda>p. phase p = Waiting) (filter occupies (heap m)) = filter (\<lambda>p. phase p = Waiting) (heap m)"
    by (auto simp: occupies_def intro!: filter_cong)
  ultimately show ?thesis
    using assms by (simp add: proc_inv_def)
qed

text \<open>One step keeps the objects of the heap, and what an exited process has recorded.\<close>

lemma nth_update_proc:
  "r < length (heap m) \<Longrightarrow> heap (update_proc r' f m) ! r = (if r' = r then f (heap m ! r) else heap m ! r)"
  by (auto simp: update_proc_def)

lemma start_heap: "r < length (heap m) \<Longrightarrow> length (heap m) \<le> length (heap (snd (start e req m))) \<and> heap (snd (start e req m)) ! r = heap m ! r"
  by (cases rule: start_cases [of e req m]) (auto simp: nth_append)

lemma exited_frozen:
  assumes "proc_step m m'" and "proc_inv m" and "r < length (heap m)" and "exit_code (heap m ! r) = Some c"
  shows "r < length (heap m') \<and> exit_code (heap m' ! r) = Some c \<and> buf (heap m' ! r) = buf (heap m ! r)"
proof -
  have ph: "phase (heap m ! r) \<noteq> Waiting"
    using proc_inv_ok [OF assms(2,3)] assms(4) by (simp add: proc_ok_def)
  from assms(1) show ?thesis
  proof cases
    case (step_start e req)
    with assms(3,4) start_heap [of r m e req] show ?thesis by auto
  qed (use assms(3,4) ph in \<open>auto simp: nth_update_proc release_def expire_def write_proc_def
        terminate_def cleanup_exited_def split: sum.splits if_splits\<close>)
qed

section \<open>Properties\<close>

text \<open>
  C18. The limits hold in every interleaving: however calls, output and exits are interleaved, the
  number of processes that run is at most \<^verbatim>\<open>active\<close>, which is at most the configured limit, and
  no output buffer ever holds more than the configured number of bytes.
\<close>

theorem process_limits:
  assumes "proc_reach (new_manager maxProcs maxBuffer maxRuntime allowShell) m"
  shows "int (length (filter (\<lambda>p. phase p = Waiting) (heap m))) \<le> active m \<and>
    active m \<le> max 0 maxProcs \<and>
    (\<forall>p\<in>set (heap m). int (length (rdata (buf p))) \<le> max 0 maxBuffer)"
proof -
  have inv: "proc_inv m" "max_procs m = maxProcs" "max_buffer m = maxBuffer"
    using proc_reach_inv [OF assms new_manager_inv] by (simp_all add: new_manager_def)
  with waiting_le_active [OF inv(1)] show ?thesis
    by (auto simp: proc_inv_def proc_ok_def)
qed

definition demo_env :: os_env where
  "demo_env = \<lparr>windows = False, environ = [''A=1''], rand16 = Some (replicate 16 0xAB), stdin_pipe = True,
     spawn = (\<lambda>c. Some 77)\<rparr>"

definition demo_request :: start_request where
  "demo_request = \<lparr>argv = [''echo'', ''x''], command = [], sr_cwd = ''/'', envs = [(''K'', ''v'')]\<rparr>"

definition demo_manager :: manager where
  "demo_manager = snd (start demo_env demo_request (new_manager 1 16 0 False))"

theorem process_limits_witness: "active demo_manager = 1 \<and> active demo_manager \<le> max 0 1"
proof -
  have "proc_reach (new_manager 1 16 0 False) demo_manager"
    unfolding demo_manager_def by (rule reach_step [OF reach_init step_start])
  from process_limits [OF this] show ?thesis
    by (simp add: demo_manager_def start_def launch_def demo_env_def demo_request_def new_manager_def random_id_def
        command_for_def command_env_def)
qed

text \<open>
  A process that has exited keeps its final status: from then on, in every reachable state in
  which its session is still in the table, \<^verbatim>\<open>Read\<close> with any cursor reports it as exited with
  that exit code, and returns what it would have returned at the moment of the exit.
\<close>

theorem exited_status_stable:
  assumes "proc_reach m m'" and "proc_inv m"
    and "r < length (heap m)" and "exit_code (heap m ! r) = Some c"
    and "procs m sid = Some r" and "procs m' sid = Some r"
  shows "read_proc m' sid cursor n = read_proc m sid cursor n \<and>
    (\<forall>res. read_proc m' sid cursor n = Inr res \<longrightarrow> exited res \<and> res_exit res = Some c)"
proof -
  have "r < length (heap m') \<and> exit_code (heap m' ! r) = Some c \<and> buf (heap m' ! r) = buf (heap m ! r)"
    using assms(1-4)
  proof (induction rule: proc_reach.induct)
    case (reach_step m m' m'')
    then show ?case
      using exited_frozen [of m' m'' r c] proc_reach_inv by auto
  qed simp
  with assms show ?thesis
    by (auto simp: read_proc_def get_proc_def Let_def split: prod.splits)
qed

definition demo_exited :: manager where
  "demo_exited = update_proc 0 (proc_exited (WaitExit 3) 5) demo_manager"

theorem exited_status_stable_witness:
  "case read_proc (release 0 demo_exited) (hex_encode (replicate 16 0xAB)) 0 10 of
     Inl e \<Rightarrow> False | Inr res \<Rightarrow> exited res \<and> res_exit res = Some 3"
proof -
  have m: "demo_manager = \<lparr>procs = [hex_encode (replicate 16 0xAB) \<mapsto> 0],
      heap = [\<lparr>cmd = \<lparr>cmd_argv = [''echo'', ''x''], cmd_dir = ''/'', cmd_env = Some [''A=1'', ''K=v'']\<rparr>, pid = 77,
        stdin_data = [], stdin_open = True, buf = ring_new 16, exit_code = None, exited_at = 0,
        cancelled = False, phase = Waiting\<rparr>],
      max_procs = 1, max_buffer = 16, max_runtime = 0, allow_shell = False, active = 1\<rparr>"
    by (simp add: demo_manager_def start_def launch_def demo_env_def demo_request_def new_manager_def random_id_def
        command_for_def command_env_def)
  have i: "proc_inv demo_exited"
    by (simp add: demo_exited_def m update_proc_def proc_exited_def proc_inv_def proc_ok_def occupies_def ring_new_def)
  have r: "proc_reach demo_exited (release 0 demo_exited)"
    by (rule reach_step [OF reach_init step_release])
      (simp_all add: demo_exited_def m update_proc_def proc_exited_def)
  show ?thesis
    using exited_status_stable [OF r i, of 0 3 "hex_encode (replicate 16 0xAB)"]
    by (simp add: demo_exited_def m update_proc_def proc_exited_def release_def read_proc_def get_proc_def
        split: prod.splits)
qed

text \<open>
  What \<^verbatim>\<open>Start\<close> runs: it succeeds only below the limit, the command is the request's
  argument vector (at most 128 entries without NUL), or, only when the shell is enabled and no
  vector is given, the command handed to the shell; the environment is the agent's own followed by
  the requested variables, sorted, with names free of \<^verbatim>\<open>=\<close> and NUL. Otherwise nothing changes.
\<close>

theorem start_runs_request:
  "(case fst (start e req m) of
      Inl err \<Rightarrow> snd (start e req m) = m
    | Inr (sid, n) \<Rightarrow>
      active m < max_procs m \<and> procs (snd (start e req m)) sid = Some (length (heap m)) \<and>
      (let p = last (heap (snd (start e req m)))
       in pid p = n \<and> phase p = Waiting \<and> cmd_dir (cmd p) = sr_cwd req \<and>
          (if argv req \<noteq> [] then cmd_argv (cmd p) = argv req \<and> length (argv req) \<le> 128 \<and>
              list_all (\<lambda>a. CHR 0x00 \<notin> set a) (argv req)
           else allow_shell m \<and> last (cmd_argv (cmd p)) = command req \<and> trim_space (command req) \<noteq> []) \<and>
          cmd_env (cmd p) = (if envs req = [] then None
            else Some (environ e @ map (\<lambda>(k, v). k @ ''='' @ v) (sort_key fst (envs req)))) \<and>
          list_all (\<lambda>(k, v). CHR ''='' \<notin> set k \<and> CHR 0x00 \<notin> set k \<and> CHR 0x00 \<notin> set v) (envs req)))"
proof (cases rule: start_cases [of e req m])
  case (starts sid c n)
  from launch_Inr [OF starts(3)] obtain args env where
    a: "command_for (windows e) req (allow_shell m) = Inr args" "command_env (environ e) (envs req) = Inr env"
    and c: "c = \<lparr>cmd_argv = args, cmd_dir = sr_cwd req, cmd_env = env\<rparr>" by blast
  show ?thesis
    using command_for_Inr [OF a(1)] command_env_Inr [OF a(2)] starts(1,2,4) c by (simp add: Let_def list_all_iff)
qed simp

end
