(* ===== verification/OsProc.thy ===== *)
theory OsProc
  imports Prelude
begin

text \<open>
  The list of the operating system's processes and the signal that ends one
  (\<^verbatim>\<open>internal/osproc/processes.go\<close>). What the listing command prints and how it ends is an argument,
  and so is what the CSV reader of the standard library makes of the output on Windows.
\<close>

section \<open>Definitions\<close>

definition max_process_output :: int where "max_process_output = 2097152"
definition max_token :: int where "max_token = 1048576"

record os_process =
  op_pid :: int
  op_ppid :: int
  op_command :: string
  op_args :: string

text \<open>How the listing command runs: the errors of its pipe, its start, of reading it, and its end.\<close>

record command_run =
  cr_pipe :: "goerror option"
  cr_start :: "goerror option"
  cr_output :: string
  cr_read :: "goerror option"
  cr_wait :: "goerror option"

definition limited_output :: "command_run \<Rightarrow> goerror + string" where
  "limited_output r =
     (case cr_pipe r of Some e \<Rightarrow> Inl e | None \<Rightarrow>
     (case cr_start r of Some e \<Rightarrow> Inl e | None \<Rightarrow>
       (let b = take_upto (max_process_output + 1) (cr_output r) in
        case cr_read r of Some e \<Rightarrow> Inl e | None \<Rightarrow>
        if int (length b) > max_process_output then Inl (ErrMsg ''process list output exceeds limit'')
        else (case cr_wait r of Some e \<Rightarrow> Inl (ErrWrap ''process listing failed'' e) | None \<Rightarrow> Inr b))))"

text \<open>The lines that \<^verbatim>\<open>bufio.Scanner\<close> finds; a carriage return before the line feed is dropped.\<close>

definition drop_cr :: "string \<Rightarrow> string" where
  "drop_cr l = (if l \<noteq> [] \<and> last l = CHR 0x0D then butlast l else l)"

definition scanner_lines :: "string \<Rightarrow> string list" where
  "scanner_lines s =
     (let ls = split_on CHR 0x0A s in if last ls = [] then butlast ls else ls)"

text \<open>One line of \<^verbatim>\<open>ps\<close>.\<close>

definition parse_ps :: "string \<Rightarrow> os_process option" where
  "parse_ps line =
     (let fields = string_fields (drop_cr line)
      in if length fields < 3 then None
         else (case (parse_int64 (fields ! 0), parse_int64 (fields ! 1)) of
                 (Some pid, Some ppid) \<Rightarrow>
                   Some \<lparr>op_pid = pid, op_ppid = ppid, op_command = fields ! 2, op_args = join '' '' (drop 3 fields)\<rparr>
               | _ \<Rightarrow> None))"

fun scan_ps :: "int \<Rightarrow> os_process list \<Rightarrow> string list \<Rightarrow> goerror + os_process list" where
  "scan_ps limit res [] = Inr res"
| "scan_ps limit res (line # ls) =
     (if int (length line) \<ge> max_token then Inl (ErrMsg ''bufio.Scanner: token too long'')
      else if \<not> int (length res) < limit then Inr res
      else (case parse_ps line of None \<Rightarrow> scan_ps limit res ls | Some p \<Rightarrow> scan_ps limit (res @ [p]) ls))"

text \<open>The loop of \<^verbatim>\<open>listWindows\<close> over the records of the CSV reader.\<close>

fun scan_csv :: "int \<Rightarrow> os_process list \<Rightarrow> (goerror + string list) list \<Rightarrow> goerror + os_process list" where
  "scan_csv limit res [] = Inr res"
| "scan_csv limit res (r # rs) =
     (if \<not> int (length res) < limit then Inr res
      else (case r of
              Inl e \<Rightarrow> Inl e
            | Inr rec \<Rightarrow>
              if length rec < 2 then scan_csv limit res rs
              else (case parse_int64 (trim_space (rec ! 1)) of
                      None \<Rightarrow> scan_csv limit res rs
                    | Some pid \<Rightarrow> scan_csv limit (res @ [\<lparr>op_pid = pid, op_ppid = 0, op_command = rec ! 0, op_args = []\<rparr>]) rs)))"

definition list_windows :: "(string \<Rightarrow> (goerror + string list) list) \<Rightarrow> command_run \<Rightarrow> int \<Rightarrow> goerror + os_process list" where
  "list_windows csv tasklist limit = bindE (limited_output tasklist) (\<lambda>out. scan_csv limit [] (csv out))"

definition process_limit :: "int \<Rightarrow> int" where
  "process_limit limit = (let l = (if limit \<le> 0 then 1000 else limit) in if l > 5000 then 5000 else l)"

definition list_processes ::
  "bool \<Rightarrow> (string \<Rightarrow> (goerror + string list) list) \<Rightarrow> command_run \<Rightarrow> int \<Rightarrow> goerror + os_process list" where
  "list_processes win csv run limit0 =
     (let limit = process_limit limit0
      in if win then list_windows csv run limit
         else bindE (limited_output run) (\<lambda>out. scan_ps limit [] (scanner_lines out)))"

text \<open>
  \<^verbatim>\<open>Kill\<close>, with the process ids it signals. \<open>lookup\<close> and \<open>signal\<close> are the answers of the system.
\<close>

definition kill_pid ::
  "bool \<Rightarrow> int \<Rightarrow> (int \<Rightarrow> goerror option) \<Rightarrow> (int \<Rightarrow> goerror option) \<Rightarrow> int \<Rightarrow> (goerror + unit) \<times> int list" where
  "kill_pid win self lookup signal pid =
     (if pid \<le> 0 then (Inl (ErrMsg ''pid must be positive''), [])
      else if pid = self then (Inl (ErrMsg ''refusing to kill the agent process''), [])
      else (case lookup pid of
              Some e \<Rightarrow> (Inl e, [])
            | None \<Rightarrow>
              (case signal pid of
                 Some e \<Rightarrow> (Inl (if win then e else ErrWrap (''signal process '' @ show_int pid) e), [pid])
               | None \<Rightarrow> (Inr (), [pid]))))"

section \<open>Lemmas\<close>

lemma scan_ps_length: "scan_ps limit res ls = Inr ps \<Longrightarrow> int (length res) \<le> limit \<Longrightarrow> int (length ps) \<le> limit"
  by (induction limit res ls rule: scan_ps.induct) (auto split: if_splits option.splits)

lemma scan_csv_length: "scan_csv limit res rs = Inr ps \<Longrightarrow> int (length res) \<le> limit \<Longrightarrow> int (length ps) \<le> limit"
  by (induction limit res rs rule: scan_csv.induct) (auto split: if_splits option.splits sum.splits)

lemma process_limit_bounds: "1 \<le> process_limit n \<and> process_limit n \<le> 5000"
  by (simp add: process_limit_def Let_def)

lemma list_processes_length:
  assumes "list_processes win csv run limit = Inr ps"
  shows "int (length ps) \<le> process_limit limit"
proof -
  have "0 \<le> process_limit limit" using process_limit_bounds [of limit] by simp
  with assms show ?thesis
    by (auto simp: list_processes_def list_windows_def Let_def err_simps split: if_splits
        dest!: scan_ps_length scan_csv_length)
qed

text \<open>Without a line that is too long, the listing is made of the lines that parse, up to the limit.\<close>

lemma scan_ps_spec:
  assumes "\<forall>l\<in>set ls. int (length l) < max_token" and "int (length res) \<le> limit"
  shows "scan_ps limit res ls = Inr (take (nat limit) (res @ List.map_filter parse_ps ls))"
  using assms
proof (induction limit res ls rule: scan_ps.induct)
  case (2 limit res line ls)
  show ?case
  proof (cases "int (length res) < limit")
    case True
    with 2 show ?thesis by (auto simp: map_filter_simps split: option.splits)
  next
    case False
    then have "nat limit = length res" using 2 by simp
    with False 2 show ?thesis by simp
  qed
qed (auto simp: map_filter_simps)

lemma kill_pid_target: "x \<in> set (snd (kill_pid win self lookup signal pid)) \<Longrightarrow> x = pid \<and> 0 < pid \<and> pid \<noteq> self"
  by (auto simp: kill_pid_def split: if_splits option.splits)

end
