(* ===== verification/Executor.thy ===== *)
theory Executor
  imports FileEffects SearchSessions ProcessMgr OsProc
begin

text \<open>
  The executor of the agent (\<^verbatim>\<open>internal/executor/executor.go\<close>): the table of tools and the handlers
  that combine the path policy with the process manager, the search manager and the process list.
  The state of the agent is the file system, the two managers, and the process ids it has signalled.
  Decoding the JSON arguments of a tool (\<^verbatim>\<open>decodeArgs\<close>) is a parameter per tool, which may fail
  (theory \<open>ArgDecode\<close> has the decoders of the code);
  what the operating system decides during a call is the argument \<open>w\<close>.
\<close>

section \<open>Definitions\<close>

record executor =
  ex_paths :: policy
  ex_allow_kill :: bool

record agent_state =
  as_fs :: fsys
  as_procs :: manager
  as_search :: search_manager
  as_signals :: "int list"

record world =
  w_files :: env
  w_os :: os_env
  w_pipe :: "nat \<times> bool"
  w_killed :: bool
  w_search :: search_env
  w_regex :: regex_engine
  w_rand :: "bytes option"
  w_csv :: "string \<Rightarrow> (goerror + string list) list"
  w_ps :: command_run
  w_self :: int
  w_find :: "int \<Rightarrow> goerror option"
  w_signal :: "int \<Rightarrow> goerror option"
  w_goos :: string
  w_goarch :: string

record input_args =
  ia_process_id :: string
  ia_data :: string
  ia_encoding :: string

record decoders =
  dec_read :: "string \<Rightarrow> read_args option"
  dec_write :: "string \<Rightarrow> write_args option"
  dec_multi :: "string \<Rightarrow> (string list \<times> int) option"
  dec_edit :: "string \<Rightarrow> edit_args option"
  dec_path :: "string \<Rightarrow> string option"
  dec_mkdir :: "string \<Rightarrow> (string \<times> 32 word) option"
  dec_move :: "string \<Rightarrow> move_args option"
  dec_start :: "string \<Rightarrow> start_request option"
  dec_output :: "string \<Rightarrow> (string \<times> int \<times> int) option"
  dec_input :: "string \<Rightarrow> input_args option"
  dec_process :: "string \<Rightarrow> string option"
  dec_query :: "string \<Rightarrow> query option"
  dec_more :: "string \<Rightarrow> (string \<times> int) option"
  dec_session :: "string \<Rightarrow> string option"
  dec_max :: "string \<Rightarrow> int option"
  dec_pid :: "string \<Rightarrow> int option"

record config_view =
  cv_roots :: "string list"
  cv_os :: string
  cv_arch :: string
  cv_max_procs :: int
  cv_max_buffer :: int
  cv_max_runtime :: duration
  cv_shell :: bool
  cv_kill :: bool
  cv_search_sessions :: int
  cv_search_results :: int

text \<open>The values the handlers return, before they are encoded.\<close>

datatype tool_value =
    VOk
  | VFile file_content
  | VWritten string nat
  | VFiles "multi_entry list"
  | VEdited string nat nat
  | VEntries string "dir_item list" bool
  | VPath string
  | VMoved string string
  | VInfo string string nat meta bool
  | VStarted string int
  | VOutput read_result
  | VInput nat
  | VTerminated
  | VSessions "string \<Rightarrow> session_summary option"
  | VSearch string
  | VMore more_result
  | VStopped
  | VSearches "search_summary list"
  | VProcesses "os_process list"
  | VKilled int
  | VConfig config_view

type_synonym handler =
  "executor \<Rightarrow> decoders \<Rightarrow> world \<Rightarrow> string \<Rightarrow> agent_state \<Rightarrow> (goerror + tool_value) \<times> agent_state"

definition map_ok :: "('a \<Rightarrow> 'b) \<Rightarrow> 'e + 'a \<Rightarrow> 'e + 'b" where
  "map_ok f r = (case r of Inl e \<Rightarrow> Inl e | Inr x \<Rightarrow> Inr (f x))"

text \<open>A call that only looks, one that changes the file system, and one of a manager.\<close>

definition reading :: "(goerror + tool_value) \<Rightarrow> agent_state \<Rightarrow> (goerror + tool_value) \<times> agent_state" where
  "reading r s = (r, s)"

definition changing :: "('a \<Rightarrow> tool_value) \<Rightarrow> (goerror + 'a) \<times> fsys list \<Rightarrow> agent_state \<Rightarrow> (goerror + tool_value) \<times> agent_state" where
  "changing f r s = (map_ok f (fst r), s\<lparr>as_fs := last (snd r)\<rparr>)"

definition start_args :: "executor \<Rightarrow> decoders \<Rightarrow> string \<Rightarrow> agent_state \<Rightarrow> goerror + start_request" where
  "start_args ex d raw s =
     bindE (decode_args (dec_start d raw)) (\<lambda>a.
       if sr_cwd a \<noteq> [] then bindE (resolve_existing (ex_paths ex) (as_fs s) (sr_cwd a)) (\<lambda>c. Inr (a\<lparr>sr_cwd := c\<rparr>))
       else Inr a)"

definition start_process :: handler where
  "start_process ex d w raw s =
     (case start_args ex d raw s of
        Inl e \<Rightarrow> (Inl e, s)
      | Inr a \<Rightarrow>
        (case start (w_os w) a (as_procs s) of
           (r, m) \<Rightarrow> (map_ok (\<lambda>(sid, n). VStarted sid n) r, s\<lparr>as_procs := m\<rparr>)))"

definition read_process :: handler where
  "read_process ex d w raw s =
     reading (bindE (decode_args (dec_output d raw)) (\<lambda>(sid, cursor, maxBytes).
                map_ok VOutput (read_proc (as_procs s) sid cursor maxBytes))) s"

definition write_process :: handler where
  "write_process ex d w raw s =
     (case bindE (decode_args (dec_input d raw)) (\<lambda>a.
             bindE (if ia_encoding a = ''base64'' then
                      (case b64_decode (ia_data a) of None \<Rightarrow> Inl (ErrMsg ''invalid base64 data'') | Some b \<Rightarrow> Inr b)
                    else if ia_encoding a \<noteq> [] \<and> ia_encoding a \<noteq> ''utf-8'' then Inl (ErrMsg ''encoding must be utf-8 or base64'')
                    else Inr (bytes_of_string (ia_data a))) (\<lambda>data. Inr (ia_process_id a, data))) of
        Inl e \<Rightarrow> (Inl e, s)
      | Inr (sid, data) \<Rightarrow>
        (case write_proc (as_procs s) sid data (w_pipe w) of
           (r, m) \<Rightarrow> (map_ok (\<lambda>_. VInput (length data)) r, s\<lparr>as_procs := m\<rparr>)))"

definition terminate_process :: handler where
  "terminate_process ex d w raw s =
     (case decode_args (dec_process d raw) of
        Inl e \<Rightarrow> (Inl e, s)
      | Inr sid \<Rightarrow>
        (case terminate (as_procs s) sid (w_killed w) of
           (r, m) \<Rightarrow> (map_ok (\<lambda>_. VTerminated) r, s\<lparr>as_procs := m\<rparr>)))"

definition search_args :: "executor \<Rightarrow> decoders \<Rightarrow> string \<Rightarrow> agent_state \<Rightarrow> goerror + query" where
  "search_args ex d raw s =
     bindE (decode_args (dec_query d raw)) (\<lambda>a.
     bindE (resolve_existing (ex_paths ex) (as_fs s) (q_path a)) (\<lambda>root.
     bindE (lift_os (stat (as_fs s) root)) (\<lambda>st.
     bindE (ensure (is_directory st) (ErrMsg ''search path must be a directory'')) (\<lambda>_.
       Inr (a\<lparr>q_path := root\<rparr>)))))"

definition start_search_tool :: handler where
  "start_search_tool ex d w raw s =
     (case search_args ex d raw s of
        Inl e \<Rightarrow> (Inl e, s)
      | Inr q \<Rightarrow>
        (case start_search (w_search w) (w_regex w) (w_rand w) q (as_search s) of
           (r, m) \<Rightarrow> (map_ok VSearch r, s\<lparr>as_search := m\<rparr>)))"

definition get_more_search :: handler where
  "get_more_search ex d w raw s =
     (case decode_args (dec_more d raw) of
        Inl e \<Rightarrow> (Inl e, s)
      | Inr (sid, n) \<Rightarrow>
        (case get_more (as_search s) sid n of (r, m) \<Rightarrow> (map_ok VMore r, s\<lparr>as_search := m\<rparr>)))"

definition stop_search_tool :: handler where
  "stop_search_tool ex d w raw s =
     (case decode_args (dec_session d raw) of
        Inl e \<Rightarrow> (Inl e, s)
      | Inr sid \<Rightarrow>
        (case stop_search (as_search s) sid of (r, m) \<Rightarrow> (map_ok (\<lambda>_. VStopped) r, s\<lparr>as_search := m\<rparr>)))"

definition list_processes_tool :: handler where
  "list_processes_tool ex d w raw s =
     reading (bindE (decode_args (dec_max d raw)) (\<lambda>n.
                map_ok VProcesses (list_processes (windows (w_os w)) (w_csv w) (w_ps w) n))) s"

definition kill_process :: handler where
  "kill_process ex d w raw s =
     (if \<not> ex_allow_kill ex then (Inl (ErrMsg ''kill_process is disabled by agent policy''), s)
      else (case decode_args (dec_pid d raw) of
              Inl e \<Rightarrow> (Inl e, s)
            | Inr n \<Rightarrow>
              (case kill_pid (windows (w_os w)) (w_self w) (w_find w) (w_signal w) n of
                 (r, sent) \<Rightarrow> (map_ok (\<lambda>_. VKilled n) r, s\<lparr>as_signals := as_signals s @ sent\<rparr>))))"

definition get_config :: "executor \<Rightarrow> world \<Rightarrow> agent_state \<Rightarrow> config_view" where
  "get_config ex w s =
     \<lparr>cv_roots = roots (ex_paths ex), cv_os = w_goos w, cv_arch = w_goarch w, cv_max_procs = max_procs (as_procs s),
      cv_max_buffer = max_buffer (as_procs s), cv_max_runtime = max_runtime (as_procs s), cv_shell = allow_shell (as_procs s),
      cv_kill = ex_allow_kill ex, cv_search_sessions = 8, cv_search_results = 5000\<rparr>"

definition tool_handlers :: "(string \<times> handler) list" where
  "tool_handlers =
     [(''ping'', \<lambda>ex d w raw s. reading (Inr VOk) s),
      (''read_file'', \<lambda>ex d w raw s. reading (map_ok VFile (read_file (ex_paths ex) (w_files w) (as_fs s) (dec_read d raw))) s),
      (''write_file'', \<lambda>ex d w raw s. changing (\<lambda>(p, n). VWritten p n) (write_file (ex_paths ex) (w_files w) (as_fs s) (dec_write d raw)) s),
      (''read_multiple_files'', \<lambda>ex d w raw s.
         reading (map_ok VFiles (read_multiple_files (ex_paths ex) (w_files w) (as_fs s) (dec_multi d raw))) s),
      (''edit_block'', \<lambda>ex d w raw s.
         changing (\<lambda>(p, n, len). VEdited p n len) (edit_block (ex_paths ex) (w_files w) (as_fs s) (dec_edit d raw)) s),
      (''list_directory'', \<lambda>ex d w raw s.
         reading (map_ok (\<lambda>(p, es, t). VEntries p es t) (list_directory (ex_paths ex) (w_files w) (as_fs s) (dec_path d raw))) s),
      (''create_directory'', \<lambda>ex d w raw s. changing VPath (create_directory (ex_paths ex) (w_files w) (as_fs s) (dec_mkdir d raw)) s),
      (''move_file'', \<lambda>ex d w raw s. changing (\<lambda>(a, b). VMoved a b) (move_file (ex_paths ex) (w_files w) (as_fs s) (dec_move d raw)) s),
      (''get_file_info'', \<lambda>ex d w raw s.
         reading (map_ok (\<lambda>(p, n, len, m, dir). VInfo p n len m dir) (get_file_info (ex_paths ex) (w_files w) (as_fs s) (dec_path d raw))) s),
      (''start_process'', start_process),
      (''read_process_output'', read_process),
      (''interact_with_process'', write_process),
      (''force_terminate'', terminate_process),
      (''list_sessions'', \<lambda>ex d w raw s. reading (Inr (VSessions (summary_of (as_procs s)))) s),
      (''start_search'', start_search_tool),
      (''get_more_search_results'', get_more_search),
      (''stop_search'', stop_search_tool),
      (''list_searches'', \<lambda>ex d w raw s. reading (Inr (VSearches (list_searches (as_search s)))) s),
      (''list_processes'', list_processes_tool),
      (''kill_process'', kill_process),
      (''get_config'', \<lambda>ex d w raw s. reading (Inr (VConfig (get_config ex w s))) s)]"

definition supported_tools :: "string list" where
  "supported_tools = sort (map fst tool_handlers)"

definition execute :: "executor \<Rightarrow> decoders \<Rightarrow> world \<Rightarrow> string \<Rightarrow> string \<Rightarrow> agent_state \<Rightarrow> (goerror + tool_value) \<times> agent_state" where
  "execute ex d w tool raw s =
     (case map_of tool_handlers tool of
        None \<Rightarrow> (Inl (ErrMsg (''unsupported tool '' @ tool)), s)
      | Some h \<Rightarrow> h ex d w raw s)"

text \<open>\<^verbatim>\<open>NewWithOptions\<close>, with the managers it creates or is given.\<close>

definition new_executor :: "policy \<Rightarrow> bool \<Rightarrow> executor" where
  "new_executor paths allowKill = \<lparr>ex_paths = paths, ex_allow_kill = allowKill\<rparr>"

definition new_agent_state :: "fsys \<Rightarrow> manager \<Rightarrow> agent_state" where
  "new_agent_state fs m = \<lparr>as_fs = fs, as_procs = m, as_search = new_search_manager 8, as_signals = []\<rparr>"

end
