(* ===== verification/Sandbox.thy ===== *)
theory Sandbox
  imports Executor
begin

text \<open>
  The agent as a whole: whatever tools are called, in whatever order, with the goroutines of the
  process manager and of the searches running in between, the agent stays within its policy. The
  proof has one lemma per tool that changes something.
\<close>

section \<open>The steps of an agent\<close>

text \<open>
  \<open>self\<close> is the process id of the agent. A call moves no allowed root, and the random part of a
  temporary name has no slash. Between the calls the processes write and exit, and the searches go
  on; only a call starts a process.
\<close>

definition keeps_roots :: "executor \<Rightarrow> decoders \<Rightarrow> string \<Rightarrow> string \<Rightarrow> agent_state \<Rightarrow> bool" where
  "keeps_roots ex d tool raw s = (tool = ''move_file'' \<longrightarrow> \<not> moves_root (ex_paths ex) (as_fs s) (MoveFile (dec_move d raw)))"

inductive agent_step :: "executor \<Rightarrow> int \<Rightarrow> agent_state \<Rightarrow> agent_state \<Rightarrow> bool" for ex self where
  agent_call: "CHR ''/'' \<notin> set (tmp_random (w_files w)) \<Longrightarrow> w_self w = self \<Longrightarrow> keeps_roots ex d tool raw s \<Longrightarrow>
    agent_step ex self s (snd (execute ex d w tool raw s))"
| agent_procs: "proc_step (as_procs s) m \<Longrightarrow> length (heap m) = length (heap (as_procs s)) \<Longrightarrow>
    agent_step ex self s (s\<lparr>as_procs := m\<rparr>)"
| agent_search: "search_step lab (as_search s) m \<Longrightarrow> length (s_heap m) = length (s_heap (as_search s)) \<Longrightarrow>
    agent_step ex self s (s\<lparr>as_search := m\<rparr>)"

definition cwd_ok :: "policy \<Rightarrow> process \<Rightarrow> bool" where
  "cwd_ok p x \<longleftrightarrow> cmd_dir (cmd x) = [] \<or> inside p (comps (cmd_dir (cmd x)))"

definition agent_inv :: "executor \<Rightarrow> int \<Rightarrow> fsys \<Rightarrow> agent_state \<Rightarrow> bool" where
  "agent_inv ex self fs s \<longleftrightarrow>
     good_state (ex_paths ex) fs (as_fs s) \<and> proc_inv (as_procs s) \<and> search_inv (as_search s) \<and>
     list_all (cwd_ok (ex_paths ex)) (heap (as_procs s)) \<and>
     list_all (\<lambda>n. ex_allow_kill ex \<and> 0 < n \<and> n \<noteq> self) (as_signals s)"

section \<open>Lemmas\<close>

lemma inv_reading: "agent_inv ex self fs s \<Longrightarrow> agent_inv ex self fs (snd (reading r s))"
  by (simp add: reading_def)

text \<open>The four tools that change the file system, through their traces.\<close>

lemma inv_changing:
  assumes "agent_inv ex self fs s" and "policy_ok (ex_paths ex)" and "CHR ''/'' \<notin> set (tmp_random e)"
    and "\<not> moves_root (ex_paths ex) (as_fs s) c" and "snd r = change_trace (ex_paths ex) e (as_fs s) c"
  shows "agent_inv ex self fs (snd (changing f r s))"
proof -
  have g: "good_state (ex_paths ex) fs (as_fs s)" using assms(1) by (simp add: agent_inv_def)
  then have "wf_fs (as_fs s)" "roots_stand (ex_paths ex) (as_fs s)"
    by (simp_all add: good_state_def only_inside_def)
  from change_good [OF this(1) assms(2) this(2) assms(3,4)]
  have "good_state (ex_paths ex) (as_fs s) (last (snd r))" by (auto simp: assms(5))
  with g have "good_state (ex_paths ex) fs (last (snd r))"
    using only_inside_trans by (auto simp: good_state_def)
  with assms(1) show ?thesis by (simp add: agent_inv_def changing_def)
qed

lemma inv_start_process:
  assumes "agent_inv ex self fs s" and "policy_ok (ex_paths ex)"
  shows "agent_inv ex self fs (snd (start_process ex d w raw s))"
proof -
  have wf: "wf_fs (as_fs s)" using assms(1) by (simp add: agent_inv_def good_state_def only_inside_def)
  have ok: "agent_inv ex self fs (s\<lparr>as_procs := snd (start (w_os w) a (as_procs s))\<rparr>)"
    if "sr_cwd a = [] \<or> inside (ex_paths ex) (comps (sr_cwd a))" for a
  proof (cases rule: start_cases [of "w_os w" a "as_procs s"])
    case (fails err)
    with assms(1) show ?thesis by simp
  next
    case (starts sid c n)
    from launch_Inr [OF starts(3)] that have "c = c\<lparr>cmd_dir := sr_cwd a\<rparr>" by auto
    with that starts(4) assms(1) start_inv [of "as_procs s" "w_os w" a] show ?thesis
      by (auto simp: agent_inv_def cwd_ok_def) (metis os_command.ext_inject os_command.surjective os_command.update_convs(2))+
  qed
  have "sr_cwd a = [] \<or> inside (ex_paths ex) (comps (sr_cwd a))" if "start_args ex d raw s = Inr a" for a
  proof -
    obtain b where "a = b \<and> sr_cwd b = [] \<or> (\<exists>c. resolve_existing (ex_paths ex) (as_fs s) (sr_cwd b) = Inr c \<and> a = b\<lparr>sr_cwd := c\<rparr>)"
      using \<open>start_args ex d raw s = Inr a\<close> by (auto simp: start_args_def err_simps split: if_splits)
    then show ?thesis using existing.resolved_comps(1) [OF wf assms(2)] by auto
  qed
  with ok assms(1) show ?thesis
    by (cases "start_args ex d raw s") (simp_all add: start_process_def case_prod_beta)
qed

text \<open>The other tools act on one manager each, by steps that are known to keep its invariant.\<close>

lemma step_cmds:
  assumes "proc_step m m'" and "length (heap m') = length (heap m)"
  shows "map cmd (heap m') = map cmd (heap m)"
proof -
  have upd: "map cmd (heap (update_proc r f m)) = map cmd (heap m)" if "\<And>x. cmd (f x) = cmd x" for r f
    using that by (cases "r < length (heap m)") (simp_all add: update_proc_def map_update list_update_same_conv list_update_beyond)
  show ?thesis
    using assms
  proof (cases rule: proc_step.cases)
    case (step_start e req)
    with assms(2) show ?thesis by (cases rule: start_cases [of e req m]) simp_all
  next
    case (step_release r)
    then have "heap m' = heap (update_proc r (\<lambda>p. p\<lparr>phase := Released\<rparr>) m)" by (simp add: release_def)
    then show ?thesis by (simp add: upd)
  next
    case (step_expire r sid)
    then have "heap m' = heap (update_proc r (\<lambda>p. p\<lparr>phase := Expired\<rparr>) m)" by (simp add: expire_def)
    then show ?thesis by (simp add: upd)
  qed (auto simp: upd output_write_def proc_exited_def write_proc_def terminate_def cleanup_exited_def Let_def split: sum.splits)
qed

lemma inv_procs:
  assumes "agent_inv ex self fs s" and "proc_step (as_procs s) m" and "length (heap m) = length (heap (as_procs s))"
  shows "agent_inv ex self fs (s\<lparr>as_procs := m\<rparr>)"
proof -
  have "list_all (cwd_ok (ex_paths ex)) xs \<longleftrightarrow> list_all (\<lambda>c. cmd_dir c = [] \<or> inside (ex_paths ex) (comps (cmd_dir c))) (map cmd xs)" for xs
    by (induction xs) (simp_all add: cwd_ok_def)
  with assms step_cmds [OF assms(2,3)] proc_step_inv [OF assms(2)] show ?thesis
    by (simp add: agent_inv_def)
qed

lemma inv_search:
  "agent_inv ex self fs s \<Longrightarrow> search_step lab (as_search s) m \<Longrightarrow> agent_inv ex self fs (s\<lparr>as_search := m\<rparr>)"
  by (simp add: agent_inv_def search_inv_step)

lemma inv_write_process:
  assumes "agent_inv ex self fs s"
  shows "agent_inv ex self fs (snd (write_process ex d w raw s))"
proof -
  have "length (heap (snd (write_proc (as_procs s) sid data (w_pipe w)))) = length (heap (as_procs s))" for sid data
    by (auto simp: write_proc_def split: sum.splits)
  with inv_procs [OF assms step_write] assms show ?thesis
    by (auto simp: write_process_def case_prod_beta split: sum.split)
qed

lemma inv_terminate_process:
  assumes "agent_inv ex self fs s"
  shows "agent_inv ex self fs (snd (terminate_process ex d w raw s))"
proof -
  have "length (heap (snd (terminate (as_procs s) sid (w_killed w)))) = length (heap (as_procs s))" for sid
    by (auto simp: terminate_def split: sum.splits)
  with inv_procs [OF assms step_terminate] assms show ?thesis
    by (auto simp: terminate_process_def case_prod_beta split: sum.split)
qed

lemma inv_search_tools:
  assumes "agent_inv ex self fs s"
  shows "agent_inv ex self fs (snd (start_search_tool ex d w raw s))" "agent_inv ex self fs (snd (get_more_search ex d w raw s))"
    "agent_inv ex self fs (snd (stop_search_tool ex d w raw s))"
proof -
  have more: "agent_inv ex self fs (s\<lparr>as_search := snd (get_more (as_search s) sid n)\<rparr>)" for sid n
    using inv_search [OF assms step_more] assms by (cases "lookup_session (as_search s) sid") (simp_all add: get_more_def)
  show "agent_inv ex self fs (snd (start_search_tool ex d w raw s))" "agent_inv ex self fs (snd (get_more_search ex d w raw s))"
    "agent_inv ex self fs (snd (stop_search_tool ex d w raw s))"
    using inv_search [OF assms search_step.step_start] inv_search [OF assms search_step.step_stop] more assms
    by (auto simp: start_search_tool_def get_more_search_def stop_search_tool_def case_prod_beta split: sum.split)
qed

lemma inv_kill_process:
  assumes "agent_inv ex self fs s" and "w_self w = self"
  shows "agent_inv ex self fs (snd (kill_process ex d w raw s))"
  using assms
  by (auto simp: kill_process_def agent_inv_def list_all_iff case_prod_beta split: sum.split dest!: kill_pid_target)

lemma inv_execute:
  assumes "agent_inv ex self fs s" and "policy_ok (ex_paths ex)" and "CHR ''/'' \<notin> set (tmp_random (w_files w))"
    and "w_self w = self" and "keeps_roots ex d tool raw s"
  shows "agent_inv ex self fs (snd (execute ex d w tool raw s))"
proof (cases "map_of tool_handlers tool")
  case None
  with assms(1) show ?thesis by (simp add: execute_def)
next
  case (Some h)
  have W: "agent_inv ex self fs (snd (changing f (write_file (ex_paths ex) (w_files w) (as_fs s) a) s))" for f a
    by (rule inv_changing [OF assms(1-3), of "WriteFile a"]) (simp_all add: moves_root_def change_trace_def)
  have E: "agent_inv ex self fs (snd (changing f (edit_block (ex_paths ex) (w_files w) (as_fs s) a) s))" for f a
    by (rule inv_changing [OF assms(1-3), of "EditBlock a"]) (simp_all add: moves_root_def change_trace_def)
  have C: "agent_inv ex self fs (snd (changing f (create_directory (ex_paths ex) (w_files w) (as_fs s) a) s))" for f a
    by (rule inv_changing [OF assms(1-3), of "CreateDirectory a"]) (simp_all add: moves_root_def change_trace_def)
  have M: "agent_inv ex self fs (snd (changing f (move_file (ex_paths ex) (w_files w) (as_fs s) (dec_move d raw)) s))"
    if "keeps_roots ex d ''move_file'' raw s" for f
    using that by (intro inv_changing [OF assms(1-3), of "MoveFile (dec_move d raw)"]) (simp_all add: change_trace_def keeps_roots_def)
  have "list_all (\<lambda>(t, h). keeps_roots ex d t raw s \<longrightarrow> agent_inv ex self fs (snd (h ex d w raw s))) tool_handlers"
    unfolding tool_handlers_def
    by (simp add: inv_reading [OF assms(1)] inv_start_process [OF assms(1,2)] inv_write_process [OF assms(1)]
        inv_terminate_process [OF assms(1)] inv_search_tools [OF assms(1)] inv_kill_process [OF assms(1,4)] W E C M
        read_process_def list_processes_tool_def)
  with map_of_SomeD [OF Some] assms(5) have "agent_inv ex self fs (snd (h ex d w raw s))"
    by (auto simp: list_all_iff)
  with Some show ?thesis by (simp add: execute_def)
qed

lemma agent_step_config:
  assumes "agent_step ex self t s'"
  shows "max_procs (as_procs s') = max_procs (as_procs t) \<and> max_buffer (as_procs s') = max_buffer (as_procs t)"
  using assms
proof (cases rule: agent_step.cases)
  case (agent_call w d tool raw)
  have "list_all (\<lambda>(n, h). proc_step\<^sup>*\<^sup>* (as_procs t) (as_procs (snd (h ex d w raw t)))) tool_handlers"
    unfolding tool_handlers_def
    by (auto simp: reading_def changing_def start_process_def write_process_def terminate_process_def start_search_tool_def
        get_more_search_def stop_search_tool_def kill_process_def read_process_def list_processes_tool_def case_prod_beta
        split: sum.split intro: proc_step.intros)
  then have "proc_step\<^sup>*\<^sup>* (as_procs t) (as_procs s')"
    using agent_call(1) by (auto simp: execute_def list_all_iff split: option.splits dest!: map_of_SomeD)
  then show ?thesis by (induction rule: rtranclp_induct) (auto dest: proc_step_config)
qed (auto dest: proc_step_config)

text \<open>
  Start the agent with a policy that \<^verbatim>\<open>pathpolicy.New\<close> accepts, and let
  clients call any of its tools in any order while processes and searches run; only a call that
  would move an allowed root is left out. Then in every state: nothing outside the roots has been
  changed by the file tools, and the roots still stand; at most the configured number of processes
  runs, none with a working directory outside the roots unless the client left it unset; no process
  output buffer exceeds its bound; and operating-system processes have been signalled only if the
  policy enables it, never the agent itself.
\<close>

lemma agent_sandboxed:
  assumes "wf_fs fs" and "new_policy fs rs = Inr p" and "0 \<le> maxProcs"
    and "(agent_step (new_executor p kill) self)\<^sup>*\<^sup>* (new_agent_state fs (new_manager maxProcs maxBuffer maxRuntime shell)) s"
  shows "(\<forall>q. \<not> inside p q \<longrightarrow> nodes (as_fs s) q = nodes fs q) \<and> roots_stand p (as_fs s) \<and>
    active (as_procs s) \<le> maxProcs \<and>
    list_all (\<lambda>x. (cmd_dir (cmd x) = [] \<or> inside p (comps (cmd_dir (cmd x)))) \<and>
       int (length (rdata (buf x))) \<le> max 0 maxBuffer) (heap (as_procs s)) \<and>
    list_all (\<lambda>n. kill \<and> 0 < n \<and> n \<noteq> self) (as_signals s)"
proof -
  let ?ex = "new_executor p kill"
  let ?s0 = "new_agent_state fs (new_manager maxProcs maxBuffer maxRuntime shell)"
  have p: "policy_ok p" "roots_stand p fs" using new_policy_roots [OF assms(1,2)] by (auto simp: roots_stand_iff)
  have "agent_inv ?ex self fs s \<and> max_procs (as_procs s) = maxProcs \<and> max_buffer (as_procs s) = maxBuffer"
    using assms(4)
  proof (induction rule: rtranclp_induct)
    case base
    show ?case
      using good_state_refl [OF assms(1) p(2)] new_manager_inv [of maxProcs maxBuffer maxRuntime shell]
      by (simp add: agent_inv_def new_agent_state_def new_executor_def new_search_manager_def search_inv_def active_sessions_def)
        (simp add: new_manager_def)
  next
    case (step t s')
    then have "agent_inv ?ex self fs s'"
      using p(1) inv_execute [of ?ex self fs t] inv_procs inv_search by (auto simp: new_executor_def elim!: agent_step.cases)
    with step agent_step_config [OF step.hyps(2)] show ?case by simp
  qed
  then show ?thesis
    using assms(3) by (auto simp: agent_inv_def good_state_def only_inside_def proc_inv_def proc_ok_def cwd_ok_def list_all_iff new_executor_def)
qed

text \<open>An agent at work.\<close>

definition demo_decoders :: decoders where
  "demo_decoders = \<lparr>dec_read = (\<lambda>_. None), dec_write = (\<lambda>_. Some demo_write), dec_multi = (\<lambda>_. None), dec_edit = (\<lambda>_. None),
     dec_path = (\<lambda>_. None), dec_mkdir = (\<lambda>_. Some (''/r/n'', 0)), dec_move = (\<lambda>_. None),
     dec_start = (\<lambda>_. Some \<lparr>argv = [''ls''], command = [], sr_cwd = ''/r'', envs = []\<rparr>), dec_output = (\<lambda>_. None),
     dec_input = (\<lambda>_. None), dec_process = (\<lambda>_. None), dec_query = (\<lambda>_. None), dec_more = (\<lambda>_. None), dec_session = (\<lambda>_. None),
     dec_max = (\<lambda>_. None), dec_pid = (\<lambda>_. Some 7)\<rparr>"

definition demo_world :: world where
  "demo_world = \<lparr>w_files = demo_file_env,
     w_os = \<lparr>windows = False, environ = [], rand16 = Some [1], stdin_pipe = True, spawn = (\<lambda>_. Some 99)\<rparr>,
     w_pipe = (0, False), w_killed = True, w_search = demo_search_env, w_regex = (\<lambda>p. Inl (ErrMsg p)), w_rand = Some [1],
     w_csv = (\<lambda>_. []), w_ps = \<lparr>cr_pipe = None, cr_start = None, cr_output = [], cr_read = None, cr_wait = None\<rparr>,
     w_self = 1, w_find = (\<lambda>_. None), w_signal = (\<lambda>_. None), w_goos = ''linux'', w_goarch = ''amd64''\<rparr>"

definition demo_agent :: agent_state where
  "demo_agent = snd (execute (new_executor demo_policy False) demo_decoders demo_world ''kill_process'' []
     (snd (execute (new_executor demo_policy False) demo_decoders demo_world ''start_process'' []
       (snd (execute (new_executor demo_policy False) demo_decoders demo_world ''write_file'' []
         (new_agent_state demo_fs (new_manager 2 64 0 False)))))))"

end
