(* ===== verification/Store.thy ===== *)
theory Store
  imports Base64
begin

text \<open>
  The store of devices and pairings (\<^verbatim>\<open>internal/store/store.go\<close>, \<^verbatim>\<open>memory.go\<close>). The
  maps of the in-memory implementation are association lists (the order of a Go map is not
  specified; nothing below depends on it). \<^verbatim>\<open>time.Now()\<close> is an argument, and SHA-256, which
  \<^verbatim>\<open>HashSecret\<close> uses, is an argument \<open>sha256\<close>. Each operation is one critical section.

  The locale \<open>device_store\<close> is the part of the interface \<^verbatim>\<open>Store\<close> on which the other
  components rely; it is interpreted on the in-memory implementation.
\<close>

section \<open>Definitions\<close>

datatype storeerr =
    NotFound
  | Unauthorized
  | PairingPending
  | PairingExpired
  | PairingUsed
  | StoreMsg string

record device =
  dev_id :: string
  owner_subject :: string
  dev_name :: string
  created_at :: time
  last_seen_at :: "time option"
  revoked_at :: "time option"
  online :: bool

record audit_event =
  ev_owner :: string
  ev_device :: string
  ev_tool :: string
  ev_status :: string
  ev_duration :: duration
  ev_error :: string

record pairing =
  device_code_hash :: string
  user_code_hash :: string
  device_name :: string
  expires_at :: time
  pair_owner :: string
  approved_at :: "time option"
  consumed_at :: "time option"

record memory_device =
  mdev :: device
  token_hash :: string

record memory =
  devices :: "(string \<times> memory_device) list"
  pairings :: "(string \<times> pairing) list"
  user_code :: "(string \<times> string) list"
  audit :: "audit_event list"

definition hash_secret :: "(bytes \<Rightarrow> bytes) \<Rightarrow> string \<Rightarrow> string" where
  "hash_secret sha256 secret = hex_encode (sha256 (bytes_of_string secret))"

definition new_memory :: memory where
  "new_memory = \<lparr>devices = [], pairings = [], user_code = [], audit = []\<rparr>"

definition stamp :: "time \<Rightarrow> device \<Rightarrow> device" where
  "stamp now d = (if created_at d = 0 then d\<lparr>created_at := now\<rparr> else d)"

definition create_device ::
  "(bytes \<Rightarrow> bytes) \<Rightarrow> time \<Rightarrow> device \<Rightarrow> string \<Rightarrow> memory \<Rightarrow> (storeerr + unit) \<times> memory" where
  "create_device sha256 now d token m =
     (if map_of (devices m) (dev_id d) \<noteq> None then (Inl (StoreMsg ''device already exists''), m)
      else (Inr (), m\<lparr>devices := AList.update (dev_id d)
              \<lparr>mdev = stamp now d, token_hash = hash_secret sha256 token\<rparr> (devices m)\<rparr>))"

definition get_device :: "memory \<Rightarrow> string \<Rightarrow> string \<Rightarrow> storeerr + device" where
  "get_device m owner did =
     (case map_of (devices m) did of
        None \<Rightarrow> Inl NotFound
      | Some d \<Rightarrow>
        if owner_subject (mdev d) \<noteq> owner \<or> revoked_at (mdev d) \<noteq> None then Inl NotFound
        else Inr (mdev d))"

definition list_devices :: "memory \<Rightarrow> string \<Rightarrow> device list" where
  "list_devices m owner =
     sort_key created_at
       (map (mdev \<circ> snd)
         (filter (\<lambda>(i, d). owner_subject (mdev d) = owner \<and> revoked_at (mdev d) = None) (devices m)))"

definition authenticate_device ::
  "(bytes \<Rightarrow> bytes) \<Rightarrow> memory \<Rightarrow> string \<Rightarrow> string \<Rightarrow> storeerr + device" where
  "authenticate_device sha256 m did token =
     (case map_of (devices m) did of
        None \<Rightarrow> Inl Unauthorized
      | Some d \<Rightarrow>
        if revoked_at (mdev d) \<noteq> None \<or> token_hash d \<noteq> hash_secret sha256 token then Inl Unauthorized
        else Inr (mdev d))"

definition touch_device :: "time \<Rightarrow> string \<Rightarrow> memory \<Rightarrow> (storeerr + unit) \<times> memory" where
  "touch_device now did m =
     (case map_of (devices m) did of
        None \<Rightarrow> (Inl NotFound, m)
      | Some d \<Rightarrow>
        (Inr (), m\<lparr>devices := AList.update did (d\<lparr>mdev := (mdev d)\<lparr>last_seen_at := Some now\<rparr>\<rparr>) (devices m)\<rparr>))"

definition revoke_device :: "time \<Rightarrow> string \<Rightarrow> string \<Rightarrow> memory \<Rightarrow> (storeerr + unit) \<times> memory" where
  "revoke_device now owner did m =
     (case map_of (devices m) did of
        None \<Rightarrow> (Inl NotFound, m)
      | Some d \<Rightarrow>
        if owner_subject (mdev d) \<noteq> owner \<or> revoked_at (mdev d) \<noteq> None then (Inl NotFound, m)
        else (Inr (), m\<lparr>devices := AList.update did (d\<lparr>mdev := (mdev d)\<lparr>revoked_at := Some now\<rparr>\<rparr>) (devices m)\<rparr>))"

definition write_audit :: "audit_event \<Rightarrow> memory \<Rightarrow> memory" where
  "write_audit e m =
     (let a = (if length (audit m) \<ge> 10000 then drop (length (audit m) - 5000) (audit m) else audit m)
      in m\<lparr>audit := a @ [e]\<rparr>)"

definition create_pairing :: "pairing \<Rightarrow> memory \<Rightarrow> (storeerr + unit) \<times> memory" where
  "create_pairing p m =
     (if map_of (pairings m) (device_code_hash p) \<noteq> None then (Inl (StoreMsg ''pairing exists''), m)
      else if map_of (user_code m) (user_code_hash p) \<noteq> None
      then (Inl (StoreMsg ''user code collision''), m)
      else (Inr (), m\<lparr>pairings := AList.update (device_code_hash p) p (pairings m),
                      user_code := AList.update (user_code_hash p) (device_code_hash p) (user_code m)\<rparr>))"

text \<open>The zero value that a Go map returns for a missing key.\<close>

definition zero_pairing :: pairing where
  "zero_pairing = \<lparr>device_code_hash = [], user_code_hash = [], device_name = [], expires_at = 0,
     pair_owner = [], approved_at = None, consumed_at = None\<rparr>"

definition approve_pairing ::
  "time \<Rightarrow> string \<Rightarrow> string \<Rightarrow> memory \<Rightarrow> (storeerr + unit) \<times> memory" where
  "approve_pairing now userCodeHash owner m =
     (case map_of (user_code m) userCodeHash of
        None \<Rightarrow> (Inl NotFound, m)
      | Some deviceHash \<Rightarrow>
        (let p = (case map_of (pairings m) deviceHash of None \<Rightarrow> zero_pairing | Some p \<Rightarrow> p)
         in if now > expires_at p then (Inl PairingExpired, m)
            else if consumed_at p \<noteq> None then (Inl PairingUsed, m)
            else (Inr (), m\<lparr>pairings := AList.update deviceHash
                    (p\<lparr>pair_owner := owner, approved_at := Some now\<rparr>) (pairings m)\<rparr>)))"

definition consume_pairing ::
  "(bytes \<Rightarrow> bytes) \<Rightarrow> time \<Rightarrow> string \<Rightarrow> device \<Rightarrow> string \<Rightarrow> memory \<Rightarrow> (storeerr + device) \<times> memory" where
  "consume_pairing sha256 now deviceCodeHash d token m =
     (case map_of (pairings m) deviceCodeHash of
        None \<Rightarrow> (Inl NotFound, m)
      | Some p \<Rightarrow>
        if now > expires_at p then (Inl PairingExpired, m)
        else if consumed_at p \<noteq> None then (Inl PairingUsed, m)
        else if approved_at p = None \<or> pair_owner p = [] then (Inl PairingPending, m)
        else if map_of (devices m) (dev_id d) \<noteq> None then (Inl (StoreMsg ''device id collision''), m)
        else
          (let d' = stamp now (d\<lparr>owner_subject := pair_owner p, dev_name := device_name p\<rparr>)
           in (Inr d',
               m\<lparr>devices := AList.update (dev_id d') \<lparr>mdev = d', token_hash = hash_secret sha256 token\<rparr> (devices m),
                 pairings := AList.update deviceCodeHash (p\<lparr>consumed_at := Some now\<rparr>) (pairings m)\<rparr>)))"

text \<open>The operations that change the store, as events, and their execution in sequence.\<close>

datatype store_op =
    OpCreateDevice time device string
  | OpTouch time string
  | OpRevoke time string string
  | OpAudit audit_event
  | OpCreatePairing pairing
  | OpApprove time string string
  | OpConsume time string device string

fun exec :: "(bytes \<Rightarrow> bytes) \<Rightarrow> store_op \<Rightarrow> memory \<Rightarrow> memory" where
  "exec h (OpCreateDevice now d token) m = snd (create_device h now d token m)"
| "exec h (OpTouch now did) m = snd (touch_device now did m)"
| "exec h (OpRevoke now owner did) m = snd (revoke_device now owner did m)"
| "exec h (OpAudit e) m = write_audit e m"
| "exec h (OpCreatePairing p) m = snd (create_pairing p m)"
| "exec h (OpApprove now u owner) m = snd (approve_pairing now u owner m)"
| "exec h (OpConsume now c d token) m = snd (consume_pairing h now c d token m)"

definition run :: "(bytes \<Rightarrow> bytes) \<Rightarrow> store_op list \<Rightarrow> memory \<Rightarrow> memory" where
  "run h ops m = foldl (\<lambda>m op. exec h op m) m ops"

section \<open>The interface\<close>

locale device_store =
  fixes sinv :: "'s \<Rightarrow> bool"
    and get_dev :: "'s \<Rightarrow> string \<Rightarrow> string \<Rightarrow> storeerr + device"
    and auth :: "'s \<Rightarrow> string \<Rightarrow> string \<Rightarrow> storeerr + device"
    and revoke :: "time \<Rightarrow> string \<Rightarrow> string \<Rightarrow> 's \<Rightarrow> (storeerr + unit) \<times> 's"
    and consume :: "time \<Rightarrow> string \<Rightarrow> device \<Rightarrow> string \<Rightarrow> 's \<Rightarrow> (storeerr + device) \<times> 's"
    and perform :: "'op \<Rightarrow> 's \<Rightarrow> 's"
    and gone :: "'s \<Rightarrow> string \<Rightarrow> bool"
    and used :: "'s \<Rightarrow> string \<Rightarrow> bool"
  assumes perform_inv: "sinv s \<Longrightarrow> sinv (perform op s)"
    and get_sound: "sinv s \<Longrightarrow> get_dev s owner i = Inr d \<Longrightarrow>
      dev_id d = i \<and> owner_subject d = owner \<and> revoked_at d = None"
    and auth_sound: "sinv s \<Longrightarrow> auth s i token = Inr d \<Longrightarrow> get_dev s (owner_subject d) i = Inr d"
    and consume_auth: "consume now c d token s = (Inr d', s') \<Longrightarrow>
      revoked_at d = None \<Longrightarrow> auth s' (dev_id d) token = Inr d'"
    and consume_used: "consume now c d token s = (Inr d', s') \<Longrightarrow> used s' c"
    and used_consume: "used s c \<Longrightarrow> fst (consume now c d token s) \<noteq> Inr d'"
    and perform_used: "used s c \<Longrightarrow> used (perform op s) c"
    and revoke_gone: "revoke now owner i s = (Inr u, s') \<Longrightarrow> gone s' i"
    and gone_auth: "gone s i \<Longrightarrow> auth s i token = Inl Unauthorized"
    and gone_get: "gone s i \<Longrightarrow> get_dev s owner i = Inl NotFound"
    and perform_gone: "gone s i \<Longrightarrow> gone (perform op s) i"
begin

definition performs :: "'op list \<Rightarrow> 's \<Rightarrow> 's" where
  "performs ops s = foldl (\<lambda>s op. perform op s) s ops"

lemma performs_inv: "sinv s \<Longrightarrow> sinv (performs ops s)"
  unfolding performs_def by (induction ops arbitrary: s) (simp_all add: perform_inv)

lemma performs_gone: "gone s i \<Longrightarrow> gone (performs ops s) i"
  unfolding performs_def by (induction ops arbitrary: s) (simp_all add: perform_gone)

lemma performs_used: "used s c \<Longrightarrow> used (performs ops s) c"
  unfolding performs_def by (induction ops arbitrary: s) (simp_all add: perform_used)

text \<open>Revocation is permanent, whatever happens afterwards.\<close>

lemma revoked_forever:
  assumes "revoke now owner i s = (Inr u, s')"
  shows "auth (performs ops s') i token = Inl Unauthorized \<and> get_dev (performs ops s') owner' i = Inl NotFound"
  using performs_gone [OF revoke_gone [OF assms]] gone_auth gone_get by metis

text \<open>A device code is exchanged for credentials at most once.\<close>

lemma consumed_once:
  assumes "consume now c d token s = (Inr d1, s')"
  shows "fst (consume now' c d' token' (performs ops s')) \<noteq> Inr d2"
  using performs_used [OF consume_used [OF assms]] used_consume by metis

end

section \<open>Invariant\<close>

definition mem_inv :: "memory \<Rightarrow> bool" where
  "mem_inv m =
     (distinct (map fst (devices m)) \<and>
      (\<forall>i d. map_of (devices m) i = Some d \<longrightarrow> dev_id (mdev d) = i) \<and>
      (\<forall>c p. map_of (pairings m) c = Some p \<longrightarrow> device_code_hash p = c) \<and>
      (\<forall>u c. map_of (user_code m) u = Some c \<longrightarrow>
         (\<exists>p. map_of (pairings m) c = Some p \<and> user_code_hash p = u)) \<and>
      length (audit m) \<le> 10000)"

definition mem_gone :: "memory \<Rightarrow> string \<Rightarrow> bool" where
  "mem_gone m i = (\<exists>d. map_of (devices m) i = Some d \<and> revoked_at (mdev d) \<noteq> None)"

definition mem_used :: "memory \<Rightarrow> string \<Rightarrow> bool" where
  "mem_used m c = (\<exists>p. map_of (pairings m) c = Some p \<and> consumed_at p \<noteq> None)"

section \<open>Lemmas\<close>

declare map_of_eq_Some_iff [simp del] Some_eq_map_of_iff [simp del]

lemma new_memory_inv: "mem_inv new_memory"
  by (simp add: mem_inv_def new_memory_def)

lemma stamp_simps [simp]:
  "dev_id (stamp now d) = dev_id d" "owner_subject (stamp now d) = owner_subject d"
  "dev_name (stamp now d) = dev_name d" "revoked_at (stamp now d) = revoked_at d"
  by (simp_all add: stamp_def)

lemmas store_defs =
  create_device_def touch_device_def revoke_device_def write_audit_def create_pairing_def
  approve_pairing_def consume_pairing_def Let_def

lemma approve_cases:
  assumes "mem_inv m"
  obtains (refused) e where "approve_pairing now u owner m = (Inl e, m)"
  | (approved) c p where "map_of (user_code m) u = Some c" "map_of (pairings m) c = Some p"
    "user_code_hash p = u" "device_code_hash p = c" "now \<le> expires_at p" "consumed_at p = None"
    "approve_pairing now u owner m =
      (Inr (), m\<lparr>pairings := AList.update c (p\<lparr>pair_owner := owner, approved_at := Some now\<rparr>) (pairings m)\<rparr>)"
proof (cases "map_of (user_code m) u")
  case None
  with refused show ?thesis by (simp add: approve_pairing_def)
next
  case (Some c)
  then obtain p where p: "map_of (pairings m) c = Some p" "user_code_hash p = u" "device_code_hash p = c"
    using assms unfolding mem_inv_def by blast
  show ?thesis
  proof (cases "now > expires_at p \<or> consumed_at p \<noteq> None")
    case True
    then have "\<exists>e. approve_pairing now u owner m = (Inl e, m)"
      using Some p(1) by (auto simp: approve_pairing_def)
    with refused show ?thesis by blast
  next
    case False
    with Some p show ?thesis by (intro approved [of c p]) (simp_all add: approve_pairing_def)
  qed
qed

lemma exec_inv: "mem_inv m \<Longrightarrow> mem_inv (exec h op m)"
proof (cases op)
  case (OpCreatePairing p)
  then show "mem_inv m \<Longrightarrow> ?thesis"
    by (auto simp: mem_inv_def store_defs update_conv') fastforce
next
  case (OpApprove now u owner)
  assume inv: "mem_inv m"
  then show ?thesis
  proof (cases rule: approve_cases [of m now u owner])
    case (approved c p)
    with inv OpApprove show ?thesis
      by (auto simp: mem_inv_def update_conv') (metis option.inject)
  qed (use OpApprove inv in simp)
next
  case (OpConsume now c d token)
  then show "mem_inv m \<Longrightarrow> ?thesis"
    by (auto simp: mem_inv_def store_defs update_conv' distinct_update split: option.splits)
      (metis option.inject)
qed (auto simp: mem_inv_def store_defs update_conv' distinct_update split: option.splits)

lemma exec_gone: "mem_gone m i \<Longrightarrow> mem_gone (exec h op m) i"
  by (cases op) (auto simp: mem_gone_def store_defs update_conv' split: option.splits)

lemma exec_used: "mem_used m c \<Longrightarrow> mem_used (exec h op m) c"
  by (cases op) (auto simp: mem_used_def store_defs update_conv' split: option.splits)

interpretation mem: device_store mem_inv get_device "authenticate_device h" revoke_device
  "consume_pairing h" "exec h" mem_gone mem_used
  for h
proof (unfold_locales, goal_cases)
  case (1 s op)
  then show ?case by (rule exec_inv)
next
  case (2 s owner i d)
  then show ?case by (auto simp: get_device_def mem_inv_def split: option.splits if_splits)
next
  case (3 s i token d)
  then show ?case by (auto simp: get_device_def authenticate_device_def split: option.splits if_splits)
next
  case (4 now c d token s d' s')
  then show ?case
    by (auto simp: consume_pairing_def authenticate_device_def update_conv' Let_def split: option.splits if_splits)
next
  case (5 now c d token s d' s')
  then show ?case
    by (auto simp: consume_pairing_def mem_used_def update_conv' Let_def split: option.splits if_splits)
next
  case (6 s c now d token d')
  then show ?case
    by (auto simp: consume_pairing_def mem_used_def Let_def split: option.splits if_splits)
next
  case (7 s c op)
  then show ?case by (rule exec_used)
next
  case (8 now owner i s u s')
  then show ?case
    by (auto simp: revoke_device_def mem_gone_def update_conv' split: option.splits if_splits)
next
  case (9 s i token)
  then show ?case by (auto simp: mem_gone_def authenticate_device_def)
next
  case (10 s i owner)
  then show ?case by (auto simp: mem_gone_def get_device_def)
next
  case (11 s i op)
  then show ?case by (rule exec_gone)
qed

lemma run_performs: "run h ops m = mem.performs h ops m"
  by (simp add: run_def mem.performs_def)

text \<open>
  Where an approval comes from: in a store that was built by operations, a pairing and its approval
  go back to operations of the history.
\<close>

definition fresh_pairings :: "store_op list \<Rightarrow> bool" where
  "fresh_pairings ops =
     list_all (\<lambda>op. case op of OpCreatePairing p \<Rightarrow> approved_at p = None \<and> consumed_at p = None \<and> pair_owner p = []
                  | _ \<Rightarrow> True) ops"

definition traced :: "store_op list \<Rightarrow> pairing \<Rightarrow> bool" where
  "traced ops p =
     ((\<exists>p0. OpCreatePairing p0 \<in> set ops \<and> device_code_hash p0 = device_code_hash p \<and>
        user_code_hash p0 = user_code_hash p \<and> device_name p0 = device_name p \<and> expires_at p0 = expires_at p) \<and>
      (\<forall>t. approved_at p = Some t \<longrightarrow> t \<le> expires_at p \<and> OpApprove t (user_code_hash p) (pair_owner p) \<in> set ops))"

lemma traced_mono: "traced ops p \<Longrightarrow> traced (ops @ later) p"
  by (auto simp: traced_def)

lemma traced_updates [simp]:
  "traced ops (p\<lparr>consumed_at := x\<rparr>) = traced ops p"
  by (simp add: traced_def)

lemma exec_traced:
  assumes "mem_inv m" and "\<forall>c p. map_of (pairings m) c = Some p \<longrightarrow> traced ops p"
    and "fresh_pairings [op]"
  shows "\<forall>c p. map_of (pairings (exec h op m)) c = Some p \<longrightarrow> traced (ops @ [op]) p"
proof (cases op)
  case (OpCreatePairing p)
  then have "traced (ops @ [op]) p"
    using assms(3) by (auto simp: traced_def fresh_pairings_def)
  with OpCreatePairing assms(2) show ?thesis
    by (auto simp: store_defs update_conv' intro: traced_mono)
next
  case (OpApprove now u owner)
  then have new: "traced (ops @ [op]) (p\<lparr>pair_owner := owner, approved_at := Some now\<rparr>)"
    if "traced ops p" "user_code_hash p = u" "now \<le> expires_at p" for p
    using that by (auto simp: traced_def)
  with assms(1) show ?thesis
  proof (cases rule: approve_cases [of m now u owner])
    case (approved c p)
    then have "traced (ops @ [op]) (p\<lparr>pair_owner := owner, approved_at := Some now\<rparr>)"
      using OpApprove assms(2) new by blast
    with approved(7) OpApprove assms(2) show ?thesis
      by (auto simp: update_conv' intro: traced_mono)
  qed (use OpApprove assms(2) in \<open>auto intro: traced_mono\<close>)
qed (use assms(2) in \<open>auto simp: store_defs update_conv' intro: traced_mono split: option.splits\<close>)

lemma run_snoc [simp]: "run h [] m = m" "run h (ops @ [op]) m = exec h op (run h ops m)"
  by (simp_all add: run_def)

lemma run_traced:
  "fresh_pairings ops \<Longrightarrow> mem_inv (run h ops new_memory) \<and>
     (\<forall>c p. map_of (pairings (run h ops new_memory)) c = Some p \<longrightarrow> traced ops p)"
proof (induction ops rule: rev_induct)
  case Nil
  then show ?case by (simp add: new_memory_inv) (simp add: new_memory_def)
next
  case (snoc op ops)
  then have "fresh_pairings ops" "fresh_pairings [op]" by (simp_all add: fresh_pairings_def)
  with snoc.IH exec_traced [of "run h ops new_memory" ops op h] exec_inv show ?case by simp
qed

section \<open>Properties\<close>

text \<open>
  Revocation is permanent: after \<^verbatim>\<open>RevokeDevice\<close> has succeeded, no sequence of operations
  whatever (re-pairing and device creation included) makes the device authenticate again with any
  token or visible to any owner.
\<close>

theorem revocation_permanent:
  assumes "revoke_device now owner did m = (Inr u, m')"
  shows "authenticate_device sha256 (run sha256 ops m') did token = Inl Unauthorized \<and>
    get_device (run sha256 ops m') owner' did = Inl NotFound"
  using mem.revoked_forever [OF assms] by (simp add: run_performs)

definition demo_device :: device where
  "demo_device = \<lparr>dev_id = ''dev_1'', owner_subject = ''alice'', dev_name = ''laptop'', created_at = 0,
     last_seen_at = None, revoked_at = None, online = False\<rparr>"

definition demo_memory :: memory where
  "demo_memory = run (\<lambda>b. b) [OpCreateDevice 7 demo_device ''tok''] new_memory"

theorem revocation_permanent_witness:
  "authenticate_device (\<lambda>b. b) (run (\<lambda>b. b) [OpCreateDevice 9 demo_device ''tok'']
      (snd (revoke_device 8 ''alice'' ''dev_1'' demo_memory))) ''dev_1'' ''tok'' = Inl Unauthorized"
proof -
  have "revoke_device 8 ''alice'' ''dev_1'' demo_memory = (Inr (), snd (revoke_device 8 ''alice'' ''dev_1'' demo_memory))"
    by (simp add: demo_memory_def demo_device_def run_def new_memory_def store_defs stamp_def)
  from revocation_permanent [OF this] show ?thesis by blast
qed

text \<open>
  C12. Pairing gives access only to whom the owner approved: if \<^verbatim>\<open>ConsumePairing\<close> succeeds in a
  store built by any sequence of operations in which pairings are created unapproved, then the
  pairing was created, not expired and not consumed before, the owner of the new device approved
  it by its user code before it expired, and the device carries that owner and the name given when
  the pairing was created.
\<close>

theorem consume_only_approved:
  assumes "fresh_pairings ops"
    and "consume_pairing sha256 now c d token (run sha256 ops new_memory) = (Inr d', m')"
  shows "\<exists>p0 t. OpCreatePairing p0 \<in> set ops \<and> device_code_hash p0 = c \<and> now \<le> expires_at p0 \<and>
    t \<le> expires_at p0 \<and> OpApprove t (user_code_hash p0) (owner_subject d') \<in> set ops \<and>
    owner_subject d' \<noteq> [] \<and> dev_name d' = device_name p0 \<and> dev_id d' = dev_id d"
proof -
  let ?m = "run sha256 ops new_memory"
  have inv: "mem_inv ?m" and tr: "\<forall>c p. map_of (pairings ?m) c = Some p \<longrightarrow> traced ops p"
    using run_traced [OF assms(1)] by blast+
  from assms(2) obtain p t where p: "map_of (pairings ?m) c = Some p" "now \<le> expires_at p"
    "approved_at p = Some t" "pair_owner p \<noteq> []"
    and d: "owner_subject d' = pair_owner p" "dev_name d' = device_name p" "dev_id d' = dev_id d"
    by (auto simp: consume_pairing_def Let_def not_less split: option.splits if_splits)
  have "device_code_hash p = c"
    using inv p(1) by (auto simp: mem_inv_def)
  with tr p d show ?thesis
    unfolding traced_def by metis
qed

definition demo_pairing :: pairing where
  "demo_pairing = \<lparr>device_code_hash = ''dc'', user_code_hash = ''uc'', device_name = ''laptop'', expires_at = 100,
     pair_owner = [], approved_at = None, consumed_at = None\<rparr>"

theorem consume_only_approved_witness:
  "\<exists>p0 t. OpCreatePairing p0 \<in> set [OpCreatePairing demo_pairing, OpApprove 5 ''uc'' ''bob''] \<and>
     device_code_hash p0 = ''dc'' \<and> OpApprove t (user_code_hash p0) ''bob'' \<in> set [OpCreatePairing demo_pairing, OpApprove 5 ''uc'' ''bob'']"
proof -
  let ?ops = "[OpCreatePairing demo_pairing, OpApprove 5 ''uc'' ''bob'']"
  let ?d = "demo_device\<lparr>owner_subject := ''bob'', created_at := 9\<rparr>"
  let ?c = "consume_pairing (\<lambda>b. b) 9 ''dc'' demo_device ''tok'' (run (\<lambda>b. b) ?ops new_memory)"
  have "fst ?c = Inr ?d"
    by (simp add: demo_device_def demo_pairing_def run_def new_memory_def store_defs stamp_def)
  then have "?c = (Inr ?d, snd ?c)" by (metis prod.collapse)
  from consume_only_approved [OF _ this] show ?thesis
    by (fastforce simp: fresh_pairings_def demo_pairing_def)
qed

text \<open>
  A device code works once: after \<^verbatim>\<open>ConsumePairing\<close> has succeeded for a device code, it
  fails for that code after any further operations, and the device it returned authenticates with
  the token it was given.
\<close>

theorem consume_once:
  assumes "consume_pairing sha256 now c d token m = (Inr d1, m')" and "revoked_at d = None"
  shows "fst (consume_pairing sha256 now' c d' token' (run sha256 ops m')) \<noteq> Inr d2 \<and>
    authenticate_device sha256 m' (dev_id d) token = Inr d1"
  using mem.consumed_once [OF assms(1)] mem.consume_auth [OF assms] by (simp add: run_performs)

theorem consume_once_witness:
  "fst (consume_pairing (\<lambda>b. b) 10 ''dc'' (demo_device\<lparr>dev_id := ''dev_2''\<rparr>) ''tok2''
      (snd (consume_pairing (\<lambda>b. b) 9 ''dc'' demo_device ''tok''
        (run (\<lambda>b. b) [OpCreatePairing demo_pairing, OpApprove 5 ''uc'' ''bob''] new_memory)))) \<noteq> Inr demo_device"
proof -
  let ?c = "consume_pairing (\<lambda>b. b) 9 ''dc'' demo_device ''tok''
        (run (\<lambda>b. b) [OpCreatePairing demo_pairing, OpApprove 5 ''uc'' ''bob''] new_memory)"
  have "fst ?c = Inr (demo_device\<lparr>owner_subject := ''bob'', created_at := 9\<rparr>)"
    by (simp add: demo_device_def demo_pairing_def run_def new_memory_def store_defs stamp_def)
  then have "?c = (Inr (demo_device\<lparr>owner_subject := ''bob'', created_at := 9\<rparr>), snd ?c)" by (metis prod.collapse)
  moreover have "revoked_at demo_device = None" by (simp add: demo_device_def)
  ultimately show ?thesis
    using consume_once [of "\<lambda>b. b" 9 "''dc''" demo_device "''tok''" _ _ "snd ?c" 10 "demo_device\<lparr>dev_id := ''dev_2''\<rparr>" "''tok2''" "[]" demo_device]
    by simp
qed

text \<open>
  An owner sees the own live devices and nothing else: \<^verbatim>\<open>ListDevices\<close> returns, in order of
  creation, exactly the devices that \<^verbatim>\<open>GetDevice\<close> returns for that owner.
\<close>

theorem list_devices_correct:
  assumes "mem_inv m"
  shows "set (list_devices m owner) = {d. \<exists>did. get_device m owner did = Inr d} \<and>
    sorted (map created_at (list_devices m owner))"
proof -
  have d: "map_of (devices m) i = Some x \<longleftrightarrow> (i, x) \<in> set (devices m)" for i x
    using assms by (simp add: mem_inv_def map_of_eq_Some_iff)
  show ?thesis
    by (force simp: list_devices_def get_device_def d [symmetric] image_iff split: option.splits if_splits)
qed

theorem list_devices_correct_witness:
  "set (list_devices demo_memory ''alice'') = {d. \<exists>did. get_device demo_memory ''alice'' did = Inr d}"
proof -
  have "mem_inv demo_memory"
    by (simp add: demo_memory_def run_def exec_inv new_memory_inv del: exec.simps)
  from list_devices_correct [OF this] show ?thesis by blast
qed

end
