(* ===== verification/McpTools.thy ===== *)
theory McpTools
  imports Sandbox Store
begin

text \<open>
  The table of tools of the MCP endpoint (\<^verbatim>\<open>internal/mcpserver/server.go\<close>, from \<^verbatim>\<open>toolSafety\<close> on): their
  schemas, the annotations that tell a client which tools are safe, and the set of names that are
  relayed to a device. Values that are written as JSON are of type \<open>json\<close>; a number that was decoded
  into \<^verbatim>\<open>any\<close> is a \<^verbatim>\<open>float64\<close>, its 64 bits; a nil slice is written as \<^verbatim>\<open>null\<close>. The properties relate the
  table to what the executor of the agent does with these tools.
\<close>

section \<open>Definitions\<close>

datatype json =
    JNull
  | JBool bool
  | JInt int
  | JFloat "64 word"
  | JStr string
  | JArr "json list"
  | JObj "(string \<times> json) list"
  | JDevices "device list"

datatype tool_safety = SafetyUnspecified | SafetyReadOnly | SafetyMutating | SafetyDestructive

record tool_spec =
  ts_name :: string
  ts_description :: string
  ts_schema :: json
  ts_safety :: tool_safety
  ts_remote :: bool

definition tool_spec :: "string \<Rightarrow> string \<Rightarrow> json \<Rightarrow> tool_safety \<Rightarrow> bool \<Rightarrow> tool_spec" where
  "tool_spec n d sch sf rem = \<lparr>ts_name = n, ts_description = d, ts_schema = sch, ts_safety = sf, ts_remote = rem\<rparr>"

text \<open>A panic is an error value.\<close>

fun remote_tool_loop :: "string list \<Rightarrow> tool_spec list \<Rightarrow> string + string list" where
  "remote_tool_loop seen [] = Inr []"
| "remote_tool_loop seen (sp # sps) =
     (if ts_name sp = [] then Inl ''MCP tool name is empty''
      else if ts_name sp \<in> set seen then Inl (''duplicate MCP tool name: '' @ ts_name sp)
      else bindE (remote_tool_loop (ts_name sp # seen) sps) (\<lambda>out.
             Inr (if ts_remote sp then ts_name sp # out else out)))"

definition build_remote_tool_set :: "tool_spec list \<Rightarrow> string + string list" where
  "build_remote_tool_set = remote_tool_loop []"

definition annotations_for_safety :: "tool_safety \<Rightarrow> string + json" where
  "annotations_for_safety sf =
     (case sf of
        SafetyReadOnly \<Rightarrow> Inr (JObj [(''readOnlyHint'', JBool True), (''destructiveHint'', JBool False)])
      | SafetyMutating \<Rightarrow> Inr (JObj [(''readOnlyHint'', JBool False), (''destructiveHint'', JBool False)])
      | SafetyDestructive \<Rightarrow> Inr (JObj [(''readOnlyHint'', JBool False), (''destructiveHint'', JBool True)])
      | SafetyUnspecified \<Rightarrow> Inl ''MCP tool safety classification is required'')"

fun build_tool_definitions :: "tool_spec list \<Rightarrow> string + json list" where
  "build_tool_definitions [] = Inr []"
| "build_tool_definitions (sp # sps) =
     bindE (annotations_for_safety (ts_safety sp)) (\<lambda>a.
     bindE (build_tool_definitions sps) (\<lambda>defs.
       Inr (JObj [(''name'', JStr (ts_name sp)), (''description'', JStr (ts_description sp)),
                  (''inputSchema'', ts_schema sp), (''annotations'', a)] # defs)))"

definition schema_string :: "string \<Rightarrow> json" where
  "schema_string d = JObj [(''type'', JStr ''string''), (''description'', JStr d)]"

definition schema_integer :: "string \<Rightarrow> json" where
  "schema_integer d = JObj [(''type'', JStr ''integer''), (''description'', JStr d)]"

definition schema_boolean :: "string \<Rightarrow> json" where
  "schema_boolean d = JObj [(''type'', JStr ''boolean''), (''description'', JStr d)]"

definition schema_object :: "(string \<times> json) list \<Rightarrow> string list \<Rightarrow> json" where
  "schema_object props req =
     JObj [(''type'', JStr ''object''), (''properties'', JObj props),
           (''required'', if req = [] then JNull else JArr (map JStr req)), (''additionalProperties'', JBool False)]"

definition device_schema :: json where
  "device_schema = schema_string ''paired device identifier''"

definition tool_specs :: "tool_spec list" where
  "tool_specs =
     [tool_spec ''list_devices'' ''List paired computers and online status.''
        (schema_object []
          []) SafetyReadOnly False,
      tool_spec ''ping'' ''Check that a paired computer is reachable.''
        (schema_object [(''device_id'', device_schema)]
          [''device_id'']) SafetyReadOnly True,
      tool_spec ''read_file'' ''Read a bounded chunk of a file.''
        (schema_object [(''device_id'', device_schema),
           (''path'', schema_string ''path on the paired device''),
           (''offset'', schema_integer ''byte offset''),
           (''max_bytes'', schema_integer ''maximum bytes'')]
          [''device_id'', ''path'']) SafetyReadOnly True,
      tool_spec ''write_file'' ''Atomically write a bounded file.''
        (schema_object [(''device_id'', device_schema),
           (''path'', schema_string ''destination path''),
           (''content'', schema_string ''file content''),
           (''encoding'', schema_string ''utf-8 or base64''),
           (''mode'', schema_integer ''optional POSIX mode'')]
          [''device_id'', ''path'', ''content'']) SafetyDestructive True,
      tool_spec ''list_directory'' ''List a bounded number of directory entries.''
        (schema_object [(''device_id'', device_schema),
           (''path'', schema_string ''directory path'')]
          [''device_id'', ''path'']) SafetyReadOnly True,
      tool_spec ''create_directory'' ''Create a directory inside allowed roots.''
        (schema_object [(''device_id'', device_schema),
           (''path'', schema_string ''directory path''),
           (''mode'', schema_integer ''optional POSIX mode'')]
          [''device_id'', ''path'']) SafetyMutating True,
      tool_spec ''move_file'' ''Move or rename a file. Existing destinations are preserved unless overwrite=true.''
        (schema_object [(''device_id'', device_schema),
           (''source'', schema_string ''source path''),
           (''destination'', schema_string ''destination path''),
           (''overwrite'', schema_boolean ''replace an existing non-symlink destination'')]
          [''device_id'', ''source'', ''destination'']) SafetyDestructive True,
      tool_spec ''get_file_info'' ''Get file or directory metadata.''
        (schema_object [(''device_id'', device_schema),
           (''path'', schema_string ''path'')]
          [''device_id'', ''path'']) SafetyReadOnly True,
      tool_spec ''start_process'' ''Start a bounded process session; argv is preferred and shell is disabled by default.''
        (schema_object [(''device_id'', device_schema),
           (''argv'', JObj [(''type'', JStr ''array''), (''items'', schema_string ''argument'')]),
           (''command'', schema_string ''shell command, only if enabled on the agent''),
           (''cwd'', schema_string ''working directory''),
           (''env'', JObj [(''type'', JStr ''object''), (''additionalProperties'', JObj [(''type'', JStr ''string'')])])]
          [''device_id'']) SafetyDestructive True,
      tool_spec ''read_process_output'' ''Read process output from an absolute cursor.''
        (schema_object [(''device_id'', device_schema),
           (''process_id'', schema_string ''process session ID''),
           (''cursor'', schema_integer ''absolute output cursor''),
           (''max_bytes'', schema_integer ''maximum bytes'')]
          [''device_id'', ''process_id'']) SafetyReadOnly True,
      tool_spec ''interact_with_process'' ''Write data to process stdin.''
        (schema_object [(''device_id'', device_schema),
           (''process_id'', schema_string ''process session ID''),
           (''data'', schema_string ''stdin data''),
           (''encoding'', schema_string ''utf-8 or base64'')]
          [''device_id'', ''process_id'', ''data'']) SafetyDestructive True,
      tool_spec ''force_terminate'' ''Terminate a process session.''
        (schema_object [(''device_id'', device_schema),
           (''process_id'', schema_string ''process session ID'')]
          [''device_id'', ''process_id'']) SafetyDestructive True,
      tool_spec ''read_multiple_files'' ''Read up to 32 files with per-file and combined size limits.''
        (schema_object [(''device_id'', device_schema),
           (''paths'', JObj [(''type'', JStr ''array''), (''items'', schema_string ''path''), (''minItems'', JInt 1), (''maxItems'', JInt 32)]),
           (''max_bytes_per_file'', schema_integer ''maximum bytes per file'')]
          [''device_id'', ''paths'']) SafetyReadOnly True,
      tool_spec ''edit_block'' ''Safely replace an exact UTF-8 text block with replacement-count validation.''
        (schema_object [(''device_id'', device_schema),
           (''file_path'', schema_string ''file path''),
           (''old_string'', schema_string ''exact text to replace''),
           (''new_string'', schema_string ''replacement text''),
           (''expected_replacements'', schema_integer ''expected number of matches; defaults to 1'')]
          [''device_id'', ''file_path'', ''old_string'', ''new_string'']) SafetyDestructive True,
      tool_spec ''list_sessions'' ''List process sessions started by this agent.''
        (schema_object [(''device_id'', device_schema)]
          [''device_id'']) SafetyReadOnly True,
      tool_spec ''start_search'' ''Start a bounded file-name or content search session.''
        (schema_object [(''device_id'', device_schema),
           (''path'', schema_string ''root directory''),
           (''pattern'', schema_string ''literal or regular expression''),
           (''search_type'', schema_string ''files or content''),
           (''regex'', schema_boolean ''treat pattern as regular expression''),
           (''case_sensitive'', schema_boolean ''case-sensitive matching''),
           (''include_hidden'', schema_boolean ''include hidden files''),
           (''max_results'', schema_integer ''maximum results''),
           (''max_file_bytes'', schema_integer ''maximum bytes scanned per file'')]
          [''device_id'', ''path'', ''pattern'']) SafetyReadOnly True,
      tool_spec ''get_more_search_results'' ''Read the next page from a search session.''
        (schema_object [(''device_id'', device_schema),
           (''session_id'', schema_string ''search session ID''),
           (''max_results'', schema_integer ''maximum results in this page'')]
          [''device_id'', ''session_id'']) SafetyReadOnly True,
      tool_spec ''stop_search'' ''Stop a running search session.''
        (schema_object [(''device_id'', device_schema),
           (''session_id'', schema_string ''search session ID'')]
          [''device_id'', ''session_id'']) SafetyReadOnly True,
      tool_spec ''list_searches'' ''List active search sessions.''
        (schema_object [(''device_id'', device_schema)]
          [''device_id'']) SafetyReadOnly True,
      tool_spec ''list_processes'' ''List operating-system processes on the paired device.''
        (schema_object [(''device_id'', device_schema),
           (''max_results'', schema_integer ''maximum processes'')]
          [''device_id'']) SafetyReadOnly True,
      tool_spec ''kill_process'' ''Terminate an arbitrary OS process when explicitly enabled by agent policy.''
        (schema_object [(''device_id'', device_schema),
           (''pid'', schema_integer ''operating-system process ID'')]
          [''device_id'', ''pid'']) SafetyDestructive True,
      tool_spec ''get_config'' ''Return non-secret agent policy and system information.''
        (schema_object [(''device_id'', device_schema)]
          [''device_id'']) SafetyReadOnly True]"

definition remote_tool_set :: "string list" where
  "remote_tool_set = (case build_remote_tool_set tool_specs of Inl e \<Rightarrow> [] | Inr names \<Rightarrow> names)"

definition known_remote_tool :: "string \<Rightarrow> bool" where
  "known_remote_tool name \<longleftrightarrow> name \<in> set remote_tool_set"

definition tool_definitions :: "json list" where
  "tool_definitions = (case build_tool_definitions tool_specs of Inl e \<Rightarrow> [] | Inr defs \<Rightarrow> defs)"

section \<open>Lemmas\<close>

text \<open>The table initializes without a panic, and the names it relays are the tools of the executor.\<close>

lemma tool_tables:
  "build_remote_tool_set tool_specs = Inr remote_tool_set" "build_tool_definitions tool_specs = Inr tool_definitions"
  "sort remote_tool_set = supported_tools" "distinct (map ts_name tool_specs)" "length tool_definitions = 22"
  by code_simp+

text \<open>\<open>untouched\<close>: a call left the device as it was, apart from the cursors of the searches.\<close>

definition untouched :: "agent_state \<Rightarrow> agent_state \<Rightarrow> bool" where
  "untouched s s' \<longleftrightarrow> as_fs s' = as_fs s \<and> as_procs s' = as_procs s \<and> as_signals s' = as_signals s"

definition read_only_tools :: "string list" where
  "read_only_tools = [''ping'', ''read_file'', ''list_directory'', ''get_file_info'', ''read_process_output'', ''read_multiple_files'',
     ''list_sessions'', ''start_search'', ''get_more_search_results'', ''stop_search'', ''list_searches'', ''list_processes'', ''get_config'']"

lemma read_only_specs:
  "map ts_name (filter (\<lambda>sp. ts_remote sp \<and> ts_safety sp = SafetyReadOnly) tool_specs) = read_only_tools"
  "map ts_name (filter (\<lambda>sp. ts_remote sp \<and> ts_safety sp = SafetyMutating) tool_specs) = [''create_directory'']"
  "list_all (\<lambda>sp. ts_safety sp \<noteq> SafetyUnspecified) tool_specs"
  by code_simp+

lemma handlers_untouched:
  "untouched s (snd (reading r s))" "untouched s (snd (read_process ex d w raw s))" "untouched s (snd (start_search_tool ex d w raw s))"
  "untouched s (snd (get_more_search ex d w raw s))" "untouched s (snd (stop_search_tool ex d w raw s))"
  "untouched s (snd (list_processes_tool ex d w raw s))"
  by (simp_all add: reading_def untouched_def read_process_def start_search_tool_def get_more_search_def stop_search_tool_def
      list_processes_tool_def split: sum.splits prod.splits)

lemma read_only_handlers:
  "list_all (\<lambda>(name, h). name \<in> set read_only_tools \<longrightarrow> (\<forall>ex d w raw s. untouched s (snd (h ex d w raw s)))) tool_handlers"
  unfolding tool_handlers_def list.pred_inject prod.case
  by (intro conjI) (simp_all only: handlers_untouched simp_thms, simp_all add: read_only_tools_def)

lemma read_only_untouched:
  assumes "name \<in> set read_only_tools"
  shows "untouched s (snd (execute ex d w name raw s))"
proof (cases "map_of tool_handlers name")
  case (Some h)
  with read_only_handlers map_of_SomeD [OF Some] assms show ?thesis
    by (auto simp: list_all_iff execute_def)
qed (simp add: execute_def untouched_def)

lemma create_directory_keeps:
  assumes "wf_fs (as_fs s)" and "policy_ok (ex_paths ex)" and "nodes (as_fs s) q = Some n"
  shows "nodes (as_fs (snd (execute ex d w ''create_directory'' raw s))) q = Some n"
proof -
  obtain r trace where run: "create_directory (ex_paths ex) (w_files w) (as_fs s) (dec_mkdir d raw) = (r, trace)" by fastforce
  have eq: "snd (execute ex d w ''create_directory'' raw s) = s\<lparr>as_fs := last trace\<rparr>"
    by (simp add: execute_def tool_handlers_def changing_def run)
  show ?thesis
  proof (cases rule: create_directory_grown [OF assms(1,2) run])
    case (2 m cs)
    then have "grown m cs (as_fs s) (last trace)" by simp
    with assms(3) show ?thesis unfolding grown_def eq by (metis agent_state.select_convs(1) agent_state.surjective agent_state.update_convs(1) option.discI)
  qed (simp add: eq assms(3))
qed

text \<open>
  A tool without required arguments is listed with \<^verbatim>\<open>"required": null\<close>, since the variadic parameter is a nil
  slice; a JSON schema has an array there or nothing.
\<close>

lemma list_devices_required_null:
  "ts_name (hd tool_specs) = ''list_devices''"
  "(case ts_schema (hd tool_specs) of JObj kvs \<Rightarrow> map_of kvs ''required'' = Some JNull | _ \<Rightarrow> False)"
  by code_simp+

section \<open>Properties\<close>

text \<open>
  C36. What the endpoint tells a client about its tools is what the agent does: the tools that it
  relays are exactly those of the executor, each listed once and with an annotation; a tool that is
  announced as read-only leaves files, processes and signals of the device as they are, whatever its
  arguments are; the only tool that is announced as changing but not destructive makes directories
  and loses nothing that was there.
\<close>

theorem annotations_truthful:
  "sort remote_tool_set = supported_tools \<and> distinct (map ts_name tool_specs) \<and>
   length tool_definitions = length tool_specs \<and>
   list_all (\<lambda>sp. ts_remote sp \<and> ts_safety sp = SafetyReadOnly \<longrightarrow>
     (\<forall>ex d w raw s. untouched s (snd (execute ex d w (ts_name sp) raw s)))) tool_specs \<and>
   list_all (\<lambda>sp. ts_remote sp \<and> ts_safety sp = SafetyMutating \<longrightarrow>
     (\<forall>ex d w raw s q n. wf_fs (as_fs s) \<and> policy_ok (ex_paths ex) \<and> nodes (as_fs s) q = Some n \<longrightarrow>
        nodes (as_fs (snd (execute ex d w (ts_name sp) raw s))) q = Some n)) tool_specs"
proof (intro conjI)
  have ro: "ts_name sp \<in> set read_only_tools" if "sp \<in> set tool_specs" "ts_remote sp" "ts_safety sp = SafetyReadOnly" for sp
    using that unfolding read_only_specs(1) [symmetric] by auto
  then show "list_all (\<lambda>sp. ts_remote sp \<and> ts_safety sp = SafetyReadOnly \<longrightarrow>
     (\<forall>ex d w raw s. untouched s (snd (execute ex d w (ts_name sp) raw s)))) tool_specs"
    by (auto simp: list_all_iff intro: read_only_untouched)
  have "ts_name sp \<in> set [''create_directory'']" if "sp \<in> set tool_specs" "ts_remote sp" "ts_safety sp = SafetyMutating" for sp
    using that unfolding read_only_specs(2) [symmetric] by auto
  then show "list_all (\<lambda>sp. ts_remote sp \<and> ts_safety sp = SafetyMutating \<longrightarrow>
     (\<forall>ex d w raw s q n. wf_fs (as_fs s) \<and> policy_ok (ex_paths ex) \<and> nodes (as_fs s) q = Some n \<longrightarrow>
        nodes (as_fs (snd (execute ex d w (ts_name sp) raw s))) q = Some n)) tool_specs"
    by (auto simp: list_all_iff intro: create_directory_keeps)
  show "length tool_definitions = length tool_specs" by code_simp
qed (rule tool_tables)+

theorem annotations_truthful_witness:
  "untouched demo_agent (snd (execute (new_executor demo_policy False) demo_decoders demo_world ''ping'' [] demo_agent)) \<and>
   nodes (as_fs (snd (execute (new_executor demo_policy False) demo_decoders demo_world ''create_directory'' []
     (new_agent_state demo_fs (new_manager 2 64 0 False))))) [''r''] = nodes demo_fs [''r''] \<and> nodes demo_fs [''r''] \<noteq> None \<and>
   nodes (as_fs (snd (execute (new_executor demo_policy False) demo_decoders demo_world ''create_directory'' []
     (new_agent_state demo_fs (new_manager 2 64 0 False))))) [''r'', ''n''] \<noteq> None"
proof -
  let ?s = "new_agent_state demo_fs (new_manager 2 64 0 False)" and ?ex = "new_executor demo_policy False"
  have mem: "tool_specs ! 1 \<in> set tool_specs" "tool_specs ! 5 \<in> set tool_specs" by (rule nth_mem, code_simp)+
  have sp: "ts_remote (tool_specs ! 1)" "ts_safety (tool_specs ! 1) = SafetyReadOnly" "ts_name (tool_specs ! 1) = ''ping''"
    "ts_remote (tool_specs ! 5)" "ts_safety (tool_specs ! 5) = SafetyMutating" "ts_name (tool_specs ! 5) = ''create_directory''"
    by code_simp+
  have "policy_ok (ex_paths ?ex)" by code_simp
  then have ok: "wf_fs (as_fs ?s)" "as_fs ?s = demo_fs" "policy_ok (ex_paths ?ex)"
    using wf_demo_fs by (simp_all add: new_agent_state_def)
  have "nodes demo_fs [''r''] \<noteq> None" by code_simp
  then obtain n where n: "nodes demo_fs [''r''] = Some n" by blast
  have "untouched demo_agent (snd (execute ?ex demo_decoders demo_world ''ping'' [] demo_agent))"
    using annotations_truthful mem(1) sp(1-3) by (auto simp: list_all_iff)
  moreover have "nodes (as_fs (snd (execute ?ex demo_decoders demo_world ''create_directory'' [] ?s))) [''r''] = Some n"
    using annotations_truthful mem(2) sp(4-6) ok n unfolding list_all_iff by metis
  moreover have "nodes (as_fs (snd (execute ?ex demo_decoders demo_world ''create_directory'' [] ?s))) [''r'', ''n''] \<noteq> None"
    by code_simp
  ultimately show ?thesis using n by simp
qed

end
