(* ===== verification/AuditWriter.thy ===== *)
theory AuditWriter
  imports Store
begin

text \<open>
  The audit writer of the server (\<^verbatim>\<open>internal/audit/writer.go\<close>): a buffered channel between the
  handlers, which never wait, and one goroutine that writes to the store. A send and a receive on
  the channel, the cancellation of the context and the return of the goroutine are one step each.
  Whether the store takes an event is decided at each write.
\<close>

section \<open>Definitions\<close>

record audit_writer =
  aw_queue :: "audit_event list"
  aw_capacity :: int
  aw_cancelled :: bool
  aw_returned :: bool

definition new_audit_writer :: "int \<Rightarrow> audit_writer" where
  "new_audit_writer capacity =
     \<lparr>aw_queue = [], aw_capacity = (if capacity < 1 then 1024 else capacity), aw_cancelled = False, aw_returned = False\<rparr>"

text \<open>\<^verbatim>\<open>Record\<close> says whether the event was queued; otherwise it is dropped with a warning.\<close>

definition record_event :: "audit_event \<Rightarrow> audit_writer \<Rightarrow> bool \<times> audit_writer" where
  "record_event e w =
     (if int (length (aw_queue w)) < aw_capacity w then (True, w\<lparr>aw_queue := aw_queue w @ [e]\<rparr>) else (False, w))"

text \<open>
  \<^verbatim>\<open>loop\<close>: it receives while there is an event, whether the context is cancelled or not, and returns
  when the context is cancelled and the queue is empty.
\<close>

definition loop_receive :: "audit_writer \<Rightarrow> (audit_event \<times> audit_writer) option" where
  "loop_receive w =
     (if aw_returned w then None
      else (case aw_queue w of [] \<Rightarrow> None | e # q \<Rightarrow> Some (e, w\<lparr>aw_queue := q\<rparr>)))"

definition loop_return :: "audit_writer \<Rightarrow> audit_writer option" where
  "loop_return w = (if aw_cancelled w \<and> \<not> aw_returned w \<and> aw_queue w = [] then Some (w\<lparr>aw_returned := True\<rparr>) else None)"

definition loop_write :: "bool \<Rightarrow> audit_event \<Rightarrow> memory \<Rightarrow> memory" where
  "loop_write ok e m = (if ok then write_audit e m else m)"

definition close_writer :: "audit_writer \<Rightarrow> audit_writer" where
  "close_writer w = w\<lparr>aw_cancelled := True\<rparr>"

text \<open>
  All runs, with what was queued, what was dropped together with the length of the queue at that
  moment, and what was handed to the store and taken by it.
\<close>

inductive audit_run ::
  "int \<Rightarrow> audit_event list \<Rightarrow> nat list \<Rightarrow> (bool \<times> audit_event) list \<Rightarrow> audit_writer \<Rightarrow> bool" for capacity where
  run_new: "audit_run capacity [] [] [] (new_audit_writer capacity)"
| run_record: "audit_run capacity qd dr wr w \<Longrightarrow> record_event e w = (True, w') \<Longrightarrow> audit_run capacity (qd @ [e]) dr wr w'"
| run_drop: "audit_run capacity qd dr wr w \<Longrightarrow> record_event e w = (False, w') \<Longrightarrow>
    audit_run capacity qd (dr @ [length (aw_queue w)]) wr w'"
| run_write: "audit_run capacity qd dr wr w \<Longrightarrow> loop_receive w = Some (e, w') \<Longrightarrow> audit_run capacity qd dr (wr @ [(ok, e)]) w'"
| run_close: "audit_run capacity qd dr wr w \<Longrightarrow> audit_run capacity qd dr wr (close_writer w)"
| run_return: "audit_run capacity qd dr wr w \<Longrightarrow> loop_return w = Some w' \<Longrightarrow> audit_run capacity qd dr wr w'"

text \<open>What the store holds after the writes.\<close>

definition stored :: "(bool \<times> audit_event) list \<Rightarrow> memory \<Rightarrow> memory" where
  "stored wr m = foldl (\<lambda>m (ok, e). loop_write ok e m) m wr"

section \<open>Lemmas\<close>

lemma record_event_True:
  "record_event e w = (True, w') \<longleftrightarrow> int (length (aw_queue w)) < aw_capacity w \<and> w' = w\<lparr>aw_queue := aw_queue w @ [e]\<rparr>"
  by (auto simp: record_event_def)

lemma record_event_False:
  "record_event e w = (False, w') \<longleftrightarrow> \<not> int (length (aw_queue w)) < aw_capacity w \<and> w' = w"
  by (auto simp: record_event_def)

lemma loop_receive_Some:
  "loop_receive w = Some (e, w') \<longleftrightarrow> \<not> aw_returned w \<and> (\<exists>q. aw_queue w = e # q \<and> w' = w\<lparr>aw_queue := q\<rparr>)"
  by (auto simp: loop_receive_def split: list.splits)

lemma loop_return_Some:
  "loop_return w = Some w' \<longleftrightarrow> aw_cancelled w \<and> \<not> aw_returned w \<and> aw_queue w = [] \<and> w' = w\<lparr>aw_returned := True\<rparr>"
  by (auto simp: loop_return_def)

lemma audit_run_inv:
  assumes "audit_run capacity qd dr wr w"
  shows "aw_capacity w = (if capacity < 1 then 1024 else capacity) \<and> map snd wr @ aw_queue w = qd \<and>
    int (length (aw_queue w)) \<le> aw_capacity w \<and> (\<forall>n\<in>set dr. int n = aw_capacity w)"
  using assms
  by (induction rule: audit_run.induct)
    (auto simp: new_audit_writer_def record_event_True record_event_False loop_receive_Some loop_return_Some close_writer_def)

text \<open>The memory store keeps a suffix of what was written to it, at most 10000 events.\<close>

lemma stored_audit: "\<exists>k. audit (stored wr m) = drop k (audit m @ map snd (filter fst wr))"
proof (induction wr arbitrary: m)
  case Nil
  show ?case by (auto simp: stored_def intro: exI [of _ 0])
next
  case (Cons x wr)
  obtain ok e where x: "x = (ok, e)" by (cases x)
  obtain j where j: "j \<le> length (audit m)" "audit (loop_write ok e m) = drop j (audit m @ (if ok then [e] else []))"
  proof (cases "ok \<and> length (audit m) \<ge> 10000")
    case True
    then show thesis by (intro that [of "length (audit m) - 5000"]) (auto simp: loop_write_def write_audit_def Let_def)
  next
    case False
    then show thesis by (intro that [of 0]) (auto simp: loop_write_def write_audit_def Let_def)
  qed
  define xs where "xs = audit m @ (if ok then [e] else [])"
  define zs where "zs = map snd (filter fst wr)"
  have split: "audit m @ map snd (filter fst (x # wr)) = xs @ zs" by (simp add: xs_def zs_def x)
  from j(1) have "j \<le> length xs" by (simp add: xs_def)
  then have app: "drop j xs @ zs = drop j (xs @ zs)" by simp
  from Cons.IH obtain k where "audit (stored wr (loop_write ok e m)) = drop k (drop j xs @ zs)"
    unfolding j(2) xs_def [symmetric] zs_def [symmetric] by (metis j(2) xs_def zs_def)
  then have "audit (stored (x # wr) m) = drop (k + j) (xs @ zs)"
    unfolding app drop_drop by (simp add: stored_def x del: drop_append)
  then have "audit (stored (x # wr) m) = drop (k + j) (audit m @ map snd (filter fst (x # wr)))"
    unfolding split .
  then show ?case by blast
qed

section \<open>Property\<close>

definition demo_event :: audit_event where
  "demo_event = \<lparr>ev_owner = ''alice'', ev_device = ''d'', ev_tool = ''ping'', ev_status = ''ok'', ev_duration = 5, ev_error = []\<rparr>"



end
