(* ===== verification/Limiter.thy ===== *)
theory Limiter
  imports Complex_Main Prelude
begin

text \<open>
  The rate limiter per client address (\<^verbatim>\<open>internal/controlplane/limiter.go\<close>), a token bucket
  for each key. The floating-point numbers of the source are rational numbers here (rounding is
  not modelled). The specification is the credit of a key at a time: what a bucket that is never
  evicted would hold.
\<close>

section \<open>Definitions\<close>

record bucket =
  tokens :: rat
  last_at :: time

record ip_limiter =
  rate :: rat
  burst :: rat
  buckets :: "(string \<times> bucket) list"

definition new_ip_limiter :: "rat \<Rightarrow> nat \<Rightarrow> ip_limiter" where
  "new_ip_limiter r b = \<lparr>rate = r, burst = of_nat b, buckets = []\<rparr>"

definition limiter_key :: "string \<Rightarrow> string \<Rightarrow> string" where
  "limiter_key namespace remoteAddr =
     namespace @ [CHR 0x00] @ (case split_host_port remoteAddr of None \<Rightarrow> remoteAddr | Some host \<Rightarrow> host)"

definition seconds :: "duration \<Rightarrow> rat" where
  "seconds d = of_int d / 1000000000"

definition refill :: "ip_limiter \<Rightarrow> time \<Rightarrow> bucket \<Rightarrow> rat" where
  "refill l now b =
     (if last_at b = 0 then burst l
      else (let t = tokens b + seconds (now - last_at b) * rate l in if t > burst l then burst l else t))"

definition allow_key :: "ip_limiter \<Rightarrow> string \<Rightarrow> time \<Rightarrow> bool \<times> ip_limiter" where
  "allow_key l key now =
     (let b = (case map_of (buckets l) key of None \<Rightarrow> \<lparr>tokens = 0, last_at = 0\<rparr> | Some b \<Rightarrow> b);
          t = refill l now b
      in if t < 1 then (False, l\<lparr>buckets := AList.update key \<lparr>tokens = t, last_at = now\<rparr> (buckets l)\<rparr>)
         else
           (let bs = AList.update key \<lparr>tokens = t - 1, last_at = now\<rparr> (buckets l)
            in (True, l\<lparr>buckets := (if length bs > 4096
                   then filter (\<lambda>(k, old). \<not> last_at old < now - 30 * 60 * second) bs else bs)\<rparr>)))"

definition allow :: "ip_limiter \<Rightarrow> string \<Rightarrow> string \<Rightarrow> time \<Rightarrow> bool \<times> ip_limiter" where
  "allow l remoteAddr namespace now = allow_key l (limiter_key namespace remoteAddr) now"

text \<open>What a key may spend at a time.\<close>

definition credit :: "ip_limiter \<Rightarrow> time \<Rightarrow> string \<Rightarrow> rat" where
  "credit l now key =
     (case map_of (buckets l) key of None \<Rightarrow> burst l | Some b \<Rightarrow> refill l now b)"

text \<open>A sequence of requests, and how many of a key were let through.\<close>

fun allows :: "ip_limiter \<Rightarrow> (string \<times> time) list \<Rightarrow> bool list \<times> ip_limiter" where
  "allows l [] = ([], l)"
| "allows l ((key, now) # reqs) =
     (case allow_key l key now of (ok, l') \<Rightarrow> case allows l' reqs of (oks, l'') \<Rightarrow> (ok # oks, l''))"

definition passed :: "string \<Rightarrow> (string \<times> time) list \<Rightarrow> bool list \<Rightarrow> nat" where
  "passed key reqs oks = length (filter (\<lambda>((k, t), ok). k = key \<and> ok) (zip reqs oks))"

section \<open>Invariant\<close>

definition limiter_inv :: "ip_limiter \<Rightarrow> time \<Rightarrow> bool" where
  "limiter_inv l now =
     (0 \<le> rate l \<and> 0 \<le> burst l \<and> burst l \<le> 1800 * rate l \<and> distinct (map fst (buckets l)) \<and>
      (\<forall>(k, b) \<in> set (buckets l). 0 \<le> tokens b \<and> 0 < last_at b \<and> last_at b \<le> now))"

section \<open>Lemmas\<close>

lemma refill_buckets [simp]: "refill (l\<lparr>buckets := x\<rparr>) = refill l"
  by (intro ext) (simp add: refill_def Let_def)

lemma seconds_mono: "d \<le> d' \<Longrightarrow> seconds d \<le> seconds d'"
  by (simp add: seconds_def divide_right_mono)

lemma seconds_diff: "seconds (a - c) = seconds (b - c) + seconds (a - b)"
  by (simp add: seconds_def field_simps flip: of_int_add of_int_diff)

lemma seconds_nonneg: "0 \<le> d \<Longrightarrow> 0 \<le> seconds d"
  by (simp add: seconds_def)

lemma credit_le_burst: "credit l now key \<le> burst l"
  by (simp add: credit_def refill_def Let_def split: option.splits)

lemma credit_nonneg:
  assumes "limiter_inv l now" 
  shows "0 \<le> credit l now key"
proof (cases "map_of (buckets l) key")
  case (Some b)
  then have "0 \<le> tokens b" "last_at b \<le> now" "0 \<le> rate l" "0 \<le> burst l"
    using assms by (auto simp: limiter_inv_def dest!: map_of_SomeD)
  then have "0 \<le> tokens b + seconds (now - last_at b) * rate l"
    by (intro add_nonneg_nonneg mult_nonneg_nonneg seconds_nonneg) simp_all
  with Some \<open>0 \<le> burst l\<close> show ?thesis by (simp add: credit_def refill_def Let_def)
qed (use assms in \<open>simp add: credit_def limiter_inv_def\<close>)

lemma credit_grows:
  assumes "limiter_inv l now" and "now \<le> now'"
  shows "credit l now' key \<le> credit l now key + rate l * seconds (now' - now)"
proof -
  have r: "0 \<le> rate l * seconds (now' - now)"
    using assms by (intro mult_nonneg_nonneg seconds_nonneg) (simp_all add: limiter_inv_def)
  show ?thesis
  proof (cases "map_of (buckets l) key")
    case (Some b)
    have "seconds (now' - last_at b) * rate l = seconds (now - last_at b) * rate l + rate l * seconds (now' - now)"
      unfolding seconds_diff [of now' "last_at b" now] by (simp add: algebra_simps)
    with Some r show ?thesis by (auto simp: credit_def refill_def Let_def)
  qed (use r in \<open>simp add: credit_def\<close>)
qed

lemma limiter_inv_later: "limiter_inv l now \<Longrightarrow> now \<le> now' \<Longrightarrow> limiter_inv l now'"
  by (fastforce simp: limiter_inv_def)

text \<open>Evicting a bucket that has been idle for half an hour changes no credit: it was full again.\<close>

lemma refill_idle:
  assumes "0 \<le> tokens b" and "last_at b < now - 30 * 60 * second" and "burst l \<le> 1800 * rate l" and "0 \<le> rate l"
  shows "refill l now b = burst l"
proof -
  have "1800 \<le> seconds (now - last_at b)"
    using seconds_mono [of "1800 * second" "now - last_at b"] assms(2) by (simp add: seconds_def)
  then have "1800 * rate l \<le> seconds (now - last_at b) * rate l"
    using assms(4) by (rule mult_right_mono)
  with assms show ?thesis by (auto simp: refill_def Let_def)
qed

lemma map_of_filter_distinct:
  "distinct (map fst xs) \<Longrightarrow> map_of (filter (\<lambda>(k, v). P v) xs) k =
    (case map_of xs k of None \<Rightarrow> None | Some v \<Rightarrow> if P v then Some v else None)"
proof (induction xs)
  case (Cons x xs)
  obtain k' v where x: "x = (k', v)" by (cases x)
  have "map_of (filter (\<lambda>(k, v). P v) xs) k' = None" if "k' \<notin> fst ` set xs"
    using that by (auto simp: map_of_eq_None_iff)
  with Cons x show ?case by auto
qed simp

lemma credit_evict:
  assumes "limiter_inv l now"
  shows "credit (l\<lparr>buckets := filter (\<lambda>(k, old). \<not> last_at old < now - 30 * 60 * second) (buckets l)\<rparr>) now key = credit l now key"
proof -
  have d: "distinct (map fst (buckets l))" using assms by (simp add: limiter_inv_def)
  have idle: "refill l now b = burst l" if "map_of (buckets l) key = Some b" "last_at b < now - 30 * 60 * second" for b
    using that assms by (intro refill_idle) (auto simp: limiter_inv_def dest!: map_of_SomeD)
  show ?thesis
    using idle by (auto simp: credit_def map_of_filter_distinct [OF d] split: option.splits)
qed

lemma limiter_inv_update:
  assumes "limiter_inv l now" and "0 < now" and "0 \<le> t"
  shows "limiter_inv (l\<lparr>buckets := AList.update key \<lparr>tokens = t, last_at = now\<rparr> (buckets l)\<rparr>) now"
proof -
  show ?thesis
    using assms set_alist_update [of key "\<lparr>tokens = t, last_at = now\<rparr>" "buckets l"]
    by (fastforce simp: limiter_inv_def distinct_update)
qed

lemma limiter_inv_filter:
  "limiter_inv l now \<Longrightarrow> limiter_inv (l\<lparr>buckets := filter P (buckets l)\<rparr>) now"
  by (auto simp: limiter_inv_def distinct_map_filter)

lemma credit_update:
  assumes "0 < now" and "t \<le> burst l"
  shows "credit (l\<lparr>buckets := AList.update key \<lparr>tokens = t, last_at = now\<rparr> (buckets l)\<rparr>) now k =
    (if k = key then t else credit l now k)"
  using assms by (auto simp: credit_def update_conv' split: option.splits) (simp_all add: refill_def seconds_def)

lemma allow_key_credit:
  assumes "limiter_inv l now" and "0 < now" and "allow_key l key now = (ok, l')"
  shows "ok = (1 \<le> credit l now key)"
    and "credit l' now k = credit l now k - (if ok \<and> k = key then 1 else 0)"
    and "limiter_inv l' now" and "rate l' = rate l" and "burst l' = burst l"
proof -
  define t where "t = credit l now key"
  have t: "(case map_of (buckets l) key of None \<Rightarrow> refill l now \<lparr>tokens = 0, last_at = 0\<rparr> | Some b \<Rightarrow> refill l now b) = t"
    by (simp add: t_def credit_def refill_def split: option.splits)
  have t': "refill l now (case map_of (buckets l) key of None \<Rightarrow> \<lparr>tokens = 0, last_at = 0\<rparr> | Some b \<Rightarrow> b) = t"
    using t by (simp split: option.splits)
  have b: "t \<le> burst l" "0 \<le> t"
    using credit_le_burst credit_nonneg assms(1) by (simp_all add: t_def)
  define l1 where "l1 = l\<lparr>buckets := AList.update key \<lparr>tokens = (if 1 \<le> t then t - 1 else t), last_at = now\<rparr> (buckets l)\<rparr>"
  have inv1: "limiter_inv l1 now"
    unfolding l1_def using assms b by (intro limiter_inv_update) auto
  have c1: "credit l1 now k = credit l now k - (if 1 \<le> t \<and> k = key then 1 else 0)" for k
    unfolding l1_def using b assms(2) by (subst credit_update) (auto simp: t_def)
  have res: "ok = (1 \<le> t)" "l' = l1 \<or>
      l' = l1\<lparr>buckets := filter (\<lambda>(k, old). \<not> last_at old < now - 30 * 60 * second) (buckets l1)\<rparr>"
    using assms(3) by (auto simp: allow_key_def t' l1_def Let_def split: if_splits)
  from res(2) credit_evict [OF inv1] have c: "credit l' now k = credit l1 now k" for k by auto
  show "ok = (1 \<le> credit l now key)" using res(1) by (simp add: t_def)
  show "credit l' now k = credit l now k - (if ok \<and> k = key then 1 else 0)"
    using c [of k] c1 [of k] res(1) by simp
  show "limiter_inv l' now" using res(2) inv1 limiter_inv_filter by auto
  show "rate l' = rate l" "burst l' = burst l" using res(2) by (auto simp: l1_def)
qed

lemma passed_simps [simp]:
  "passed key [] oks = 0"
  "passed key ((k, t) # reqs) (ok # oks) = (if k = key \<and> ok then 1 else 0) + passed key reqs oks"
  by (simp_all add: passed_def)

lemma passed_bound:
  assumes "limiter_inv l t0" and "0 < t0" and "sorted (t0 # map snd reqs)" and "allows l reqs = (oks, l')"
  shows "of_nat (passed key reqs oks) \<le> credit l t0 key + rate l * seconds (last (t0 # map snd reqs) - t0)"
  using assms
proof (induction reqs arbitrary: l t0 oks)
  case Nil
  then show ?case using credit_nonneg by (auto simp: seconds_def)
next
  case (Cons r reqs)
  obtain k now where r: "r = (k, now)" by (cases r)
  obtain ok l1 where a: "allow_key l k now = (ok, l1)" by (cases "allow_key l k now")
  obtain oks' where o: "allows l1 reqs = (oks', l')" "oks = ok # oks'"
    using Cons.prems(4) r a by (auto split: prod.splits)
  have le: "t0 \<le> now" "0 < now" "sorted (now # map snd reqs)"
    using Cons.prems r by auto
  have inv: "limiter_inv l now" by (rule limiter_inv_later [OF Cons.prems(1) le(1)])
  note al = allow_key_credit [OF inv le(2) a]
  have IH: "of_nat (passed key reqs oks') \<le> credit l1 now key + rate l * seconds (last (now # map snd reqs) - now)"
    using Cons.IH [OF al(3) le(2,3) o(1)] al(4) by simp
  have "credit l now key \<le> credit l t0 key + rate l * seconds (now - t0)"
    by (rule credit_grows [OF Cons.prems(1) le(1)])
  moreover have "rate l * seconds (last (now # map snd reqs) - t0) =
      rate l * seconds (now - t0) + rate l * seconds (last (now # map snd reqs) - now)"
    unfolding seconds_diff [of "last (now # map snd reqs)" t0 now] by (simp add: algebra_simps)
  ultimately show ?case
    using IH al(2) [of key] r o(2) by auto
qed

section \<open>Properties\<close>

text \<open>
  C32. The limiter lets at most its burst plus its rate times the elapsed time through, for every
  client, whatever all clients together send: from a new limiter, over any requests in the order of
  time, the number of requests of a key that pass is bounded by \<open>burst + rate * seconds\<close>. This holds
  although idle buckets are evicted when there are many, because a bucket that is evicted has
  refilled (half an hour at the rate gives the burst; true for both limiters of the server).
\<close>

theorem limiter_bounds_requests:
  assumes "allows (new_ip_limiter r b) ((key0, t0) # reqs) = (oks, l')"
    and "0 \<le> r" and "of_nat b \<le> 1800 * r" and "0 < t0" and "sorted (t0 # map snd reqs)"
  shows "of_nat (passed key ((key0, t0) # reqs) oks) \<le>
    of_nat b + r * seconds (last (t0 # map snd reqs) - t0)"
proof -
  have "limiter_inv (new_ip_limiter r b) t0"
    using assms by (simp add: limiter_inv_def new_ip_limiter_def)
  from passed_bound [OF this assms(4) _ assms(1), of key] assms(5) show ?thesis
    by (simp add: new_ip_limiter_def credit_def)
qed

theorem limiter_bounds_requests_witness:
  "of_nat (passed ''a'' [(''a'', second), (''a'', second), (''a'', second)]
     (fst (allows (new_ip_limiter 1 2) [(''a'', second), (''a'', second), (''a'', second)]))) \<le> (2 :: rat)"
  using limiter_bounds_requests [of 1 2 "''a''" second "[(''a'', second), (''a'', second)]" _ _ "''a''"]
  by (cases "allows (new_ip_limiter 1 2) [(''a'', second), (''a'', second), (''a'', second)]")
    (simp add: seconds_def)

end
