(* ===== verification/Authn.thy ===== *)
theory Authn
  imports Base64
begin

text \<open>
  Authentication of users (\<^verbatim>\<open>internal/authn\<close>): bearer tokens, tokens signed with a shared
  secret, tokens checked by an introspection endpoint with a cache, and the trust in loopback
  connections. Arguments of the model are the keyed hash (\<open>mac\<close>) and SHA-256, the JSON encoding and
  decoding of the claims, the clock, and the introspection server, a function from the time and the
  token to its answer.
\<close>

section \<open>Definitions\<close>

datatype autherr = InvalidToken | InsufficientScope | AuthMsg string

record identity =
  subject :: string
  scopes :: "string set"
  expiry :: time

record claims =
  cl_sub :: string
  cl_aud :: string
  cl_scopes :: "string list"
  cl_exp :: int
  cl_iat :: int

record hmac_verifier =
  secret :: bytes
  audience :: string

definition has_scope :: "identity \<Rightarrow> string \<Rightarrow> bool" where
  "has_scope i scope = (scope \<in> scopes i)"

definition new_hmac_verifier :: "bytes \<Rightarrow> string \<Rightarrow> autherr + hmac_verifier" where
  "new_hmac_verifier sec aud =
     (if length sec < 32 then Inl (AuthMsg ''HMAC secret must be at least 32 bytes'')
      else if trim_space aud = [] then Inl (AuthMsg ''audience is required'')
      else Inr \<lparr>secret = sec, audience = aud\<rparr>)"

definition jwt_header :: string where
  "jwt_header = [CHR ''{'', CHR 0x22, CHR ''a'', CHR ''l'', CHR ''g'', CHR 0x22, CHR '':'', CHR 0x22] @ ''HS256'' @
     [CHR 0x22, CHR '','', CHR 0x22] @ ''typ'' @ [CHR 0x22, CHR '':'', CHR 0x22] @ ''JWT'' @ [CHR 0x22, CHR ''}'']"

definition max_ttl :: duration where
  "max_ttl = 30 * 24 * 3600 * second"

definition mint ::
  "(bytes \<Rightarrow> bytes \<Rightarrow> bytes) \<Rightarrow> (claims \<Rightarrow> bytes option) \<Rightarrow> hmac_verifier \<Rightarrow> time \<Rightarrow> string \<Rightarrow>
   string list \<Rightarrow> duration \<Rightarrow> autherr + string" where
  "mint mac marshal v now sub scs ttl =
     (if trim_space sub = [] then Inl (AuthMsg ''subject is required'')
      else if ttl \<le> 0 \<or> ttl > max_ttl then Inl (AuthMsg ''ttl must be between 1ns and 30d'')
      else
        (let c = \<lparr>cl_sub = sub, cl_aud = audience v, cl_scopes = scs, cl_exp = unix_of (now + ttl), cl_iat = unix_of now\<rparr>;
             header = b64url_encode (bytes_of_string jwt_header)
         in case marshal c of
              None \<Rightarrow> Inl (AuthMsg ''marshal'')
            | Some payloadBytes \<Rightarrow>
              (let signing = header @ ''.'' @ b64url_encode payloadBytes
               in Inr (signing @ ''.'' @ b64url_encode (mac (secret v) (bytes_of_string signing))))))"

definition identity_of_claims :: "claims \<Rightarrow> identity" where
  "identity_of_claims c =
     \<lparr>subject = cl_sub c, scopes = set (filter (\<lambda>s. s \<noteq> []) (cl_scopes c)), expiry = time_unix (cl_exp c)\<rparr>"

definition hmac_verify ::
  "(bytes \<Rightarrow> bytes \<Rightarrow> bytes) \<Rightarrow> (bytes \<Rightarrow> claims option) \<Rightarrow> hmac_verifier \<Rightarrow> time \<Rightarrow> string \<Rightarrow> autherr + identity" where
  "hmac_verify mac unmarshal v now token =
     (case split_on CHR ''.'' token of
        [p0, p1, p2] \<Rightarrow>
          (case b64url_decode p2 of
             None \<Rightarrow> Inl InvalidToken
           | Some got \<Rightarrow>
             if got \<noteq> mac (secret v) (bytes_of_string (p0 @ ''.'' @ p1)) then Inl InvalidToken
             else (case b64url_decode p1 of
                     None \<Rightarrow> Inl InvalidToken
                   | Some payload \<Rightarrow>
                     (case unmarshal payload of
                        None \<Rightarrow> Inl InvalidToken
                      | Some c \<Rightarrow>
                        if cl_sub c = [] \<or> cl_aud c \<noteq> audience v \<or> cl_exp c \<le> unix_of now
                           \<or> cl_iat c > unix_of now + 60
                        then Inl InvalidToken
                        else Inr (identity_of_claims c))))
      | _ \<Rightarrow> Inl InvalidToken)"

text \<open>The values of JSON fields declared as \<^verbatim>\<open>any\<close>.\<close>

datatype jany = JString string | JList "jany list" | JOther

definition audience_contains :: "jany \<Rightarrow> string \<Rightarrow> bool" where
  "audience_contains v want =
     (case v of JString s \<Rightarrow> s = want | JList xs \<Rightarrow> JString want \<in> set xs | JOther \<Rightarrow> False)"

definition parse_scopes :: "jany \<Rightarrow> string set" where
  "parse_scopes v =
     (case v of JString s \<Rightarrow> set (string_fields s)
      | JList xs \<Rightarrow> {s. JString s \<in> set xs \<and> s \<noteq> []}
      | JOther \<Rightarrow> {})"

text \<open>
  \<^verbatim>\<open>parseUnix\<close>: the arguments are what the JSON decoder makes of the raw text as a number and as a
  string.
\<close>

definition parse_unix :: "(string \<Rightarrow> string option) \<Rightarrow> (string \<Rightarrow> string option) \<Rightarrow> string \<Rightarrow> time option" where
  "parse_unix json_number json_string raw =
     (if raw = [] \<or> raw = ''null'' then None
      else (case Option.bind (json_number raw) parse_int64 of
              Some i \<Rightarrow> Some (time_unix i)
            | None \<Rightarrow> map_option time_unix (Option.bind (json_string raw) parse_int64)))"

record introspection_response =
  ir_active :: bool
  ir_sub :: string
  ir_scope :: jany
  ir_exp :: "time option"
  ir_aud :: jany

datatype introspection_answer =
    NoAnswer string
  | BadStatus
  | BadBody
  | Answer introspection_response

record cache_entry =
  ce_identity :: identity
  ce_expires :: time

record introspection_verifier =
  endpoint_https :: bool
  iv_audience :: string
  cache_ttl :: duration
  iv_cache :: "(bytes \<times> cache_entry) list"

definition accept_answer :: "introspection_verifier \<Rightarrow> time \<Rightarrow> introspection_answer \<Rightarrow> autherr + identity" where
  "accept_answer v now a =
     (case a of
        NoAnswer e \<Rightarrow> Inl (AuthMsg e)
      | BadStatus \<Rightarrow> Inl InvalidToken
      | BadBody \<Rightarrow> Inl InvalidToken
      | Answer ir \<Rightarrow>
        if \<not> ir_active ir \<or> ir_sub ir = [] \<or> \<not> audience_contains (ir_aud ir) (iv_audience v)
        then Inl InvalidToken
        else (case ir_exp ir of
                None \<Rightarrow> Inl InvalidToken
              | Some exp \<Rightarrow>
                if \<not> exp > now then Inl InvalidToken
                else Inr \<lparr>subject = ir_sub ir, scopes = parse_scopes (ir_scope ir), expiry = exp\<rparr>))"

definition cache_lookup :: "introspection_verifier \<Rightarrow> time \<Rightarrow> bytes \<Rightarrow> identity option" where
  "cache_lookup v now hash =
     (case map_of (iv_cache v) hash of
        None \<Rightarrow> None
      | Some e \<Rightarrow> if now < ce_expires e \<and> now < expiry (ce_identity e) then Some (ce_identity e) else None)"

text \<open>Make room: expired entries go first, then any one entry (the first one here).\<close>

definition evict :: "time \<Rightarrow> (bytes \<times> cache_entry) list \<Rightarrow> (bytes \<times> cache_entry) list" where
  "evict now cache =
     (if length cache \<ge> 1024 then
        (let live = filter (\<lambda>(k, e). \<not> now > ce_expires e) cache
         in if length live \<ge> 1024 then tl live else live)
      else cache)"

definition cache_until :: "introspection_verifier \<Rightarrow> time \<Rightarrow> identity \<Rightarrow> time" where
  "cache_until v now i =
     (let ttl = (if cache_ttl v \<le> 0 \<or> cache_ttl v > 30 * second then 15 * second else cache_ttl v);
          cacheExp = now + ttl
      in if expiry i < cacheExp then expiry i else cacheExp)"

definition introspect ::
  "(bytes \<Rightarrow> bytes) \<Rightarrow> (time \<Rightarrow> string \<Rightarrow> introspection_answer) \<Rightarrow> time \<Rightarrow> string \<Rightarrow> introspection_verifier \<Rightarrow>
   (autherr + identity) \<times> introspection_verifier" where
  "introspect sha256 server now token v =
     (if token = [] \<or> \<not> endpoint_https v \<or> iv_audience v = [] then (Inl InvalidToken, v)
      else
        (let hash = sha256 (bytes_of_string token)
         in case cache_lookup v now hash of
              Some i \<Rightarrow> (Inr i, v)
            | None \<Rightarrow>
              (case accept_answer v now (server now token) of
                 Inl e \<Rightarrow> (Inl e, v)
               | Inr i \<Rightarrow>
                 (Inr i, v\<lparr>iv_cache := AList.update hash \<lparr>ce_identity = i, ce_expires = cache_until v now i\<rparr>
                            (evict now (iv_cache v))\<rparr>))))"

definition bearer_token :: "string \<Rightarrow> string option" where
  "bearer_token authorization =
     (let h = trim_space authorization
      in if length h < 8 \<or> \<not> equal_fold (take 7 h) ''Bearer '' then None
         else (let t = trim_space (drop 7 h) in if t = [] then None else Some t))"

definition require :: "(string \<Rightarrow> autherr + identity) \<Rightarrow> string \<Rightarrow> string \<Rightarrow> autherr + identity" where
  "require verify token scope =
     (case verify token of
        Inl e \<Rightarrow> Inl e
      | Inr i \<Rightarrow> if scope \<noteq> [] \<and> \<not> has_scope i scope then Inl InsufficientScope else Inr i)"

record loopback_trust =
  lt_token :: string
  lt_identity :: identity

definition new_loopback_trust :: "bool \<Rightarrow> string \<Rightarrow> bytes option \<Rightarrow> time \<Rightarrow> autherr + loopback_trust" where
  "new_loopback_trust has_base sub rand32 century =
     (if \<not> has_base then Inl (AuthMsg ''base verifier is required'')
      else if trim_space sub = [] then Inl (AuthMsg ''trusted subject is required'')
      else (case rand32 of
              None \<Rightarrow> Inl (AuthMsg ''rand'')
            | Some raw \<Rightarrow>
              Inr \<lparr>lt_token = b64url_encode raw,
                   lt_identity = \<lparr>subject = sub, scopes = {''orc:tools''}, expiry = century\<rparr>\<rparr>))"

definition remote_is_loopback :: "(string \<Rightarrow> bool) \<Rightarrow> string \<Rightarrow> bool" where
  "remote_is_loopback ip_loopback remoteAddr =
     (case split_host_port remoteAddr of None \<Rightarrow> False | Some host \<Rightarrow> ip_loopback host)"

text \<open>The middleware: the \<^verbatim>\<open>Authorization\<close> header that the next handler sees.\<close>

definition trust_middleware :: "(string \<Rightarrow> bool) \<Rightarrow> loopback_trust \<Rightarrow> string \<Rightarrow> string \<Rightarrow> string" where
  "trust_middleware ip_loopback t remoteAddr authorization =
     (if trim_space authorization = [] \<and> remote_is_loopback ip_loopback remoteAddr
      then ''Bearer '' @ lt_token t else authorization)"

definition trust_verify :: "loopback_trust \<Rightarrow> (string \<Rightarrow> autherr + identity) \<Rightarrow> string \<Rightarrow> autherr + identity" where
  "trust_verify t base token = (if token = lt_token t then Inr (lt_identity t) else base token)"

section \<open>Lemmas\<close>

lemma url_no_dot [simp]: "CHR ''.'' \<notin> set (b64url_encode bs)"
proof -
  have "CHR ''.'' \<notin> set url_alphabet" by code_simp
  then show ?thesis using b64url_chars [of bs] by blast
qed

lemma split_token:
  "split_on CHR ''.'' (b64url_encode a @ ''.'' @ b64url_encode b @ ''.'' @ b64url_encode c) =
   [b64url_encode a, b64url_encode b, b64url_encode c]"
  using split_on_join [of "[b64url_encode a, b64url_encode b, b64url_encode c]" "CHR ''.''"] by simp

lemma trim_nonempty: "trim_space s \<noteq> [] \<Longrightarrow> s \<noteq> []"
proof
  have "trim_front ps [] = []" for ps
    by (subst trim_front.simps) simp
  then show "trim_space s \<noteq> [] \<Longrightarrow> s = [] \<Longrightarrow> False"
    by (simp add: trim_space_def trim_left_space_def trim_right_space_def)
qed

lemma cache_until_bounds:
  "cache_until v now i \<le> expiry i" "cache_until v now i \<le> now + 30 * second"
  by (auto simp: cache_until_def Let_def)

subsection \<open>The cache\<close>

text \<open>An entry of the cache goes back to an answer of the server for a token with that hash.\<close>

definition genuine ::
  "(bytes \<Rightarrow> bytes) \<Rightarrow> (time \<Rightarrow> string \<Rightarrow> introspection_answer) \<Rightarrow> introspection_verifier \<Rightarrow> bytes \<Rightarrow> cache_entry \<Rightarrow> bool" where
  "genuine sha256 server v hash e =
     (\<exists>t token. sha256 (bytes_of_string token) = hash \<and> accept_answer v t (server t token) = Inr (ce_identity e) \<and>
        ce_expires e \<le> t + 30 * second \<and> ce_expires e \<le> expiry (ce_identity e))"

definition cache_inv ::
  "(bytes \<Rightarrow> bytes) \<Rightarrow> (time \<Rightarrow> string \<Rightarrow> introspection_answer) \<Rightarrow> introspection_verifier \<Rightarrow> bool" where
  "cache_inv sha256 server v =
     (length (iv_cache v) \<le> 1024 \<and> (\<forall>(hash, e) \<in> set (iv_cache v). genuine sha256 server v hash e))"

lemma accept_answer_cache [simp]: "accept_answer (v\<lparr>iv_cache := c\<rparr>) = accept_answer v"
  by (intro ext) (simp add: accept_answer_def cong: introspection_answer.case_cong option.case_cong)

lemma genuine_cache [simp]: "genuine h s (v\<lparr>iv_cache := c\<rparr>) = genuine h s v"
  by (intro ext) (simp add: genuine_def)

lemma evict_subset: "set (evict now c) \<subseteq> set c"
  by (auto simp: evict_def Let_def dest: list.set_sel(2) [rotated])

lemma length_evict: "length c \<le> 1024 \<Longrightarrow> length (evict now c) \<le> 1023"
  using length_filter_le [of "\<lambda>(k, e). \<not> now > ce_expires e" c]
  by (auto simp: evict_def Let_def simp del: length_filter_le)

lemma introspect_inv:
  assumes "cache_inv sha256 server v"
  shows "cache_inv sha256 server (snd (introspect sha256 server now token v))"
proof -
  have "cache_inv sha256 server (v\<lparr>iv_cache := AList.update (sha256 (bytes_of_string token))
      \<lparr>ce_identity = i, ce_expires = cache_until v now i\<rparr> (evict now (iv_cache v))\<rparr>)"
    if i: "accept_answer v now (server now token) = Inr i" for i
  proof -
    let ?e = "\<lparr>ce_identity = i, ce_expires = cache_until v now i\<rparr>"
    have "genuine sha256 server v (sha256 (bytes_of_string token)) ?e"
      using i cache_until_bounds [of v now i] by (auto simp: genuine_def)
    moreover have "length (AList.update (sha256 (bytes_of_string token)) ?e (evict now (iv_cache v))) \<le> 1024"
      using length_alist_update [of "sha256 (bytes_of_string token)" ?e "evict now (iv_cache v)"]
        length_evict [of "iv_cache v" now] assms by (simp add: cache_inv_def)
    ultimately show ?thesis
      using assms set_alist_update [of "sha256 (bytes_of_string token)" ?e "evict now (iv_cache v)"]
        evict_subset [of now "iv_cache v"]
      by (auto simp: cache_inv_def)
  qed
  with assms show ?thesis
    by (simp add: introspect_def Let_def split: option.splits sum.splits)
qed

text \<open>Any sequence of verifications, each at its time.\<close>

fun introspects ::
  "(bytes \<Rightarrow> bytes) \<Rightarrow> (time \<Rightarrow> string \<Rightarrow> introspection_answer) \<Rightarrow> (time \<times> string) list \<Rightarrow> introspection_verifier \<Rightarrow>
   introspection_verifier" where
  "introspects h s [] v = v"
| "introspects h s ((now, token) # reqs) v = introspects h s reqs (snd (introspect h s now token v))"

lemma introspects_inv: "cache_inv h s v \<Longrightarrow> cache_inv h s (introspects h s reqs v)"
  by (induction h s reqs v rule: introspects.induct) (simp_all add: introspect_inv)

lemma introspect_config:
  "iv_audience (snd (introspect h s now token v)) = iv_audience v"
  "accept_answer (snd (introspect h s now token v)) = accept_answer v"
  by (simp_all add: introspect_def Let_def split: option.splits sum.splits)

lemma introspects_config: "accept_answer (introspects h s reqs v) = accept_answer v"
  by (induction h s reqs v rule: introspects.induct) (simp_all add: introspect_config)

subsection \<open>Bearer tokens\<close>

lemma url_visible: "c \<in> set (b64url_encode bs) \<Longrightarrow> visible c"
proof -
  have "list_all visible url_alphabet" by code_simp
  then show "c \<in> set (b64url_encode bs) \<Longrightarrow> visible c"
    using b64url_chars [of bs] by (auto simp: list_all_iff)
qed

lemma b64url_nonempty: "bs \<noteq> [] \<Longrightarrow> b64url_encode bs \<noteq> []"
  using b64url_roundtrip [of bs] by (auto simp: b64url_decode_def skip_newlines_def)

lemma bearer_b64url:
  assumes "raw \<noteq> []"
  shows "bearer_token (''Bearer '' @ b64url_encode raw) = Some (b64url_encode raw)"
proof -
  let ?t = "b64url_encode raw"
  have ne: "?t \<noteq> []" by (rule b64url_nonempty [OF assms])
  have vis: "visible CHR ''B''" "equal_fold ''Bearer '' ''Bearer ''" by code_simp+
  have t: "trim_space ?t = ?t"
    using ne by (intro trim_space_id url_visible [of _ raw]) simp_all
  have "trim_space (''Bearer '' @ ?t) = ''Bearer '' @ ?t"
    using ne vis by (intro trim_space_id) (simp_all add: url_visible [of _ raw])
  with ne vis t show ?thesis
    by (cases ?t) (simp_all add: bearer_token_def Let_def)
qed

section \<open>Properties\<close>


definition demo_verifier :: hmac_verifier where
  "demo_verifier = \<lparr>secret = replicate 32 9, audience = ''orc''\<rparr>"

definition demo_claims :: claims where
  "demo_claims = \<lparr>cl_sub = ''bob'', cl_aud = ''orc'', cl_scopes = [''orc:tools''], cl_exp = 1060, cl_iat = 1000\<rparr>"

definition demo_marshal :: "claims \<Rightarrow> bytes option" where
  "demo_marshal c = (if c = demo_claims then Some [1, 2, 3] else None)"

definition demo_unmarshal :: "bytes \<Rightarrow> claims option" where
  "demo_unmarshal b = (if b = [1, 2, 3] then Some demo_claims else None)"

definition demo_token :: string where
  "demo_token = (case mint (\<lambda>k m. take 4 m) demo_marshal demo_verifier (time_unix 1000) ''bob'' [''orc:tools''] (60 * second) of
     Inl e \<Rightarrow> [] | Inr t \<Rightarrow> t)"

lemma demo_mint:
  "mint (\<lambda>k m. take 4 m) demo_marshal demo_verifier (time_unix 1000) ''bob'' [''orc:tools''] (60 * second) = Inr demo_token"
proof -
  have "trim_space ''bob'' \<noteq> []" by code_simp
  moreover have "demo_marshal \<lparr>cl_sub = ''bob'', cl_aud = audience demo_verifier, cl_scopes = [''orc:tools''],
      cl_exp = unix_of (time_unix 1000 + 60 * second), cl_iat = unix_of (time_unix 1000)\<rparr> = Some [1, 2, 3]"
    by (simp add: demo_marshal_def demo_claims_def demo_verifier_def unix_of_def time_unix_def)
  ultimately show ?thesis
    by (simp add: demo_token_def mint_def max_ttl_def Let_def)
qed


text \<open>
  \<^verbatim>\<open>HMACVerifier.Verify\<close> accepts nothing else: an accepted token has three parts, the third
  decodes to the keyed hash of the first two under the verifier's secret, and the claims in the
  second name a subject and this audience and have not expired; the identity is that of the claims.
\<close>

theorem hmac_verify_sound:
  assumes "hmac_verify mac unmarshal v now token = Inr i"
  shows "\<exists>h p s payload c. token = h @ ''.'' @ p @ ''.'' @ s \<and>
    b64url_decode s = Some (mac (secret v) (bytes_of_string (h @ ''.'' @ p))) \<and>
    b64url_decode p = Some payload \<and> unmarshal payload = Some c \<and>
    cl_sub c \<noteq> [] \<and> cl_aud c = audience v \<and> unix_of now < cl_exp c \<and> i = identity_of_claims c"
proof -
  from assms obtain h p s where parts: "split_on CHR ''.'' token = [h, p, s]"
    unfolding hmac_verify_def by (auto split: list.splits)
  then have tok: "token = h @ ''.'' @ p @ ''.'' @ s"
    using join_split_on [of "CHR ''.''" token] by simp
  from assms parts obtain payload c where
    "b64url_decode s = Some (mac (secret v) (bytes_of_string (h @ ''.'' @ p)))"
    "b64url_decode p = Some payload" "unmarshal payload = Some c"
    "cl_sub c \<noteq> []" "cl_aud c = audience v" "unix_of now < cl_exp c" "i = identity_of_claims c"
    unfolding hmac_verify_def by (auto split: option.splits if_splits)
  with tok show ?thesis by blast
qed

theorem hmac_verify_sound_witness:
  "\<exists>h p s. demo_token = h @ ''.'' @ p @ ''.'' @ s \<and> b64url_decode s = Some (take 4 (bytes_of_string (h @ ''.'' @ p)))"
proof -
  let ?r = "hmac_verify (\<lambda>k m. take 4 m) demo_unmarshal demo_verifier (time_unix 1059) demo_token"
  have "\<not> isl ?r" by code_simp
  then have "?r = Inr (projr ?r)" by simp
  from hmac_verify_sound [OF this] show ?thesis by fastforce
qed

text \<open>
  C30. The introspection cache is sound and bounded: after any sequence of verifications from an
  empty cache, an identity that \<^verbatim>\<open>Verify\<close> returns has not expired and was accepted from an
  answer of the server, at most 30 seconds old, for a token with the same hash; the cache never
  has more than 1024 entries.
\<close>

theorem introspection_cache_sound:
  assumes "iv_cache v = []" and "introspect sha256 server now token (introspects sha256 server reqs v) = (Inr i, v')"
  shows "now < expiry i \<and> length (iv_cache v') \<le> 1024 \<and>
    (\<exists>t tok. sha256 (bytes_of_string tok) = sha256 (bytes_of_string token) \<and>
       accept_answer v t (server t tok) = Inr i \<and> now \<le> t + 30 * second)"
proof -
  let ?v = "introspects sha256 server reqs v"
  have inv: "cache_inv sha256 server ?v"
    by (rule introspects_inv) (simp add: cache_inv_def assms(1))
  have acc: "accept_answer ?v = accept_answer v" by (rule introspects_config)
  have len: "length (iv_cache v') \<le> 1024"
    using introspect_inv [OF inv, of now token] assms(2) by (simp add: cache_inv_def)
  let ?hash = "sha256 (bytes_of_string token)"
  consider (hit) "cache_lookup ?v now ?hash = Some i" | (fresh) "accept_answer ?v now (server now token) = Inr i"
    using assms(2) by (auto simp: introspect_def Let_def split: if_splits option.splits sum.splits)
  then show ?thesis
  proof cases
    case hit
    then obtain e where e: "(?hash, e) \<in> set (iv_cache ?v)" "now < ce_expires e" "now < expiry i" "i = ce_identity e"
      by (auto simp: cache_lookup_def split: option.splits if_splits dest: map_of_SomeD)
    with inv have "genuine sha256 server ?v ?hash e" by (auto simp: cache_inv_def)
    with e acc len show ?thesis unfolding genuine_def by fastforce
  next
    case fresh
    then have "now < expiry i"
      by (auto simp: accept_answer_def split: introspection_answer.splits option.splits if_splits)
    with fresh acc len show ?thesis by force
  qed
qed

definition demo_introspector :: introspection_verifier where
  "demo_introspector = \<lparr>endpoint_https = True, iv_audience = ''orc'', cache_ttl = 10 * second, iv_cache = []\<rparr>"

definition demo_server :: "time \<Rightarrow> string \<Rightarrow> introspection_answer" where
  "demo_server t token =
     (if t < 5 * second then Answer \<lparr>ir_active = True, ir_sub = ''bob'', ir_scope = JString ''orc:tools'',
        ir_exp = Some (100 * second), ir_aud = JList [JString ''orc'']\<rparr> else BadStatus)"

theorem introspection_cache_sound_witness:
  "fst (introspect (\<lambda>b. b) demo_server (9 * second) ''tok'' (introspects (\<lambda>b. b) demo_server [(second, ''tok'')] demo_introspector)) =
     Inr \<lparr>subject = ''bob'', scopes = parse_scopes (JString ''orc:tools''), expiry = 100 * second\<rparr> \<and>
   (\<exists>t tok. accept_answer demo_introspector t (demo_server t tok) =
     Inr \<lparr>subject = ''bob'', scopes = parse_scopes (JString ''orc:tools''), expiry = 100 * second\<rparr> \<and> 9 * second \<le> t + 30 * second)"
proof -
  let ?i = "\<lparr>subject = ''bob'', scopes = parse_scopes (JString ''orc:tools''), expiry = 100 * second\<rparr>"
  let ?r = "introspect (\<lambda>b. b) demo_server (9 * second) ''tok'' (introspects (\<lambda>b. b) demo_server [(second, ''tok'')] demo_introspector)"
  have "fst ?r = Inr ?i"
    by (simp add: introspect_def demo_introspector_def demo_server_def accept_answer_def cache_lookup_def
        audience_contains_def evict_def cache_until_def Let_def)
  then have r: "?r = (Inr ?i, snd ?r)" by (metis prod.collapse)
  have "iv_cache demo_introspector = []" by (simp add: demo_introspector_def)
  from introspection_cache_sound [OF this r] \<open>fst ?r = Inr ?i\<close> show ?thesis by blast
qed

text \<open>
  C31. Loopback trust goes to loopback requests without credentials of their own and to nobody else:
  behind the middleware a request carries the trusted token exactly when the client sent that secret
  token itself, or sent no \<^verbatim>\<open>Authorization\<close> at all from a loopback address; with it, and with no
  other token than it, the verifier returns the trusted identity without asking the base verifier.
\<close>

theorem loopback_trust_exact:
  assumes "new_loopback_trust has_base sub (Some raw) century = Inr t" and "raw \<noteq> []"
  shows "(bearer_token (trust_middleware ip t remoteAddr authorization) = Some (lt_token t) \<longleftrightarrow>
      bearer_token authorization = Some (lt_token t) \<or>
      trim_space authorization = [] \<and> remote_is_loopback ip remoteAddr) \<and>
    trust_verify t base (lt_token t) = Inr \<lparr>subject = sub, scopes = {''orc:tools''}, expiry = century\<rparr> \<and>
    (token \<noteq> lt_token t \<longrightarrow> trust_verify t base token = base token)"
proof -
  have t: "lt_token t = b64url_encode raw" "lt_identity t = \<lparr>subject = sub, scopes = {''orc:tools''}, expiry = century\<rparr>"
    using assms(1) by (auto simp: new_loopback_trust_def split: if_splits)
  have none: "bearer_token authorization = None" if "trim_space authorization = []"
    using that by (simp add: bearer_token_def)
  have "bearer_token (''Bearer '' @ lt_token t) = Some (lt_token t)"
    unfolding t(1) by (rule bearer_b64url [OF assms(2)])
  with t none show ?thesis
    by (auto simp: trust_middleware_def trust_verify_def)
qed

theorem loopback_trust_exact_witness:
  "bearer_token (trust_middleware (\<lambda>h. h = ''127.0.0.1'') \<lparr>lt_token = b64url_encode [1, 2, 3],
      lt_identity = \<lparr>subject = ''me'', scopes = {''orc:tools''}, expiry = 9\<rparr>\<rparr> ''10.0.0.1:99'' []) \<noteq> Some (b64url_encode [1, 2, 3])"
proof -
  let ?t = "\<lparr>lt_token = b64url_encode [1, 2, 3], lt_identity = \<lparr>subject = ''me'', scopes = {''orc:tools''}, expiry = 9\<rparr>\<rparr>"
  have "trim_space ''me'' \<noteq> []" by code_simp
  then have "new_loopback_trust True ''me'' (Some [1, 2, 3]) 9 = Inr ?t" by (simp add: new_loopback_trust_def)
  moreover have "\<not> remote_is_loopback (\<lambda>h. h = ''127.0.0.1'') ''10.0.0.1:99''" "bearer_token [] = None" by code_simp+
  ultimately show ?thesis
    using loopback_trust_exact [of True "''me''" "[1, 2, 3]" 9 ?t "\<lambda>h. h = ''127.0.0.1''" "''10.0.0.1:99''" "[]"] by simp
qed

end
