(* ===== verification/Ws.thy ===== *)
theory Ws
  imports Prelude
begin

text \<open>
  The WebSocket connection of the relay (\<^verbatim>\<open>internal/ws/ws.go\<close>): reading and writing of
  frames on bytes of 8 bits, and the assembly of messages from frames. The state of a connection
  is what is left to read, what has been written, how many more bytes the network accepts
  (\<open>None\<close>: all), and the source of random masks. The end of the input, and every other failure to
  read, is the error \<open>WsEOF\<close>; the failure of a write is \<open>WsWrite\<close>.
\<close>

section \<open>Definitions\<close>

datatype role = Server | Client

datatype wserr =
    WsEOF
  | WsWrite
  | WsRand
  | ErrClosed
  | ErrProtocol string
  | WsTooLarge string

record ws_conn =
  role :: role
  maxb :: nat

record ws_state =
  inp :: bytes
  outp :: bytes
  wbudget :: "nat option"
  rsrc :: "nat \<Rightarrow> bytes option"
  rpos :: nat

text \<open>\<^verbatim>\<open>io.ReadFull\<close>.\<close>

definition read_full :: "nat \<Rightarrow> bytes \<Rightarrow> wserr + (bytes \<times> bytes)" where
  "read_full n bs = (if length bs < n then Inl WsEOF else Inr (take n bs, drop n bs))"

text \<open>\<^verbatim>\<open>binary.BigEndian\<close>.\<close>

definition be_val :: "bytes \<Rightarrow> nat" where
  "be_val bs = foldl (\<lambda>a b. a * 256 + unat b) 0 bs"

fun be_bytes :: "nat \<Rightarrow> nat \<Rightarrow> bytes" where
  "be_bytes 0 v = []"
| "be_bytes (Suc n) v = word_of_nat (v div 256 ^ n) # be_bytes n v"

text \<open>\<^verbatim>\<open>payload[i] ^= mask[i&3]\<close> for all \<open>i\<close>.\<close>

definition xor_mask :: "bytes \<Rightarrow> bytes \<Rightarrow> bytes" where
  "xor_mask mk p = map2 (\<lambda>i b. b XOR mk ! (i mod 4)) [0..<length p] p"

definition read_length :: "byte \<Rightarrow> bytes \<Rightarrow> wserr + (64 word \<times> bytes)" where
  "read_length b bs =
     (if b = 126 then
        bindE (read_full 2 bs) (\<lambda>(l, bs').
          let len = word_of_nat (be_val l)
          in if len < 126 then Inl (ErrProtocol ''non-canonical length'') else Inr (len, bs'))
      else if b = 127 then
        bindE (read_full 8 bs) (\<lambda>(l, bs').
          let len = word_of_nat (be_val l)
          in if len AND push_bit 63 1 \<noteq> 0 \<or> len < 65536
             then Inl (ErrProtocol ''invalid length'') else Inr (len, bs'))
      else Inr (ucast b, bs))"

definition read_frame :: "ws_conn \<Rightarrow> bytes \<Rightarrow> wserr + ((bool \<times> byte \<times> bytes) \<times> bytes)" where
  "read_frame c bs =
     (case bs of [] \<Rightarrow> Inl WsEOF | h # bs1 \<Rightarrow>
        if h AND 0x70 \<noteq> 0 then Inl (ErrProtocol ''RSV bits set'')
        else
          (let fin = (h AND 0x80 \<noteq> 0); opcode = h AND 0x0F
           in case bs1 of [] \<Rightarrow> Inl WsEOF | b2 # bs2 \<Rightarrow>
             (let masked = (b2 AND 0x80 \<noteq> 0)
              in if (role c = Server \<and> \<not> masked) \<or> (role c = Client \<and> masked)
                 then Inl (ErrProtocol ''invalid masking'')
                 else bindE (read_length (b2 AND 0x7F) bs2) (\<lambda>(len, bs3).
                   if opcode \<ge> 8 \<and> (\<not> fin \<or> len > 125)
                   then Inl (ErrProtocol ''invalid control frame'')
                   else if unat len > maxb c
                   then Inl (WsTooLarge ''websocket frame exceeds configured maximum'')
                   else bindE (if masked then read_full 4 bs3 else Inr ([0, 0, 0, 0], bs3))
                     (\<lambda>(mk, bs4). bindE (read_full (unat len) bs4)
                       (\<lambda>(payload, bs5).
                          Inr ((fin, opcode, if masked then xor_mask mk payload else payload),
                               bs5)))))))"

definition length_header :: "byte \<Rightarrow> nat \<Rightarrow> bytes" where
  "length_header maskBit l =
     (if l < 126 then [maskBit OR word_of_nat l]
      else if l \<le> 65535 then (maskBit OR 126) # be_bytes 2 l
      else (maskBit OR 127) # be_bytes 8 l)"

text \<open>\<^verbatim>\<open>net.Conn.Write\<close>: a write that fails may have sent a part of the bytes.\<close>

definition conn_write :: "ws_state \<Rightarrow> bytes \<Rightarrow> (wserr + unit) \<times> ws_state" where
  "conn_write st bs =
     (case wbudget st of
        None \<Rightarrow> (Inr (), st\<lparr>outp := outp st @ bs\<rparr>)
      | Some n \<Rightarrow>
        (if length bs \<le> n
         then (Inr (), st\<lparr>outp := outp st @ bs, wbudget := Some (n - length bs)\<rparr>)
         else (Inl WsWrite, st\<lparr>outp := outp st @ take n bs, wbudget := Some 0\<rparr>)))"

definition write_frame :: "ws_conn \<Rightarrow> ws_state \<Rightarrow> byte \<Rightarrow> bytes \<Rightarrow> (wserr + unit) \<times> ws_state" where
  "write_frame c st opcode payload =
     (if opcode \<ge> 8 \<and> length payload > 125
      then (Inl (WsTooLarge ''control frame too large''), st)
      else
        (let masked = (role c = Client);
             header = (0x80 OR opcode) # length_header (if masked then 0x80 else 0) (length payload)
         in case (if masked then rsrc st (rpos st) else Some []) of
              None \<Rightarrow> (Inl WsRand, st)
            | Some mk \<Rightarrow>
              (let st1 = (if masked then st\<lparr>rpos := Suc (rpos st)\<rparr> else st);
                   out = (if masked then xor_mask mk payload else payload)
               in case conn_write st1 (header @ take 4 mk) of
                    (Inl e, st2) \<Rightarrow> (Inl e, st2)
                  | (Inr _, st2) \<Rightarrow> conn_write st2 out)))"

definition write_message :: "ws_conn \<Rightarrow> ws_state \<Rightarrow> bytes \<Rightarrow> (wserr + unit) \<times> ws_state" where
  "write_message c st payload =
     (if length payload > maxb c
      then (Inl (WsTooLarge ''websocket message exceeds configured maximum''), st)
      else write_frame c st 0x1 payload)"

text \<open>\<^verbatim>\<open>Close\<close> sends a close frame; nothing is read or written afterwards.\<close>

definition ws_close :: "ws_conn \<Rightarrow> ws_state \<Rightarrow> ws_state" where
  "ws_close c st = (snd (write_frame c st 0x8 []))\<lparr>inp := [], wbudget := Some 0\<rparr>"

text \<open>A frame has at least two bytes, so the loop of \<^verbatim>\<open>ReadMessage\<close> comes to an end.\<close>

lemma read_full_Inr: "read_full n bs = Inr (x, r) \<longleftrightarrow> n \<le> length bs \<and> x = take n bs \<and> r = drop n bs"
  by (auto simp: read_full_def)

lemma read_length_rest: "read_length b bs = Inr (len, r) \<Longrightarrow> length r \<le> length bs"
  by (auto simp: read_length_def err_simps read_full_Inr Let_def split: if_splits)

lemma read_frame_rest: "read_frame c bs = Inr (f, r) \<Longrightarrow> length r < length bs"
  by (auto simp: read_frame_def Let_def err_simps read_full_Inr split: list.splits if_splits
      dest!: read_length_rest)

lemma write_frame_inp: "inp (snd (write_frame c st op p)) = inp st"
  by (simp add: write_frame_def conn_write_def Let_def split: option.splits prod.splits sum.splits)

function read_message_loop ::
  "ws_conn \<Rightarrow> ws_state \<Rightarrow> bool \<Rightarrow> bytes \<Rightarrow> (wserr + bytes) \<times> ws_state" where
  "read_message_loop c st started out =
     (case read_frame c (inp st) of
        Inl e \<Rightarrow> (Inl e, st)
      | Inr ((fin, opcode, payload), rest) \<Rightarrow>
        (let st1 = st\<lparr>inp := rest\<rparr>; out' = out @ payload
         in if opcode = 0x8 then (Inl ErrClosed, st1)
            else if opcode = 0x9 then
              (case write_frame c st1 0xA payload of
                 (Inl e, st2) \<Rightarrow> (Inl e, st2)
               | (Inr _, st2) \<Rightarrow> read_message_loop c st2 started out)
            else if opcode = 0xA then read_message_loop c st1 started out
            else if (opcode = 0x1 \<or> opcode = 0x2) \<and> started
              then (Inl (ErrProtocol ''unexpected data frame''), st1)
            else if opcode = 0x0 \<and> \<not> started
              then (Inl (ErrProtocol ''unexpected continuation''), st1)
            else if opcode \<noteq> 0x0 \<and> opcode \<noteq> 0x1 \<and> opcode \<noteq> 0x2
              then (Inl (ErrProtocol (''opcode '' @ show_nat (unat opcode))), st1)
            else if length out' > maxb c
              then (Inl (WsTooLarge ''websocket message exceeds configured maximum''), st1)
            else if fin then (Inr out', st1)
            else read_message_loop c st1 True out'))"
  by pat_completeness auto
termination
  by (relation "measure (\<lambda>(c, st, started, out). length (inp st))")
    (auto dest!: read_frame_rest arg_cong [where f = "\<lambda>x. inp (snd x)"] simp: write_frame_inp)

declare read_message_loop.simps [simp del]

definition read_message :: "ws_conn \<Rightarrow> ws_state \<Rightarrow> (wserr + bytes) \<times> ws_state" where
  "read_message c st = read_message_loop c st False []"

text \<open>
  The reference encoding of one frame (RFC 6455, section 5.2): the shortest length field, and a
  mask exactly when one is given.
\<close>

definition enc_frame :: "bool \<Rightarrow> byte \<Rightarrow> bytes option \<Rightarrow> bytes \<Rightarrow> bytes" where
  "enc_frame fin opcode mk payload =
     ((if fin then 0x80 else 0) OR opcode) #
     length_header (if mk = None then 0 else 0x80) (length payload) @
     (case mk of None \<Rightarrow> payload | Some m \<Rightarrow> m @ xor_mask m payload)"

text \<open>The frames the protocol allows a peer of the given role to receive.\<close>

definition frame_ok :: "ws_conn \<Rightarrow> bool \<Rightarrow> byte \<Rightarrow> bytes option \<Rightarrow> bytes \<Rightarrow> bool" where
  "frame_ok c fin opcode mk payload =
     (opcode < 16 \<and> length payload \<le> maxb c \<and> length payload < 2 ^ 63 \<and>
      (opcode \<ge> 8 \<longrightarrow> fin \<and> length payload \<le> 125) \<and>
      (case mk of None \<Rightarrow> role c = Client | Some m \<Rightarrow> role c = Server \<and> length m = 4))"

section \<open>Lemmas\<close>

subsection \<open>The two header bytes\<close>

lemma byte_and_80: "(b :: byte) AND 0x80 = (if bit b 7 then 0x80 else 0)"
proof -
  have "(b AND 2 ^ 7 = 0) \<longleftrightarrow> \<not> bit b 7"
    by (rule and_exp_eq_0_iff_not_bit)
  moreover have "b AND 2 ^ 7 = 2 ^ 7" if "bit b 7"
    using that by (intro bit_eqI) (auto simp only: bit_and_iff bit_exp_iff)
  ultimately show ?thesis by auto
qed

lemma byte_bit_7: "bit (b :: byte) 7 \<longleftrightarrow> \<not> b < 128"
  using bit_top_iff [of 7 b] by (simp add: word_less_nat_alt)

lemma second_byte_split:
  "(b :: byte) AND 0x7F < 128" "b = (if b AND 0x80 \<noteq> 0 then 0x80 else 0) OR (b AND 0x7F)"
proof -
  show "b AND 0x7F < 128"
    by (rule order.strict_trans1 [OF word_and_le1]) simp
  have "(0x80 :: byte) OR 0x7F = - 1" by simp
  then have "b = b AND (0x80 OR 0x7F)" by (simp only: and.right_neutral)
  also have "\<dots> = (b AND 0x80) OR (b AND 0x7F)" by (rule bit.conj_disj_distrib)
  finally have b: "b = (b AND 0x80) OR (b AND 0x7F)" .
  have "(if b AND 0x80 \<noteq> 0 then 0x80 else 0) = b AND 0x80"
    by (simp add: byte_and_80)
  with b show "b = (if b AND 0x80 \<noteq> 0 then 0x80 else 0) OR (b AND 0x7F)"
    by (simp only:)
qed

lemma first_byte_split:
  assumes "(h :: byte) AND 0x70 = 0"
  shows "h AND 0x0F < 16" "h = (if h AND 0x80 \<noteq> 0 then 0x80 else 0) OR (h AND 0x0F)"
proof -
  show "h AND 0x0F < 16"
    by (rule order.strict_trans1 [OF word_and_le1]) simp
  have "h AND 0x7F = h AND (0x70 OR 0x0F)" by simp
  also have "\<dots> = h AND 0x0F" by (simp only: bit.conj_disj_distrib assms or.left_neutral)
  finally show "h = (if h AND 0x80 \<noteq> 0 then 0x80 else 0) OR (h AND 0x0F)"
    using second_byte_split(2) [of h] by simp
qed

lemma seven_bits:
  assumes "(b :: byte) < 128"
  shows "b AND 0x80 = 0" "(0x80 OR b) AND 0x80 = 0x80" "(0x80 OR b) AND 0x7F = b" "b AND 0x7F = b"
proof -
  show z: "b AND 0x80 = 0"
    using assms by (simp add: byte_and_80 byte_bit_7)
  show id: "b AND 0x7F = b"
    using second_byte_split(2) [of b] z by simp
  show "(0x80 OR b) AND 0x80 = 0x80" "(0x80 OR b) AND 0x7F = b"
    using z id by (simp_all add: bit.conj_disj_distrib2)
qed

lemma nibble:
  assumes "(op :: byte) < 16"
  shows "op AND 0x70 = 0" "(0x80 OR op) AND 0x70 = 0" "op AND 0x80 = 0"
    "(0x80 OR op) AND 0x80 = 0x80" "(0x80 OR op) AND 0x0F = op" "op AND 0x0F = op"
proof -
  have l: "list_all (\<lambda>n. word_of_nat n AND (0x70 :: byte) = 0 \<and> word_of_nat n AND (0x0F :: byte) = word_of_nat n) [0..<16]"
    by code_simp
  have "unat op \<in> set [0..<16]"
    using assms by (simp add: word_less_nat_alt)
  with l have "word_of_nat (unat op) AND (0x70 :: byte) = 0 \<and> word_of_nat (unat op) AND (0x0F :: byte) = word_of_nat (unat op)"
    by (auto simp only: list_all_iff)
  then show 1: "op AND 0x70 = 0" and 2: "op AND 0x0F = op" by auto
  have "op < 128" using assms by (rule order.strict_trans) simp
  note s = seven_bits [OF this]
  show "op AND 0x80 = 0" "(0x80 OR op) AND 0x80 = 0x80" by (rule s(1), rule s(2))
  show "(0x80 OR op) AND 0x70 = 0" "(0x80 OR op) AND 0x0F = op" 
    using 1 2 by (simp_all add: bit.conj_disj_distrib2)
qed

lemma top_bit: "(len :: 64 word) AND push_bit 63 1 = 0 \<longleftrightarrow> unat len < 2 ^ 63"
  using bit_top_iff [of 63 len] by (simp only: push_bit_of_1 and_exp_eq_0_iff_not_bit) simp

subsection \<open>Big-endian numbers and masks\<close>

lemma length_be_bytes [simp]: "length (be_bytes n v) = n"
  by (induction n) auto

lemma be_val_foldl: "foldl (\<lambda>a b. a * 256 + unat (b :: byte)) a bs = a * 256 ^ length bs + be_val bs"
proof (induction bs arbitrary: a)
  case (Cons b bs)
  show ?case
    using Cons [of "a * 256 + unat b"] Cons [of "unat b"] by (simp add: be_val_def algebra_simps)
qed (simp add: be_val_def)

lemma be_val_Cons: "be_val (b # bs) = unat b * 256 ^ length bs + be_val bs"
  using be_val_foldl [of "unat b" bs] by (simp add: be_val_def)

lemma be_val_bound: "be_val bs < 256 ^ length bs"
proof (induction bs)
  case (Cons b bs)
  have "unat b \<le> 255"
    using unsigned_less [of b, where ?'a = nat] by simp
  then have "unat b * 256 ^ length bs \<le> 255 * 256 ^ length bs"
    by (rule mult_le_mono1)
  with Cons have "unat b * 256 ^ length bs + be_val bs < 256 * 256 ^ length bs"
    by linarith
  then show ?case by (simp add: be_val_Cons)
qed (simp add: be_val_def)

lemma be_val_be_bytes: "be_val (be_bytes n v) = v mod 256 ^ n"
proof (induction n)
  case (Suc n)
  have "v mod (256 ^ n * 256) = 256 ^ n * (v div 256 ^ n mod 256) + v mod 256 ^ n"
    by (rule mod_mult2_eq)
  with Suc show ?case
    by (simp add: be_val_Cons unat_of_nat mult.commute)
qed (simp add: be_val_def)

lemma be_val_inject:
  "length xs = length ys \<Longrightarrow> be_val xs = be_val ys \<Longrightarrow> xs = ys"
proof (induction xs ys rule: list_induct2)
  case (Cons x xs y ys)
  let ?B = "256 ^ length xs :: nat"
  have "(unat x * ?B + be_val xs) div ?B = (unat y * ?B + be_val ys) div ?B"
    "(unat x * ?B + be_val xs) mod ?B = (unat y * ?B + be_val ys) mod ?B"
    using Cons.prems Cons.hyps by (simp_all add: be_val_Cons)
  moreover have "be_val xs < ?B" "be_val ys < ?B"
    using be_val_bound [of xs] be_val_bound [of ys] Cons.hyps by simp_all
  ultimately have "unat x = unat y" "be_val xs = be_val ys"
    by simp_all
  with Cons.IH show ?case by (simp add: word_unat_eq_iff)
qed simp

lemma be_bytes_be_val: "length bs = n \<Longrightarrow> be_bytes n (be_val bs) = bs"
  using be_val_bound [of bs] by (intro be_val_inject) (simp_all add: be_val_be_bytes)

lemma length_xor_mask [simp]: "length (xor_mask m p) = length p"
  by (simp add: xor_mask_def)

lemma xor_mask_twice [simp]: "xor_mask m (xor_mask m p) = p"
  by (rule nth_equalityI) (simp_all add: xor_mask_def xor.assoc)

subsection \<open>Lengths\<close>

text \<open>The length field: the low seven bits of the second byte, and what follows them.\<close>

lemma length_header_read:
  assumes "l < 2 ^ 63"
  obtains b ext where "\<And>m. length_header m l = (m OR b) # ext" and "b < 128"
    and "\<And>r. read_length b (ext @ r) = Inr (word_of_nat l, r)"
proof -
  consider "l < 126" | "126 \<le> l" "l \<le> 65535" | "65535 < l" by linarith
  then show thesis
  proof cases
    case 1
    then have u: "unat (word_of_nat l :: byte) = l"
      by (simp add: unat_of_nat)
    have "(word_of_nat l :: byte) < 128" "word_of_nat l \<noteq> (126 :: byte)" "word_of_nat l \<noteq> (127 :: byte)"
      using 1 u by (auto simp: word_less_nat_alt word_unat_eq_iff)
    moreover have "ucast (word_of_nat l :: byte) = (word_of_nat l :: 64 word)"
      using 1 u by (simp add: word_unat_eq_iff unsigned_ucast_eq unat_of_nat take_bit_nat_eq_self)
    ultimately show ?thesis
      using 1 by (intro that [of "word_of_nat l" "[]"]) (auto simp: length_header_def read_length_def)
  next
    case 2
    have "be_val (be_bytes 2 l) = l"
      using 2 by (simp add: be_val_be_bytes)
    moreover have "\<not> (word_of_nat l :: 64 word) < 126"
      using 2 by (simp add: word_less_nat_alt unat_of_nat)
    ultimately show ?thesis
      using 2 by (intro that [of 126 "be_bytes 2 l"])
        (auto simp: length_header_def read_length_def read_full_def)
  next
    case 3
    have "be_val (be_bytes 8 l) = l"
      using assms by (simp add: be_val_be_bytes)
    moreover have "unat (word_of_nat l :: 64 word) = l"
      using assms by (simp add: unat_of_nat)
    moreover from this have "\<not> (word_of_nat l :: 64 word) < 65536"
      using 3 by (simp add: word_less_nat_alt)
    moreover have "(word_of_nat l :: 64 word) AND push_bit 63 1 = 0"
      using assms calculation(2) by (simp only: top_bit)
    ultimately show ?thesis
      using 3 by (intro that [of 127 "be_bytes 8 l"])
        (auto simp: length_header_def read_length_def read_full_def simp del: push_bit_of_1)
  qed
qed

lemma read_length_two:
  assumes "read_length 126 bs = Inr (len, r)"
  shows "length_header m (unat len) @ r = (m OR 126) # bs \<and> unat len < 2 ^ 63"
proof -
  have l: "2 \<le> length bs" "len = word_of_nat (be_val (take 2 bs))" "\<not> len < 126" "r = drop 2 bs"
    using assms by (auto simp: read_length_def err_simps read_full_Inr Let_def split: if_splits)
  have v: "be_val (take 2 bs) < 65536"
    using be_val_bound [of "take 2 bs"] l(1) by simp
  then have u: "unat len = be_val (take 2 bs)" using l(2) by (simp add: unat_of_nat)
  with l(3) have "\<not> unat len < 126" by (simp add: word_less_nat_alt)
  with u v l be_bytes_be_val [of "take 2 bs" 2] show ?thesis by (simp add: length_header_def)
qed

lemma read_length_eight:
  assumes "read_length 127 bs = Inr (len, r)"
  shows "length_header m (unat len) @ r = (m OR 127) # bs \<and> unat len < 2 ^ 63"
proof -
  have l: "8 \<le> length bs" "len = word_of_nat (be_val (take 8 bs))" "len AND push_bit 63 1 = 0" "\<not> len < 65536" "r = drop 8 bs"
    using assms by (auto simp: read_length_def err_simps read_full_Inr Let_def split: if_splits)
  have "be_val (take 8 bs) < 256 ^ 8" using be_val_bound [of "take 8 bs"] l(1) by simp
  then have u: "unat len = be_val (take 8 bs)" using l(2) by (simp add: unat_of_nat)
  have "unat len < 2 ^ 63" using l(3) by (simp only: top_bit)
  moreover have "\<not> unat len < 65536" using l(4) by (simp add: word_less_nat_alt)
  ultimately show ?thesis using u l be_bytes_be_val [of "take 8 bs" 8] by (simp add: length_header_def)
qed

lemma read_length_header:
  assumes "read_length b bs = Inr (len, r)" and "b < 128"
  shows "length_header m (unat len) @ r = (m OR b) # bs \<and> unat len < 2 ^ 63"
proof -
  have "unat b < 126 \<or> unat b = 126 \<or> unat b = 127" using assms(2) by (simp add: word_less_nat_alt) linarith
  then consider "b = 126" | "b = 127" | "b < 126" by (auto simp: word_less_nat_alt word_unat_eq_iff)
  then show ?thesis
  proof cases
    case 1
    with assms(1) read_length_two show ?thesis by blast
  next
    case 2
    with assms(1) read_length_eight show ?thesis by blast
  next
    case 3
    then have "b \<noteq> 126" "b \<noteq> 127" by auto
    with assms have l: "len = ucast b" "r = bs" by (auto simp: read_length_def)
    have "unat len = unat b"
      using l unsigned_less [of b, where ?'a = nat] by (simp add: unsigned_ucast_eq take_bit_nat_eq_self)
    with 3 l show ?thesis by (simp add: length_header_def word_less_nat_alt)
  qed
qed

subsection \<open>Frames\<close>

text \<open>Reading inverts the reference encoding, and accepts nothing else.\<close>

lemma read_enc_frame:
  assumes "frame_ok c fin opcode mk payload"
  shows "read_frame c (enc_frame fin opcode mk payload @ rest) = Inr ((fin, opcode, payload), rest)"
proof -
  have op: "opcode < 16" and l: "length payload < 2 ^ 63" "length payload \<le> maxb c"
    and ctl: "opcode \<ge> 8 \<longrightarrow> fin \<and> length payload \<le> 125"
    using assms by (simp_all add: frame_ok_def)
  obtain b ext where h: "\<And>m. length_header m (length payload) = (m OR b) # ext"
    and b: "b < 128" and rl: "\<And>r. read_length b (ext @ r) = Inr (word_of_nat (length payload), r)"
    using length_header_read [OF l(1)] by metis
  have u: "unat (word_of_nat (length payload) :: 64 word) = length payload"
    using l(1) by (simp add: unat_of_nat)
  then have ctl': "opcode \<ge> 8 \<longrightarrow> fin \<and> \<not> word_of_nat (length payload) > (125 :: 64 word)"
    using ctl by (auto simp: word_less_nat_alt)
  note bits = nibble [OF op] seven_bits [OF b]
  show ?thesis
  proof (cases mk)
    case None
    with assms have "role c = Client" by (simp add: frame_ok_def)
    with None h bits rl u l ctl' show ?thesis
      by (auto simp: enc_frame_def read_frame_def Let_def read_full_def)
  next
    case (Some m)
    with assms have "role c = Server" "length m = 4" by (simp_all add: frame_ok_def)
    with Some h bits rl u l ctl' show ?thesis
      by (auto simp: enc_frame_def read_frame_def Let_def read_full_def)
  qed
qed

lemma read_frame_parts:
  assumes "read_frame c bs = Inr ((fin, opcode, payload), rest)"
  obtains h b bs2 len bs3 where "bs = h # b # bs2" and "h AND 0x70 = 0"
    and "(role c = Server) = (b AND 0x80 \<noteq> 0)"
    and "read_length (b AND 0x7F) bs2 = Inr (len, bs3)"
    and "fin = (h AND 0x80 \<noteq> 0)" and "opcode = h AND 0x0F"
    and "opcode \<ge> 8 \<longrightarrow> fin \<and> \<not> len > 125" and "unat len \<le> maxb c"
    and "if b AND 0x80 \<noteq> 0
       then 4 + unat len \<le> length bs3 \<and> payload = xor_mask (take 4 bs3) (take (unat len) (drop 4 bs3))
         \<and> rest = drop (unat len) (drop 4 bs3)
       else unat len \<le> length bs3 \<and> payload = take (unat len) bs3 \<and> rest = drop (unat len) bs3"
proof -
  from assms obtain h b bs2 where bs: "bs = h # b # bs2" and h: "h AND 0x70 = 0"
    and role: "(role c = Server) = (b AND 0x80 \<noteq> 0)"
    by (cases "role c") (auto simp: read_frame_def Let_def split: list.splits if_splits)
  then have "\<not> ((role c = Server \<and> b AND 0x80 = 0) \<or> (role c = Client \<and> b AND 0x80 \<noteq> 0))"
    by (cases "role c") auto
  with assms bs h have run: "bindE (read_length (b AND 0x7F) bs2) (\<lambda>(len, bs3).
      if h AND 0x0F \<ge> 8 \<and> (h AND 0x80 = 0 \<or> len > 125)
      then Inl (ErrProtocol ''invalid control frame'')
      else if unat len > maxb c then Inl (WsTooLarge ''websocket frame exceeds configured maximum'')
      else bindE (if b AND 0x80 \<noteq> 0 then read_full 4 bs3 else Inr ([0, 0, 0, 0], bs3))
        (\<lambda>(mk, bs4). bindE (read_full (unat len) bs4) (\<lambda>(p, bs5).
           Inr ((h AND 0x80 \<noteq> 0, h AND 0x0F, if b AND 0x80 \<noteq> 0 then xor_mask mk p else p), bs5)))) =
    Inr ((fin, opcode, payload), rest)"
    by (simp add: read_frame_def Let_def)
  then obtain len bs3 where len: "read_length (b AND 0x7F) bs2 = Inr (len, bs3)"
    by (auto simp: bindE_Inr_iff)
  with run bs h role show ?thesis
    by (intro that [of h b bs2 len bs3])
      (auto simp: bindE_Inr_iff read_full_Inr split: if_splits)
qed

lemma read_frame_canonical:
  assumes "read_frame c bs = Inr ((fin, opcode, payload), rest)"
  shows "\<exists>mk. frame_ok c fin opcode mk payload \<and> bs = enc_frame fin opcode mk payload @ rest"
proof -
  from read_frame_parts [OF assms] obtain h b bs2 len bs3 where
    p: "bs = h # b # bs2" "h AND 0x70 = 0" "(role c = Server) = (b AND 0x80 \<noteq> 0)"
      "read_length (b AND 0x7F) bs2 = Inr (len, bs3)" "fin = (h AND 0x80 \<noteq> 0)" "opcode = h AND 0x0F"
      "opcode \<ge> 8 \<longrightarrow> fin \<and> \<not> len > 125" "unat len \<le> maxb c"
    and body: "if b AND 0x80 \<noteq> 0
       then 4 + unat len \<le> length bs3 \<and> payload = xor_mask (take 4 bs3) (take (unat len) (drop 4 bs3))
         \<and> rest = drop (unat len) (drop 4 bs3)
       else unat len \<le> length bs3 \<and> payload = take (unat len) bs3 \<and> rest = drop (unat len) bs3" .
  define m where "m = (if b AND 0x80 \<noteq> 0 then Some (take 4 bs3) else None)"
  have lp: "length payload = unat len"
    using body by (auto split: if_splits)
  note h = first_byte_split [OF p(2)] and b = second_byte_split [of b]
  note lh = read_length_header [OF p(4) b(1)]
  have "frame_ok c fin opcode m payload"
    using h(1) p lp lh body
    by (cases "role c") (auto simp: frame_ok_def m_def word_less_nat_alt split: if_splits)
  moreover have "bs = enc_frame fin opcode m payload @ rest"
  proof -
    have "bs3 = (case m of None \<Rightarrow> payload | Some k \<Rightarrow> k @ xor_mask k payload) @ rest"
      using body by (auto simp: m_def drop_drop split: if_splits) (metis append_take_drop_id drop_drop)
    moreover have "(if fin then 0x80 else 0) OR opcode = h"
      unfolding p(5,6) by (rule h(2) [symmetric])
    moreover have "(if m = None then 0 else 0x80) OR (b AND 0x7F) = b"
    proof -
      have "(if m = None then 0 else 0x80) = (if b AND 0x80 \<noteq> 0 then 0x80 else (0 :: byte))"
        by (simp add: m_def)
      then show ?thesis
        by (simp only: b(2) [symmetric])
    qed
    ultimately show ?thesis
      using p(1) lp lh [of "if m = None then 0 else 0x80"] by (simp add: enc_frame_def)
  qed
  ultimately show ?thesis by blast
qed

lemma write_frame_enc:
  assumes "\<not> (opcode \<ge> 8 \<and> length payload > 125)" and "wbudget st = None"
    and "role c = Client \<Longrightarrow> \<exists>m. rsrc st (rpos st) = Some m \<and> length m = 4"
  obtains mk where "fst (write_frame c st opcode payload) = Inr ()"
    and "outp (snd (write_frame c st opcode payload)) = outp st @ enc_frame True opcode mk payload"
    and "inp (snd (write_frame c st opcode payload)) = inp st"
    and "(mk = None) = (role c = Server)" and "\<And>m. mk = Some m \<Longrightarrow> length m = 4"
proof (cases "role c")
  case Server
  with assms(1,2) that [of None] show ?thesis
    by (auto simp: write_frame_def conn_write_def Let_def enc_frame_def)
next
  case Client
  with assms(3) obtain m where "rsrc st (rpos st) = Some m" "length m = 4" by blast
  with assms(1,2) Client that [of "Some m"] show ?thesis
    by (auto simp: write_frame_def conn_write_def Let_def enc_frame_def)
qed

subsection \<open>Messages\<close>

text \<open>
  The frames of one message as a peer may send them: a text or binary frame, then continuations up
  to one with the final bit, with pings and pongs anywhere in between.
\<close>

fun message_frames :: "bool \<Rightarrow> (bool \<times> byte \<times> bytes option \<times> bytes) list \<Rightarrow> bool" where
  "message_frames started [] = False"
| "message_frames started ((fin, opcode, mk, p) # fs) =
     (if opcode = 0x9 \<or> opcode = 0xA then message_frames started fs
      else (if started then opcode = 0x0 else opcode = 0x1 \<or> opcode = 0x2) \<and>
           (if fin then fs = [] else message_frames True fs))"

definition frames_data :: "(bool \<times> byte \<times> bytes option \<times> bytes) list \<Rightarrow> bytes" where
  "frames_data fs = concat (map (\<lambda>(fin, opcode, mk, p). if opcode < 3 then p else []) fs)"

definition frames_pings :: "(bool \<times> byte \<times> bytes option \<times> bytes) list \<Rightarrow> bytes list" where
  "frames_pings fs = map (\<lambda>(fin, opcode, mk, p). p) (filter (\<lambda>(fin, opcode, mk, p). opcode = 0x9) fs)"

definition enc_frames :: "(bool \<times> byte \<times> bytes option \<times> bytes) list \<Rightarrow> bytes" where
  "enc_frames fs = concat (map (\<lambda>(fin, opcode, mk, p). enc_frame fin opcode mk p) fs)"

lemma frames_simps [simp]:
  "frames_data [] = []" "frames_pings [] = []" "enc_frames [] = []"
  "frames_data ((fin, opcode, mk, p) # fs) = (if opcode < 3 then p else []) @ frames_data fs"
  "frames_pings ((fin, opcode, mk, p) # fs) = (if opcode = 0x9 then p # frames_pings fs else frames_pings fs)"
  "enc_frames ((fin, opcode, mk, p) # fs) = enc_frame fin opcode mk p @ enc_frames fs"
  by (simp_all add: frames_data_def frames_pings_def enc_frames_def)

lemma read_message_bounded:
  "fst (read_message_loop c st started out) = Inr msg \<Longrightarrow> length msg \<le> maxb c"
proof (induction "length (inp st)" arbitrary: st started out rule: less_induct)
  case less
  from less.prems obtain fin opcode p rest
    where rd: "read_frame c (inp st) = Inr ((fin, opcode, p), rest)"
    by (subst (asm) read_message_loop.simps) (auto split: sum.splits)
  note shorter = read_frame_rest [OF rd]
  let ?st = "st\<lparr>inp := rest\<rparr>"
  obtain r st2 where w: "write_frame c ?st 0xA p = (r, st2)"
    by fastforce
  then have "inp st2 = rest"
    using write_frame_inp [of c ?st "0xA" p] by simp
  with shorter less.hyps [of st2 started out] less.hyps [of ?st started out]
    less.hyps [of ?st True "out @ p"] less.prems rd w
  show ?case
    by (subst (asm) (4) read_message_loop.simps)
      (simp add: Let_def split: if_splits sum.splits, (metis length_append not_less)?)
qed

text \<open>A server that reads the frames of a message gets the data, and answers every ping.\<close>

lemma read_message_frames:
  assumes "role c = Server" and "inp st = enc_frames fs @ rest" and "wbudget st = None"
    and "message_frames started fs"
    and "\<forall>(fin, opcode, mk, p) \<in> set fs. frame_ok c fin opcode mk p"
    and "length out + length (frames_data fs) \<le> maxb c"
  shows "read_message_loop c st started out =
    (Inr (out @ frames_data fs),
     st\<lparr>inp := rest,
        outp := outp st @ concat (map (enc_frame True 0xA None) (frames_pings fs))\<rparr>)"
  using assms(2-6)
proof (induction fs arbitrary: st started out)
  case (Cons f fs)
  obtain fin opcode mk p where f: "f = (fin, opcode, mk, p)"
    by (cases f)
  have ok: "frame_ok c fin opcode mk p"
    using Cons.prems(4) f by simp
  have rd: "read_frame c (inp st) = Inr ((fin, opcode, p), enc_frames fs @ rest)"
    using read_enc_frame [OF ok] Cons.prems(1) f by simp
  have le: "length (out @ p) \<le> maxb c" if "opcode < 3"
    using Cons.prems(5) f that by simp
  have small: "(0 :: byte) < 3" "(1 :: byte) < 3" "(2 :: byte) < 3" "\<not> (9 :: byte) < 3" "\<not> (10 :: byte) < 3"
    by simp_all
  have pong: "write_frame c s 0xA p = (Inr (), s\<lparr>outp := outp s @ enc_frame True 0xA None p\<rparr>)"
    if "opcode = 0x9" "wbudget s = None" for s
    using ok that assms(1) by (auto simp: write_frame_def conn_write_def frame_ok_def enc_frame_def)
  show ?case
    using Cons.prems f rd le small pong Cons.IH
    by (subst read_message_loop.simps) (auto simp: Let_def split: if_splits)
qed simp

text \<open>A successful write has sent exactly one complete frame, whatever the network accepts.\<close>

lemma write_frame_Inr:
  assumes "write_frame c st opcode payload = (Inr u, st')"
    and "\<forall>k m. rsrc st k = Some m \<longrightarrow> length m = 4"
  obtains mk where "outp st' = outp st @ enc_frame True opcode mk payload"
    and "(mk = None) = (role c = Server)" and "\<And>m. mk = Some m \<Longrightarrow> length m = 4"
    and "\<not> (opcode \<ge> 8 \<and> length payload > 125)"
proof (cases "role c")
  case Server
  with assms that [of None] show ?thesis
    by (auto simp: write_frame_def conn_write_def Let_def enc_frame_def split: option.splits if_splits)
next
  case Client
  with assms obtain m where "rsrc st (rpos st) = Some m" "length m = 4"
    by (cases "rsrc st (rpos st)") (auto simp: write_frame_def split: if_splits)
  with assms(1) Client that [of "Some m"] show ?thesis
    by (auto simp: write_frame_def conn_write_def Let_def enc_frame_def split: option.splits if_splits)
qed

lemma data_opcode [simp]: "\<not> (8 :: byte) \<le> 1" "\<not> (8 :: byte) \<le> 0"
  by (simp_all add: word_le_nat_alt)

lemma write_closed:
  assumes "wbudget st = Some 0"
  shows "fst (write_frame c st opcode p) \<noteq> Inr ()"
  using assms by (auto simp: write_frame_def conn_write_def Let_def split: option.splits)

text \<open>
  What one peer sends, the other receives: when \<^verbatim>\<open>WriteMessage\<close> succeeds, the bytes it
  put on the wire are read back by \<^verbatim>\<open>ReadMessage\<close> of a peer of the opposite role (with a
  limit that admits the message) as exactly the message, and the bytes behind it are left alone.
  Holds in both directions, for all three length forms, masked or not.
\<close>

lemma message_roundtrip:
  assumes "write_message c st msg = (Inr u, st')"
    and "\<forall>k m. rsrc st k = Some m \<longrightarrow> length m = 4"
    and "role d \<noteq> role c" and "length msg \<le> maxb d" and "maxb c < 2 ^ 63"
  shows "\<exists>wire. outp st' = outp st @ wire \<and>
    (\<forall>sd rest. inp sd = wire @ rest \<longrightarrow> read_message d sd = (Inr msg, sd\<lparr>inp := rest\<rparr>))"
proof -
  from assms(1) have w: "write_frame c st 0x1 msg = (Inr u, st')" and l: "length msg \<le> maxb c"
    by (simp_all add: write_message_def split: if_splits)
  obtain mk where o: "outp st' = outp st @ enc_frame True 0x1 mk msg"
    and mk: "(mk = None) = (role c = Server)" "\<And>m. mk = Some m \<Longrightarrow> length m = 4"
    using write_frame_Inr [OF w assms(2)] by metis
  have "frame_ok d True 0x1 mk msg"
    using mk assms(3-5) l by (cases mk; cases "role c"; cases "role d") (auto simp: frame_ok_def)
  then have "read_message d sd = (Inr msg, sd\<lparr>inp := rest\<rparr>)"
    if "inp sd = enc_frame True 0x1 mk msg @ rest" for sd rest
    using that assms(4) by (simp add: read_message_def read_message_loop.simps read_enc_frame Let_def)
  with o show ?thesis by blast
qed

section \<open>Properties\<close>

definition demo_sender :: ws_state where
  "demo_sender = \<lparr>inp = [], outp = [7], wbudget = Some 200, rsrc = (\<lambda>k. Some [1, 2, 3, 4]), rpos = 0\<rparr>"

text \<open>
  C20. \<^verbatim>\<open>readFrame\<close> is strict: it accepts an input exactly when the input starts with the
  canonical encoding (no reserved bits, shortest length form, a mask if and only if the reader is
  the server) of a frame that the limits allow (an unfragmented control frame of at most 125
  bytes, a payload of at most the configured maximum), and then it returns that frame and the rest.
\<close>

theorem read_frame_accepts_iff:
  "read_frame c bs = Inr ((fin, opcode, payload), rest) \<longleftrightarrow>
   (\<exists>mk. frame_ok c fin opcode mk payload \<and> bs = enc_frame fin opcode mk payload @ rest)"
  using read_frame_canonical read_enc_frame by metis

text \<open>
  C21. A server reassembles a fragmented message: from the frames of one message, with pings and
  pongs interleaved anywhere, \<^verbatim>\<open>ReadMessage\<close> returns the concatenated payloads of the data
  frames, answers every ping with a pong of the same payload in order, and stops behind the last
  frame.
\<close>

theorem read_message_reassembles:
  assumes "role c = Server" and "inp st = enc_frames fs @ rest" and "wbudget st = None"
    and "message_frames False fs"
    and "\<forall>(fin, opcode, mk, p) \<in> set fs. frame_ok c fin opcode mk p"
    and "length (frames_data fs) \<le> maxb c"
  shows "read_message c st =
    (Inr (frames_data fs),
     st\<lparr>inp := rest, outp := outp st @ concat (map (enc_frame True 0xA None) (frames_pings fs))\<rparr>)"
  using read_message_frames [of c st fs rest False "[]"] assms by (simp add: read_message_def)

definition demo_fragments :: "(bool \<times> byte \<times> bytes option \<times> bytes) list" where
  "demo_fragments =
     [(False, 1, Some [1, 2, 3, 4], [10, 20]), (True, 9, Some [5, 6, 7, 8], [42]),
      (True, 0, Some [9, 9, 9, 9], [30])]"

theorem read_message_reassembles_witness:
  "read_message \<lparr>role = Server, maxb = 8\<rparr>
     (demo_sender\<lparr>inp := enc_frames demo_fragments @ [5], wbudget := None\<rparr>) =
   (Inr [10, 20, 30], demo_sender\<lparr>inp := [5], wbudget := None, outp := [7, 0x8A, 1, 42]\<rparr>)"
  by (subst read_message_reassembles [where fs = demo_fragments and rest = "[5]"])
    (simp_all add: demo_fragments_def demo_sender_def frame_ok_def enc_frame_def length_header_def)

text \<open>
  \<^verbatim>\<open>ReadMessage\<close> always returns, and never a message longer than the configured maximum,
  however the peer fragments it; once \<^verbatim>\<open>Close\<close> has
  run, reading and writing on the connection fail.
\<close>

theorem read_message_limit:
  "(case fst (read_message c st) of Inl e \<Rightarrow> True | Inr msg \<Rightarrow> length msg \<le> maxb c) \<and>
   fst (read_message c (ws_close c st)) = Inl WsEOF \<and>
   fst (write_message c (ws_close c st) out) \<noteq> Inr ()"
proof (intro conjI)
  show "case fst (read_message c st) of Inl e \<Rightarrow> True | Inr msg \<Rightarrow> length msg \<le> maxb c"
    using read_message_bounded [of c st False "[]"] by (auto simp: read_message_def split: sum.split)
  show "fst (read_message c (ws_close c st)) = Inl WsEOF"
    by (simp add: read_message_def read_message_loop.simps read_frame_def ws_close_def)
  show "fst (write_message c (ws_close c st) out) \<noteq> Inr ()"
    using write_closed [of "ws_close c st" c "0x1" out] by (simp add: write_message_def ws_close_def)
qed

end
