(* ===== verification/Handshake.thy ===== *)
theory Handshake
  imports Ws Base64
begin

text \<open>
  The opening handshake (\<^verbatim>\<open>Upgrade\<close> and \<^verbatim>\<open>Dial\<close> of \<^verbatim>\<open>internal/ws/ws.go\<close>).
  SHA-1 is an argument (\<open>sha1\<close>), as are the parsed URL, the test whether a host name is a
  loopback IP address (\<^verbatim>\<open>net.ParseIP\<close>), the outcome of the network operations, and what the
  server answers to the bytes of the request. The headers of the two messages are read with
  \<open>header_get\<close>, which does on the messages written here what the HTTP library does.
\<close>

section \<open>Definitions\<close>

definition magic_guid :: string where
  "magic_guid = ''258EAFA5-E914-47DA-95CA-C5AB0DC85B11''"

definition token_contains :: "string \<Rightarrow> string \<Rightarrow> bool" where
  "token_contains header token =
     list_ex (\<lambda>p. equal_fold (trim_space p) token) (split_on CHR '','' header)"

definition is_loopback_host :: "(string \<Rightarrow> bool) \<Rightarrow> string \<Rightarrow> bool" where
  "is_loopback_host ip_loopback h = (equal_fold h ''localhost'' \<or> ip_loopback h)"

datatype hserr = HsProtocol string | HsMsg string | HsNet

record http_request =
  req_method :: string
  req_header :: "string \<Rightarrow> string"

record http_response =
  status_code :: nat
  resp_header :: "string \<Rightarrow> string"

text \<open>What the server's connection does when the handler takes it over and answers.\<close>

datatype hijack = NoHijacker | HijackFails | WriteFails | Hijacked

definition effective_max :: "int \<Rightarrow> nat" where
  "effective_max m = (if m \<le> 0 then 4194304 else nat m)"

definition accept_key :: "(bytes \<Rightarrow> bytes) \<Rightarrow> string \<Rightarrow> string" where
  "accept_key sha1 key = b64_encode (sha1 (bytes_of_string (key @ magic_guid)))"

abbreviation crlf :: string where
  "crlf \<equiv> [CHR 0x0D, CHR 0x0A]"

definition switching_response :: "string \<Rightarrow> string" where
  "switching_response accept =
     ''HTTP/1.1 101 Switching Protocols'' @ crlf @ ''Upgrade: websocket'' @ crlf @
     ''Connection: Upgrade'' @ crlf @ ''Sec-WebSocket-Accept: '' @ accept @ crlf @ crlf"

definition upgrade ::
  "(bytes \<Rightarrow> bytes) \<Rightarrow> hijack \<Rightarrow> http_request \<Rightarrow> int \<Rightarrow> hserr + (string \<times> ws_conn)" where
  "upgrade sha1 hj r maxMessageBytes =
     (if req_method r \<noteq> ''GET'' \<or> \<not> token_contains (req_header r ''Connection'') ''upgrade''
         \<or> \<not> equal_fold (trim_space (req_header r ''Upgrade'')) ''websocket''
      then Inl (HsProtocol ''invalid upgrade headers'')
      else if req_header r ''Sec-WebSocket-Version'' \<noteq> ''13''
      then Inl (HsProtocol ''unsupported version'')
      else
        (let key = trim_space (req_header r ''Sec-WebSocket-Key'')
         in case b64_decode key of
              None \<Rightarrow> Inl (HsProtocol ''invalid key'')
            | Some decoded \<Rightarrow>
              if length decoded \<noteq> 16 then Inl (HsProtocol ''invalid key'')
              else (case hj of
                      NoHijacker \<Rightarrow> Inl (HsMsg ''http server does not support hijacking'')
                    | HijackFails \<Rightarrow> Inl HsNet
                    | WriteFails \<Rightarrow> Inl HsNet
                    | Hijacked \<Rightarrow>
                      Inr (switching_response (accept_key sha1 key),
                           \<lparr>role = Server, maxb = effective_max maxMessageBytes\<rparr>))))"

text \<open>The parts of a parsed URL that \<^verbatim>\<open>Dial\<close> uses.\<close>

record url =
  scheme :: string
  url_host :: string
  url_hostname :: string
  escaped_path :: string
  raw_query :: string

text \<open>The outcome of the operations on the network, in the order in which they happen.\<close>

record network =
  tcp_dial :: "string \<Rightarrow> bool"
  tls_handshake :: bool
  nonce_source :: "bytes option"
  flush_ok :: bool
  respond :: "string \<Rightarrow> http_response option"

definition host_port :: "url \<Rightarrow> string" where
  "host_port u =
     (if CHR '':'' \<in> set (url_host u) then url_host u
      else if scheme u = ''wss'' then url_host u @ '':443'' else url_host u @ '':80'')"

definition request_path :: "url \<Rightarrow> string" where
  "request_path u =
     (let p = (if escaped_path u = [] then ''/'' else escaped_path u)
      in if raw_query u \<noteq> [] then p @ ''?'' @ raw_query u else p)"

definition dial_request :: "url \<Rightarrow> string \<Rightarrow> string \<Rightarrow> string" where
  "dial_request u key bearer =
     ''GET '' @ request_path u @ '' HTTP/1.1'' @ crlf @ ''Host: '' @ url_host u @ crlf @
     ''Upgrade: websocket'' @ crlf @ ''Connection: Upgrade'' @ crlf @
     ''Sec-WebSocket-Version: 13'' @ crlf @ ''Sec-WebSocket-Key: '' @ key @ crlf @
     (if bearer \<noteq> [] then ''Authorization: Bearer '' @ bearer @ crlf else []) @ crlf"

definition check_response :: "(bytes \<Rightarrow> bytes) \<Rightarrow> string \<Rightarrow> http_response \<Rightarrow> int \<Rightarrow> hserr + ws_conn" where
  "check_response sha1 key resp maxMessageBytes =
     (if status_code resp \<noteq> 101 \<or> \<not> token_contains (resp_header resp ''Connection'') ''upgrade''
         \<or> \<not> equal_fold (resp_header resp ''Upgrade'') ''websocket''
      then Inl (HsMsg ''websocket upgrade rejected'')
      else if resp_header resp ''Sec-WebSocket-Accept'' \<noteq> accept_key sha1 key
      then Inl (HsProtocol ''bad accept key'')
      else Inr \<lparr>role = Client, maxb = effective_max maxMessageBytes\<rparr>)"

definition dial ::
  "(bytes \<Rightarrow> bytes) \<Rightarrow> (string \<Rightarrow> bool) \<Rightarrow> network \<Rightarrow> url option \<Rightarrow> string \<Rightarrow> int \<Rightarrow> hserr + ws_conn" where
  "dial sha1 ip_loopback net parsed bearer maxMessageBytes =
     (case parsed of
        None \<Rightarrow> Inl (HsMsg ''parse'')
      | Some u \<Rightarrow>
        if scheme u \<noteq> ''wss'' \<and> (scheme u \<noteq> ''ws'' \<or> \<not> is_loopback_host ip_loopback (url_hostname u))
        then Inl (HsMsg ''websocket URL must use wss (ws is allowed only for loopback)'')
        else if \<not> tcp_dial net (host_port u) then Inl HsNet
        else if scheme u = ''wss'' \<and> \<not> tls_handshake net then Inl HsNet
        else (case nonce_source net of
                None \<Rightarrow> Inl HsNet
              | Some nonce \<Rightarrow>
                (let key = b64_encode nonce
                 in if bearer \<noteq> [] \<and> (CHR 0x0D \<in> set bearer \<or> CHR 0x0A \<in> set bearer)
                    then Inl (HsMsg ''invalid bearer token'')
                    else if \<not> flush_ok net then Inl HsNet
                    else (case respond net (dial_request u key bearer) of
                            None \<Rightarrow> Inl HsNet
                          | Some resp \<Rightarrow> check_response sha1 key resp maxMessageBytes))))"

text \<open>
  The lines of a message and its headers: the value of a header is the rest of the first line that
  starts with its name.
\<close>

definition chomp :: "string \<Rightarrow> string" where
  "chomp l = (if l \<noteq> [] \<and> last l = CHR 0x0D then butlast l else l)"

definition http_lines :: "string \<Rightarrow> string list" where
  "http_lines msg = map chomp (split_on CHR 0x0A msg)"

definition header_get :: "string list \<Rightarrow> string \<Rightarrow> string" where
  "header_get ls name =
     (case find (prefix (name @ '': '')) ls of
        None \<Rightarrow> [] | Some l \<Rightarrow> drop (length name + 2) l)"

definition parse_request :: "string \<Rightarrow> http_request" where
  "parse_request msg =
     \<lparr>req_method = takeWhile (\<lambda>c. c \<noteq> CHR '' '') (hd (http_lines msg)),
      req_header = header_get (tl (http_lines msg))\<rparr>"

definition parse_response :: "string \<Rightarrow> http_response" where
  "parse_response msg =
     \<lparr>status_code = (if prefix ''HTTP/1.1 101 '' msg then 101 else 0),
      resp_header = header_get (tl (http_lines msg))\<rparr>"

section \<open>Lemmas\<close>

definition http_message :: "string list \<Rightarrow> string" where
  "http_message ls = concat (map (\<lambda>l. l @ crlf) ls)"

lemma http_lines_line:
  "CHR 0x0A \<notin> set l \<Longrightarrow> http_lines (l @ crlf @ r) = l # http_lines r"
  using split_on_append [of "CHR 0x0A" "l @ [CHR 0x0D]" r] by (simp add: http_lines_def chomp_def)

lemma http_lines_message:
  "\<forall>l\<in>set ls. CHR 0x0A \<notin> set l \<Longrightarrow> http_lines (http_message ls) = ls @ [[]]"
proof (induction ls)
  case (Cons l ls)
  then show ?case
    using http_lines_line [of l "http_message ls"] by (simp add: http_message_def)
qed (simp add: http_message_def http_lines_def chomp_def)

lemma b64_visible: "c \<in> set (b64_encode bs) \<Longrightarrow> visible c"
proof -
  have "list_all visible (CHR ''='' # std_alphabet)" by code_simp
  then show "c \<in> set (b64_encode bs) \<Longrightarrow> visible c"
    using b64_chars [of bs] by (auto simp: list_all_iff)
qed

lemma b64_no_newline [simp]: "CHR 0x0A \<notin> set (b64_encode bs)"
  using b64_visible [of "CHR 0x0A" bs] by (auto simp: visible_def space_runes_def)

lemma trim_b64 [simp]: "trim_space (b64_encode bs) = b64_encode bs"
proof (cases "b64_encode bs = []")
  case True
  then show ?thesis by (simp add: trim_space_def trim_left_space_def trim_right_space_def trim_front.simps)
next
  case False
  then show ?thesis by (intro trim_space_id b64_visible [of _ bs]) simp_all
qed

lemma fixed_headers:
  "token_contains ''Upgrade'' ''upgrade''" "equal_fold (trim_space ''websocket'') ''websocket''"
  "equal_fold ''websocket'' ''websocket''"
  by code_simp+

text \<open>The headers of the request of \<^verbatim>\<open>Dial\<close> and of the answer of \<^verbatim>\<open>Upgrade\<close>, as the peer reads them.\<close>

lemma request_lines:
  assumes "CHR 0x0A \<notin> set (request_path u)" and "CHR 0x0A \<notin> set (url_host u)"
    and "CHR 0x0A \<notin> set key" and "CHR 0x0A \<notin> set bearer"
  shows "http_lines (dial_request u key bearer) =
    ((''GET '' @ request_path u @ '' HTTP/1.1'') # (''Host: '' @ url_host u) # ''Upgrade: websocket'' #
    ''Connection: Upgrade'' # ''Sec-WebSocket-Version: 13'' # (''Sec-WebSocket-Key: '' @ key) #
    (if bearer \<noteq> [] then [''Authorization: Bearer '' @ bearer] else [])) @ [[], []]"
    (is "_ = ?ls @ [[], []]")
proof -
  have "dial_request u key bearer = http_message (?ls @ [[]])"
    by (simp add: dial_request_def http_message_def)
  moreover have "http_lines (http_message (?ls @ [[]])) = (?ls @ [[]]) @ [[]]"
    using assms by (intro http_lines_message) auto
  ultimately show ?thesis by simp
qed

lemma response_lines:
  assumes "CHR 0x0A \<notin> set accept"
  shows "http_lines (switching_response accept) =
    [''HTTP/1.1 101 Switching Protocols'', ''Upgrade: websocket'', ''Connection: Upgrade'',
     ''Sec-WebSocket-Accept: '' @ accept] @ [[], []]"  (is "_ = ?ls @ [[], []]")
proof -
  have "switching_response accept = http_message (?ls @ [[]])"
    by (simp add: switching_response_def http_message_def)
  moreover have "http_lines (http_message (?ls @ [[]])) = (?ls @ [[]]) @ [[]]"
    using assms by (intro http_lines_message) auto
  ultimately show ?thesis by simp
qed

lemma parse_dial_request:
  assumes "CHR 0x0A \<notin> set (request_path u)" and "CHR 0x0A \<notin> set (url_host u)"
    and "CHR 0x0A \<notin> set key" and "CHR 0x0A \<notin> set bearer"
  defines "r \<equiv> parse_request (dial_request u key bearer)"
  shows "req_method r = ''GET''" "req_header r ''Connection'' = ''Upgrade''"
    "req_header r ''Upgrade'' = ''websocket''" "req_header r ''Sec-WebSocket-Version'' = ''13''"
    "req_header r ''Sec-WebSocket-Key'' = key"
    "req_header r ''Authorization'' = (if bearer = [] then [] else ''Bearer '' @ bearer)"
  unfolding r_def using request_lines [OF assms(1-4)]
  by (simp_all add: parse_request_def header_get_def)

lemma parse_switching_response:
  assumes "CHR 0x0A \<notin> set accept"
  defines "r \<equiv> parse_response (switching_response accept)"
  shows "status_code r = 101" "resp_header r ''Connection'' = ''Upgrade''"
    "resp_header r ''Upgrade'' = ''websocket''" "resp_header r ''Sec-WebSocket-Accept'' = accept"
  unfolding r_def using response_lines [OF assms(1)]
  by (simp_all add: parse_response_def header_get_def switching_response_def)

text \<open>When no operation of the network fails, what decides is the answer.\<close>

lemma dial_network:
  assumes "scheme u = ''wss'' \<or> scheme u = ''ws'' \<and> is_loopback_host ip (url_hostname u)"
    and "tcp_dial net (host_port u)" and "tls_handshake net" and "flush_ok net"
    and "nonce_source net = Some nonce" and "CHR 0x0A \<notin> set bearer" and "CHR 0x0D \<notin> set bearer"
    and "respond net (dial_request u (b64_encode nonce) bearer) = Some resp"
  shows "dial sha1 ip net (Some u) bearer n = check_response sha1 (b64_encode nonce) resp n"
  using assms unfolding dial_def by (elim disjE) (simp_all add: Let_def)

lemma check_switching_response:
  "check_response sha1 key (parse_response (switching_response (accept_key sha1 key))) n =
   Inr \<lparr>role = Client, maxb = effective_max n\<rparr>"
  using parse_switching_response [of "accept_key sha1 key"]
  by (simp add: check_response_def fixed_headers) (simp add: accept_key_def fixed_headers)

lemma upgrade_dial_request:
  assumes "CHR 0x0A \<notin> set (request_path u)" and "CHR 0x0A \<notin> set (url_host u)"
    and "length nonce = 16" and "CHR 0x0A \<notin> set bearer"
  shows "upgrade sha1 Hijacked (parse_request (dial_request u (b64_encode nonce) bearer)) m =
      Inr (switching_response (accept_key sha1 (b64_encode nonce)), \<lparr>role = Server, maxb = effective_max m\<rparr>)"
  using assms(3)
  by (simp add: upgrade_def parse_dial_request [OF assms(1,2) b64_no_newline assms(4)] fixed_headers Let_def)

section \<open>Properties\<close>


definition demo_url :: url where
  "demo_url = \<lparr>scheme = ''ws'', url_host = ''localhost:8080'', url_hostname = ''localhost'',
     escaped_path = ''/relay'', raw_query = []\<rparr>"

definition demo_network :: network where
  "demo_network = \<lparr>tcp_dial = (\<lambda>hp. hp = ''localhost:8080''), tls_handshake = True,
     nonce_source = Some (replicate 16 7), flush_ok = True,
     respond = (\<lambda>msg. case upgrade (take 20) Hijacked (parse_request msg) 0 of
       Inl e \<Rightarrow> None | Inr (text, conn) \<Rightarrow> Some (parse_response text))\<rparr>"


text \<open>
  C23. \<^verbatim>\<open>Dial\<close> returns a connection only over TLS or to a loopback host, only after the server
  has proved knowledge of this connection's nonce by the accept key, and never after having been
  given a bearer token with a line break (which could inject headers); in all other cases it
  returns an error.
\<close>

theorem dial_secure:
  assumes "dial sha1 ip net parsed bearer n = Inr c"
  shows "\<exists>u nonce resp. parsed = Some u \<and> nonce_source net = Some nonce \<and>
    (scheme u = ''wss'' \<and> tls_handshake net \<or> scheme u = ''ws'' \<and> is_loopback_host ip (url_hostname u)) \<and>
    CHR 0x0A \<notin> set bearer \<and> CHR 0x0D \<notin> set bearer \<and>
    respond net (dial_request u (b64_encode nonce) bearer) = Some resp \<and> status_code resp = 101 \<and>
    resp_header resp ''Sec-WebSocket-Accept'' = accept_key sha1 (b64_encode nonce) \<and>
    c = \<lparr>role = Client, maxb = effective_max n\<rparr>"
  using assms
  by (auto simp: dial_def check_response_def Let_def split: option.splits if_splits)

theorem dial_secure_witness:
  "\<exists>u nonce resp. Some demo_url = Some u \<and> nonce_source demo_network = Some nonce \<and>
    respond demo_network (dial_request u (b64_encode nonce) ''secret'') = Some resp \<and> status_code resp = 101"
proof -
  have lo: "is_loopback_host (\<lambda>h. False) (url_hostname demo_url)" by code_simp
  have "respond demo_network (dial_request demo_url (b64_encode (replicate 16 7)) ''secret'') =
      Some (parse_response (switching_response (accept_key (take 20) (b64_encode (replicate 16 7)))))"
    by (simp add: demo_network_def upgrade_dial_request demo_url_def request_path_def)
  then have "dial (take 20) (\<lambda>h. False) demo_network (Some demo_url) ''secret'' 100 =
      check_response (take 20) (b64_encode (replicate 16 7))
        (parse_response (switching_response (accept_key (take 20) (b64_encode (replicate 16 7))))) 100"
    using lo by (intro dial_network) (simp_all add: demo_network_def demo_url_def host_port_def)
  then have "dial (take 20) (\<lambda>h. False) demo_network (Some demo_url) ''secret'' 100 = Inr \<lparr>role = Client, maxb = effective_max 100\<rparr>"
    by (simp only: check_switching_response)
  from dial_secure [OF this] show ?thesis by blast
qed

end
