(* ===== verification/Protocol.thy ===== *)
theory Protocol
  imports Prelude
begin

text \<open>
  The frames exchanged between the relay and an agent (\<^verbatim>\<open>internal/protocol/frame.go\<close>). A
  \<^verbatim>\<open>json.RawMessage\<close> is its text.
\<close>

record remote_error =
  err_code :: string
  err_message :: string

record frame =
  f_type :: string
  f_id :: string
  f_tool :: string
  f_args :: string
  f_ok :: bool
  f_result :: string
  f_error :: "remote_error option"

definition TypeCall :: string where "TypeCall = ''call''"
definition TypeResult :: string where "TypeResult = ''result''"
definition TypePing :: string where "TypePing = ''ping''"
definition TypePong :: string where "TypePong = ''pong''"

definition max_frame_bytes :: int where
  "max_frame_bytes = 16777216"

definition empty_frame :: "string \<Rightarrow> frame" where
  "empty_frame t = \<lparr>f_type = t, f_id = [], f_tool = [], f_args = [], f_ok = False, f_result = [], f_error = None\<rparr>"

definition validate :: "frame \<Rightarrow> goerror + unit" where
  "validate f =
     (if f_type f = TypeCall then
        (if f_id f = [] \<or> f_tool f = [] then Inl (ErrMsg ''call frame requires id and tool'')
         else if f_args f = [] then Inl (ErrMsg ''call frame requires args'')
         else Inr ())
      else if f_type f = TypeResult then
        (if f_id f = [] then Inl (ErrMsg ''result frame requires id'')
         else if \<not> f_ok f \<and> f_error f = None then Inl (ErrMsg ''failed result requires error'')
         else Inr ())
      else if f_type f = TypePing \<or> f_type f = TypePong then Inr ()
      else Inl (ErrMsg (''unknown frame type '' @ f_type f)))"

lemmas frame_types = TypeCall_def TypeResult_def TypePing_def TypePong_def

lemma frame_types_distinct [simp]:
  "TypeCall \<noteq> TypeResult" "TypeResult \<noteq> TypeCall" "TypePing \<noteq> TypeCall" "TypePing \<noteq> TypeResult"
  "TypePong \<noteq> TypeCall" "TypePong \<noteq> TypeResult" "TypePing \<noteq> TypePong" "TypePong \<noteq> TypePing"
  "TypeCall \<noteq> TypePing" "TypeCall \<noteq> TypePong" "TypeResult \<noteq> TypePing" "TypeResult \<noteq> TypePong"
  by (simp_all add: frame_types)

lemma validate_result_iff:
  "f_type f = TypeResult \<Longrightarrow> validate f = Inr () \<longleftrightarrow> f_id f \<noteq> [] \<and> (f_ok f \<or> f_error f \<noteq> None)"
  by (simp add: validate_def)

lemma validate_call_iff:
  "f_type f = TypeCall \<Longrightarrow> validate f = Inr () \<longleftrightarrow> f_id f \<noteq> [] \<and> f_tool f \<noteq> [] \<and> f_args f \<noteq> []"
  by (simp add: validate_def)

end
