(* ===== verification/Relay.thy ===== *)
theory Relay
  imports Protocol Store Ws
begin

text \<open>
  The relay hub (\<^verbatim>\<open>internal/relay/hub.go\<close>). Connections and calls are objects of two heaps;
  the hub maps a device id to its current connection. Every critical section, channel operation
  and arm of a \<^verbatim>\<open>select\<close> is one operation, and \<open>hub_step\<close> interleaves them freely. A
  connection runs through the phases of its \<^verbatim>\<open>close\<close> (\<^verbatim>\<open>done\<close> closed, removed from the
  hub, pending calls answered), and a call through the statements of \<^verbatim>\<open>Call\<close>, its deferred
  functions included. \<open>c_out\<close> and \<open>c_in\<close> are the frames written to and read from the
  connection. The random id and the success of marshalling and writing are arguments.
\<close>

section \<open>Definitions\<close>

datatype relayerr = Offline | Closed | CtxErr | RandErr | MarshalErr | WriteErr wserr

text \<open>\<^verbatim>\<open>Result\<close> and \<^verbatim>\<open>pendingResult\<close>.\<close>

record result =
  r_value :: string
  r_error :: "remote_error option"

type_synonym outcome = "relayerr + result"

datatype cphase = Open | DoneClosed | Unlinked | Flushed

record conn =
  c_device :: device
  c_phase :: cphase
  c_err :: relayerr
  c_sem :: nat
  c_pending :: "string \<Rightarrow> nat option"
  c_in :: "frame list"
  c_out :: "frame list"

datatype kphase =
    KAcquire
  | KPrepare
  | KSend
  | KWait
  | KUnregister outcome
  | KRelease outcome
  | KReturned outcome

record call =
  k_conn :: nat
  k_owner :: string
  k_tool :: string
  k_args :: string
  k_id :: string
  k_phase :: kphase
  k_chan :: "outcome option"

record hub =
  hub_devices :: "string \<Rightarrow> nat option"
  hub_conns :: "conn list"
  hub_calls :: "call list"
  max_in_flight :: nat

definition new_hub :: "int \<Rightarrow> hub" where
  "new_hub maxInFlight =
     \<lparr>hub_devices = Map.empty, hub_conns = [], hub_calls = [],
      max_in_flight = (if maxInFlight < 1 then 16 else nat maxInFlight)\<rparr>"

definition upd_conn :: "nat \<Rightarrow> (conn \<Rightarrow> conn) \<Rightarrow> hub \<Rightarrow> hub" where
  "upd_conn c f h = h\<lparr>hub_conns := (hub_conns h)[c := f (hub_conns h ! c)]\<rparr>"

definition upd_call :: "nat \<Rightarrow> (call \<Rightarrow> call) \<Rightarrow> hub \<Rightarrow> hub" where
  "upd_call k f h = h\<lparr>hub_calls := (hub_calls h)[k := f (hub_calls h ! k)]\<rparr>"

text \<open>
  \<^verbatim>\<open>close\<close>: the body runs once. Its first part closes the channel \<^verbatim>\<open>done\<close>, the second
  removes the connection from the hub if it is still the current one, the third answers the
  pending calls with the error (unless their channel is full already) and forgets them.
\<close>

definition close_done :: "relayerr \<Rightarrow> conn \<Rightarrow> conn" where
  "close_done e d = (if c_phase d = Open then d\<lparr>c_phase := DoneClosed, c_err := e\<rparr> else d)"

definition close_unlink :: "nat \<Rightarrow> hub \<Rightarrow> hub" where
  "close_unlink c h =
     (let did = dev_id (c_device (hub_conns h ! c))
      in (upd_conn c (\<lambda>d. d\<lparr>c_phase := Unlinked\<rparr>) h)
           \<lparr>hub_devices := (if hub_devices h did = Some c then (hub_devices h)(did := None) else hub_devices h)\<rparr>)"

definition offer :: "outcome \<Rightarrow> call \<Rightarrow> call" where
  "offer r k = (case k_chan k of None \<Rightarrow> k\<lparr>k_chan := Some r\<rparr> | Some _ \<Rightarrow> k)"

definition close_flush :: "nat \<Rightarrow> hub \<Rightarrow> hub" where
  "close_flush c h =
     (let d = hub_conns h ! c
      in (upd_conn c (\<lambda>d. d\<lparr>c_phase := Flushed, c_pending := Map.empty\<rparr>) h)
           \<lparr>hub_calls := map2 (\<lambda>i k. if k_conn k = c \<and> c_pending d (k_id k) = Some i
                                 then offer (Inl (c_err d)) k else k)
                           [0..<length (hub_calls h)] (hub_calls h)\<rparr>)"

definition register :: "device \<Rightarrow> hub \<Rightarrow> hub" where
  "register dev h =
     (let d = \<lparr>c_device = dev, c_phase = Open, c_err = Closed, c_sem = 0, c_pending = Map.empty,
               c_in = [], c_out = []\<rparr>;
          h1 = h\<lparr>hub_devices := (hub_devices h)(dev_id dev \<mapsto> length (hub_conns h)),
                 hub_conns := hub_conns h @ [d]\<rparr>
      in case hub_devices h (dev_id dev) of
           None \<Rightarrow> h1
         | Some old \<Rightarrow> upd_conn old (close_done Closed) h1)"

definition is_online :: "hub \<Rightarrow> string \<Rightarrow> string \<Rightarrow> bool" where
  "is_online h owner did =
     (case hub_devices h did of None \<Rightarrow> False
      | Some c \<Rightarrow> owner_subject (c_device (hub_conns h ! c)) = owner)"

definition disconnect :: "string \<Rightarrow> hub \<Rightarrow> hub" where
  "disconnect did h =
     (case hub_devices h did of None \<Rightarrow> h | Some c \<Rightarrow> upd_conn c (close_done Closed) h)"

text \<open>\<^verbatim>\<open>Call\<close>, statement by statement.\<close>

definition call_enter :: "string \<Rightarrow> string \<Rightarrow> string \<Rightarrow> string \<Rightarrow> hub \<Rightarrow> (relayerr + nat) \<times> hub" where
  "call_enter owner did tool args h =
     (case hub_devices h did of
        None \<Rightarrow> (Inl Offline, h)
      | Some c \<Rightarrow>
        if owner_subject (c_device (hub_conns h ! c)) \<noteq> owner then (Inl Offline, h)
        else (Inr (length (hub_calls h)),
              h\<lparr>hub_calls := hub_calls h @ [\<lparr>k_conn = c, k_owner = owner, k_tool = tool, k_args = args,
                 k_id = [], k_phase = KAcquire, k_chan = None\<rparr>]\<rparr>))"

definition goto :: "kphase \<Rightarrow> call \<Rightarrow> call" where
  "goto p k = k\<lparr>k_phase := p\<rparr>"

definition call_acquire :: "nat \<Rightarrow> hub \<Rightarrow> hub" where
  "call_acquire k h =
     upd_call k (goto KPrepare) (upd_conn (k_conn (hub_calls h ! k)) (\<lambda>d. d\<lparr>c_sem := c_sem d + 1\<rparr>) h)"

definition call_register :: "string \<Rightarrow> nat \<Rightarrow> hub \<Rightarrow> hub" where
  "call_register rid k h =
     (let c = k_conn (hub_calls h ! k)
      in if c_phase (hub_conns h ! c) \<noteq> Open then upd_call k (goto (KRelease (Inl Offline))) h
         else upd_call k (\<lambda>x. x\<lparr>k_id := rid, k_phase := KSend, k_chan := None\<rparr>)
                (upd_conn c (\<lambda>d. d\<lparr>c_pending := (c_pending d)(rid \<mapsto> k)\<rparr>) h))"

definition call_frame :: "call \<Rightarrow> frame" where
  "call_frame k = (empty_frame TypeCall)\<lparr>f_id := k_id k, f_tool := k_tool k, f_args := k_args k\<rparr>"

definition call_send :: "nat \<Rightarrow> hub \<Rightarrow> hub" where
  "call_send k h =
     upd_call k (goto KWait)
       (upd_conn (k_conn (hub_calls h ! k)) (\<lambda>d. d\<lparr>c_out := c_out d @ [call_frame (hub_calls h ! k)]\<rparr>) h)"

definition call_send_fails :: "wserr \<Rightarrow> nat \<Rightarrow> hub \<Rightarrow> hub" where
  "call_send_fails e k h =
     upd_call k (goto (KUnregister (Inl Offline)))
       (upd_conn (k_conn (hub_calls h ! k)) (close_done (WriteErr e)) h)"

definition call_unregister :: "nat \<Rightarrow> outcome \<Rightarrow> hub \<Rightarrow> hub" where
  "call_unregister k r h =
     upd_call k (goto (KRelease r))
       (upd_conn (k_conn (hub_calls h ! k)) (\<lambda>d. d\<lparr>c_pending := (c_pending d)(k_id (hub_calls h ! k) := None)\<rparr>) h)"

definition call_release :: "nat \<Rightarrow> outcome \<Rightarrow> hub \<Rightarrow> hub" where
  "call_release k r h =
     upd_call k (goto (KReturned r))
       (upd_conn (k_conn (hub_calls h ! k)) (\<lambda>d. d\<lparr>c_sem := c_sem d - 1\<rparr>) h)"

text \<open>One turn of \<^verbatim>\<open>readLoop\<close>: a frame that is not valid ends the connection.\<close>

definition receive :: "nat \<Rightarrow> frame \<Rightarrow> hub \<Rightarrow> hub" where
  "receive c f h0 =
     (let h = upd_conn c (\<lambda>d. d\<lparr>c_in := c_in d @ [f]\<rparr>) h0
      in if validate f \<noteq> Inr () then upd_conn c (close_done Closed) h
         else if f_type f = TypeResult then
           (case c_pending (hub_conns h ! c) (f_id f) of
              None \<Rightarrow> h
            | Some k \<Rightarrow> upd_call k (offer (Inr \<lparr>r_value = f_result f, r_error = f_error f\<rparr>)) h)
         else if f_type f = TypePing then
           upd_conn c (\<lambda>d. d\<lparr>c_out := c_out d @ [(empty_frame TypePong)\<lparr>f_id := f_id f\<rparr>]\<rparr>) h
         else if f_type f = TypePong then h
         else upd_conn c (close_done Closed) h)"

section \<open>Interleavings\<close>

text \<open>The steps of call \<open>k\<close>; \<open>ctx\<close> tells whether the context of the call is done.\<close>

inductive call_step :: "bool \<Rightarrow> nat \<Rightarrow> hub \<Rightarrow> hub \<Rightarrow> bool" where
  acquire: "k_phase (hub_calls h ! k) = KAcquire \<Longrightarrow>
    c_sem (hub_conns h ! k_conn (hub_calls h ! k)) < max_in_flight h \<Longrightarrow> call_step ctx k h (call_acquire k h)"
| acquire_ctx: "k_phase (hub_calls h ! k) = KAcquire \<Longrightarrow> ctx \<Longrightarrow>
    call_step ctx k h (upd_call k (goto (KReturned (Inl CtxErr))) h)"
| acquire_done: "k_phase (hub_calls h ! k) = KAcquire \<Longrightarrow>
    c_phase (hub_conns h ! k_conn (hub_calls h ! k)) \<noteq> Open \<Longrightarrow>
    call_step ctx k h (upd_call k (goto (KReturned (Inl Offline))) h)"
| prepare_fails: "k_phase (hub_calls h ! k) = KPrepare \<Longrightarrow> e = RandErr \<or> e = MarshalErr \<Longrightarrow>
    call_step ctx k h (upd_call k (goto (KRelease (Inl e))) h)"
| prepare: "k_phase (hub_calls h ! k) = KPrepare \<Longrightarrow> call_step ctx k h (call_register rid k h)"
| send: "k_phase (hub_calls h ! k) = KSend \<Longrightarrow> call_step ctx k h (call_send k h)"
| send_fails: "k_phase (hub_calls h ! k) = KSend \<Longrightarrow> call_step ctx k h (call_send_fails we k h)"
| wait_result: "k_phase (hub_calls h ! k) = KWait \<Longrightarrow> k_chan (hub_calls h ! k) = Some r \<Longrightarrow>
    call_step ctx k h (upd_call k (\<lambda>x. x\<lparr>k_chan := None, k_phase := KUnregister r\<rparr>) h)"
| wait_ctx: "k_phase (hub_calls h ! k) = KWait \<Longrightarrow> ctx \<Longrightarrow>
    call_step ctx k h (upd_call k (goto (KUnregister (Inl CtxErr))) h)"
| wait_done: "k_phase (hub_calls h ! k) = KWait \<Longrightarrow>
    c_phase (hub_conns h ! k_conn (hub_calls h ! k)) \<noteq> Open \<Longrightarrow>
    call_step ctx k h (upd_call k (goto (KUnregister (Inl Offline))) h)"
| unregister: "k_phase (hub_calls h ! k) = KUnregister r \<Longrightarrow> call_step ctx k h (call_unregister k r h)"
| release: "k_phase (hub_calls h ! k) = KRelease r \<Longrightarrow> call_step ctx k h (call_release k r h)"

inductive hub_step :: "hub \<Rightarrow> hub \<Rightarrow> bool" where
  hub_register: "hub_step h (register dev h)"
| hub_disconnect: "hub_step h (disconnect did h)"
| hub_enter: "hub_step h (snd (call_enter owner did tool args h))"
| hub_call: "k < length (hub_calls h) \<Longrightarrow> call_step ctx k h h' \<Longrightarrow> hub_step h h'"
| hub_receive: "c < length (hub_conns h) \<Longrightarrow> hub_step h (receive c f h)"
| hub_read_fails: "c < length (hub_conns h) \<Longrightarrow> hub_step h (upd_conn c (close_done Closed) h)"
| hub_unlink: "c < length (hub_conns h) \<Longrightarrow> c_phase (hub_conns h ! c) = DoneClosed \<Longrightarrow> hub_step h (close_unlink c h)"
| hub_flush: "c < length (hub_conns h) \<Longrightarrow> c_phase (hub_conns h ! c) = Unlinked \<Longrightarrow> hub_step h (close_flush c h)"

inductive hub_reach :: "int \<Rightarrow> hub \<Rightarrow> bool" where
  hub_init: "hub_reach n (new_hub n)"
| hub_next: "hub_reach n h \<Longrightarrow> hub_step h h' \<Longrightarrow> hub_reach n h'"

section \<open>Invariant\<close>

definition holds :: "call \<Rightarrow> bool" where
  "holds k = (case k_phase k of KAcquire \<Rightarrow> False | KReturned _ \<Rightarrow> False | _ \<Rightarrow> True)"

definition registered :: "call \<Rightarrow> bool" where
  "registered k = (case k_phase k of KSend \<Rightarrow> True | KWait \<Rightarrow> True | KUnregister _ \<Rightarrow> True | _ \<Rightarrow> False)"

definition outcomes :: "call \<Rightarrow> outcome set" where
  "outcomes k =
     (case k_phase k of KUnregister r \<Rightarrow> {r} | KRelease r \<Rightarrow> {r} | KReturned r \<Rightarrow> {r} | _ \<Rightarrow> {}) \<union> set_option (k_chan k)"

text \<open>A result counts as answered when a valid result frame with the id of the call was read.\<close>

definition answered :: "frame list \<Rightarrow> string \<Rightarrow> outcome \<Rightarrow> bool" where
  "answered fs rid r =
     (case r of Inl _ \<Rightarrow> True
      | Inr res \<Rightarrow> \<exists>f\<in>set fs. f_type f = TypeResult \<and> validate f = Inr () \<and> f_id f = rid \<and>
                    res = \<lparr>r_value = f_result f, r_error = f_error f\<rparr>)"

definition link_inv :: "hub \<Rightarrow> bool" where
  "link_inv h = (\<forall>i c. hub_devices h i = Some c \<longrightarrow>
     c < length (hub_conns h) \<and> dev_id (c_device (hub_conns h ! c)) = i \<and>
     c_phase (hub_conns h ! c) \<in> {Open, DoneClosed})"

definition conn_inv :: "hub \<Rightarrow> bool" where
  "conn_inv h = (\<forall>c < length (hub_conns h). let d = hub_conns h ! c in
     int (c_sem d) = int (length (filter (\<lambda>k. k_conn k = c \<and> holds k) (hub_calls h))) \<and>
     c_sem d \<le> max_in_flight h \<and> (c_phase d = Flushed \<longrightarrow> c_pending d = Map.empty) \<and>
     (\<forall>i k. c_pending d i = Some k \<longrightarrow> k < length (hub_calls h) \<and>
        k_conn (hub_calls h ! k) = c \<and> k_id (hub_calls h ! k) = i \<and> registered (hub_calls h ! k)))"

definition call_inv :: "hub \<Rightarrow> bool" where
  "call_inv h = (\<forall>x \<in> set (hub_calls h). k_conn x < length (hub_conns h) \<and>
     owner_subject (c_device (hub_conns h ! k_conn x)) = k_owner x \<and>
     (\<forall>r\<in>outcomes x. answered (c_in (hub_conns h ! k_conn x)) (k_id x) r))"

definition hub_inv :: "hub \<Rightarrow> bool" where
  "hub_inv h = (link_inv h \<and> conn_inv h \<and> call_inv h)"

section \<open>Lemmas\<close>

lemma upd_conn_simps [simp]:
  "hub_devices (upd_conn c f h) = hub_devices h" "length (hub_conns (upd_conn c f h)) = length (hub_conns h)"
  "hub_calls (upd_conn c f h) = hub_calls h" "max_in_flight (upd_conn c f h) = max_in_flight h"
  by (simp_all add: upd_conn_def)

lemma upd_call_simps [simp]:
  "hub_devices (upd_call k g h) = hub_devices h" "length (hub_calls (upd_call k g h)) = length (hub_calls h)"
  "hub_conns (upd_call k g h) = hub_conns h" "max_in_flight (upd_call k g h) = max_in_flight h"
  by (simp_all add: upd_call_def)

lemma nth_upd_conn: "c < length (hub_conns h) \<Longrightarrow>
  hub_conns (upd_conn c' f h) ! c = (if c' = c then f (hub_conns h ! c) else hub_conns h ! c)"
  by (auto simp: upd_conn_def)

lemma nth_upd_call: "k < length (hub_calls h) \<Longrightarrow>
  hub_calls (upd_call k' g h) ! k = (if k' = k then g (hub_calls h ! k) else hub_calls h ! k)"
  by (auto simp: upd_call_def)

lemma upd_conn_id: "upd_conn c (\<lambda>d. d) h = h"
  by (simp add: upd_conn_def)

lemma answered_mono: "answered fs rid r \<Longrightarrow> set fs \<subseteq> set fs' \<Longrightarrow> answered fs' rid r"
  by (auto simp: answered_def split: sum.splits)

lemma answered_Inl [simp]: "answered fs rid (Inl e)"
  by (simp add: answered_def)

text \<open>The effect of changing a connection and one of its calls.\<close>

lemma link_upd_conn:
  assumes "link_inv h" and "c < length (hub_conns h)"
    and "c_device (f (hub_conns h ! c)) = c_device (hub_conns h ! c)"
    and "c_phase (hub_conns h ! c) \<in> {Open, DoneClosed} \<Longrightarrow> c_phase (f (hub_conns h ! c)) \<in> {Open, DoneClosed}"
  shows "link_inv (upd_conn c f h)"
  using assms unfolding link_inv_def by (auto simp: nth_upd_conn)

lemma link_upd_call [simp]: "link_inv (upd_call k g h) = link_inv h"
  by (simp add: link_inv_def)

lemma call_upd_conn:
  assumes "call_inv h" and "c < length (hub_conns h)"
    and "c_device (f (hub_conns h ! c)) = c_device (hub_conns h ! c)"
    and "set (c_in (hub_conns h ! c)) \<subseteq> set (c_in (f (hub_conns h ! c)))"
  shows "call_inv (upd_conn c f h)"
  using assms unfolding call_inv_def by (auto simp: nth_upd_conn intro: answered_mono)

lemma call_upd_call:
  assumes "call_inv h" and "k < length (hub_calls h)"
    and "k_conn (g (hub_calls h ! k)) = k_conn (hub_calls h ! k)"
    and "k_owner (g (hub_calls h ! k)) = k_owner (hub_calls h ! k)"
    and "\<forall>r\<in>outcomes (g (hub_calls h ! k)).
      answered (c_in (hub_conns h ! k_conn (hub_calls h ! k))) (k_id (g (hub_calls h ! k))) r"
  shows "call_inv (upd_call k g h)"
proof -
  have "x = g (hub_calls h ! k) \<or> x \<in> set (hub_calls h)" if "x \<in> set (hub_calls (upd_call k g h))" for x
    using that set_update_subset_insert [of "hub_calls h" k "g (hub_calls h ! k)"] by (auto simp: upd_call_def)
  moreover have "hub_calls h ! k \<in> set (hub_calls h)" using assms(2) by simp
  ultimately show ?thesis
    using assms unfolding call_inv_def upd_call_simps by metis
qed

lemma conn_upd:
  assumes "conn_inv h" and k: "k < length (hub_calls h)"
    and c: "k_conn (hub_calls h ! k) = c" "c < length (hub_conns h)" "k_conn (g (hub_calls h ! k)) = c"
    and sem: "int (c_sem (f (hub_conns h ! c))) = int (c_sem (hub_conns h ! c))
      - (if holds (hub_calls h ! k) then 1 else 0) + (if holds (g (hub_calls h ! k)) then 1 else 0)"
    and max: "c_sem (f (hub_conns h ! c)) \<le> max_in_flight h"
    and flushed: "c_phase (f (hub_conns h ! c)) = Flushed \<Longrightarrow> c_phase (hub_conns h ! c) = Flushed"
    and none: "c_pending (hub_conns h ! c) = Map.empty \<Longrightarrow> c_phase (hub_conns h ! c) = Flushed \<Longrightarrow>
      c_pending (f (hub_conns h ! c)) = Map.empty"
    and pend: "\<And>i j. c_pending (f (hub_conns h ! c)) i = Some j \<Longrightarrow>
      (j = k \<and> k_id (g (hub_calls h ! k)) = i \<and> registered (g (hub_calls h ! k))) \<or>
      (j \<noteq> k \<and> c_pending (hub_conns h ! c) i = Some j)"
  shows "conn_inv (upd_call k g (upd_conn c f h))"
  unfolding conn_inv_def Let_def
proof (intro allI impI)
  fix c' assume c': "c' < length (hub_conns (upd_call k g (upd_conn c f h)))"
  let ?h = "upd_call k g (upd_conn c f h)"
  have old: "int (c_sem (hub_conns h ! c')) = int (length (filter (\<lambda>k. k_conn k = c' \<and> holds k) (hub_calls h)))"
    "c_sem (hub_conns h ! c') \<le> max_in_flight h"
    "c_phase (hub_conns h ! c') = Flushed \<longrightarrow> c_pending (hub_conns h ! c') = Map.empty"
    and oldp: "\<And>i j. c_pending (hub_conns h ! c') i = Some j \<Longrightarrow> j < length (hub_calls h) \<and>
        k_conn (hub_calls h ! j) = c' \<and> k_id (hub_calls h ! j) = i \<and> registered (hub_calls h ! j)"
    using assms(1) c' unfolding conn_inv_def Let_def upd_call_simps upd_conn_simps by blast+
  have sem': "int (c_sem (hub_conns ?h ! c')) = int (length (filter (\<lambda>k. k_conn k = c' \<and> holds k) (hub_calls ?h)))"
    using old(1) sem c c' k
      count_list_update [of k "hub_calls h" "\<lambda>k. k_conn k = c' \<and> holds k" "g (hub_calls h ! k)"]
    by (auto simp: nth_upd_conn upd_call_def)
  have max': "c_sem (hub_conns ?h ! c') \<le> max_in_flight ?h"
    using old(2) max c' by (auto simp: nth_upd_conn)
  have fl': "c_phase (hub_conns ?h ! c') = Flushed \<longrightarrow> c_pending (hub_conns ?h ! c') = Map.empty"
    using old(3) flushed none c' by (auto simp: nth_upd_conn)
  have pe': "j < length (hub_calls ?h) \<and> k_conn (hub_calls ?h ! j) = c' \<and> k_id (hub_calls ?h ! j) = i \<and>
      registered (hub_calls ?h ! j)" if p: "c_pending (hub_conns ?h ! c') i = Some j" for i j
  proof (cases "c' = c")
    case True
    with p c' pend [of i j] oldp [of i j] c k show ?thesis by (auto simp: nth_upd_conn nth_upd_call)
  next
    case False
    with p c' have "c_pending (hub_conns h ! c') i = Some j" by (simp add: nth_upd_conn)
    with oldp [of i j] False c show ?thesis by (auto simp: nth_upd_call)
  qed
  show "int (c_sem (hub_conns ?h ! c')) = int (length (filter (\<lambda>k. k_conn k = c' \<and> holds k) (hub_calls ?h))) \<and>
     c_sem (hub_conns ?h ! c') \<le> max_in_flight ?h \<and>
     (c_phase (hub_conns ?h ! c') = Flushed \<longrightarrow> c_pending (hub_conns ?h ! c') = Map.empty) \<and>
     (\<forall>i k. c_pending (hub_conns ?h ! c') i = Some k \<longrightarrow> k < length (hub_calls ?h) \<and>
        k_conn (hub_calls ?h ! k) = c' \<and> k_id (hub_calls ?h ! k) = i \<and> registered (hub_calls ?h ! k))"
    using sem' max' fl' pe' by blast
qed

lemma conn_upd_conn:
  assumes "conn_inv h" and "c < length (hub_conns h)"
    and "c_sem (f (hub_conns h ! c)) = c_sem (hub_conns h ! c)"
    and "c_pending (f (hub_conns h ! c)) = c_pending (hub_conns h ! c)"
    and "c_phase (f (hub_conns h ! c)) = Flushed \<Longrightarrow> c_phase (hub_conns h ! c) = Flushed"
  shows "conn_inv (upd_conn c f h)"
  using assms unfolding conn_inv_def Let_def by (auto simp: nth_upd_conn)

lemma close_done_simps [simp]:
  "c_device (close_done e d) = c_device d" "c_sem (close_done e d) = c_sem d"
  "c_pending (close_done e d) = c_pending d" "c_in (close_done e d) = c_in d"
  "c_phase (close_done e d) = (if c_phase d = Open then DoneClosed else c_phase d)"
  by (simp_all add: close_done_def)

lemma upd_conn_inv:
  assumes "hub_inv h" and "c < length (hub_conns h)"
    and "c_device (f (hub_conns h ! c)) = c_device (hub_conns h ! c)"
    and "c_sem (f (hub_conns h ! c)) = c_sem (hub_conns h ! c)"
    and "c_pending (f (hub_conns h ! c)) = c_pending (hub_conns h ! c)"
    and "set (c_in (hub_conns h ! c)) \<subseteq> set (c_in (f (hub_conns h ! c)))"
    and "c_phase (f (hub_conns h ! c)) = c_phase (hub_conns h ! c) \<or>
      (c_phase (hub_conns h ! c) = Open \<and> c_phase (f (hub_conns h ! c)) = DoneClosed)"
  shows "hub_inv (upd_conn c f h)"
  using assms unfolding hub_inv_def
  by (intro conjI link_upd_conn conn_upd_conn call_upd_conn) auto

lemma close_done_inv: "hub_inv h \<Longrightarrow> c < length (hub_conns h) \<Longrightarrow> hub_inv (upd_conn c (close_done e) h)"
  by (rule upd_conn_inv) auto

lemma hub_inv_call:
  assumes "hub_inv h" and "k < length (hub_calls h)"
  shows "k_conn (hub_calls h ! k) < length (hub_conns h)"
    "owner_subject (c_device (hub_conns h ! k_conn (hub_calls h ! k))) = k_owner (hub_calls h ! k)"
    "\<forall>r\<in>outcomes (hub_calls h ! k). answered (c_in (hub_conns h ! k_conn (hub_calls h ! k))) (k_id (hub_calls h ! k)) r"
  using assms unfolding hub_inv_def call_inv_def by auto

lemma hub_inv_conn:
  assumes "hub_inv h" and "c < length (hub_conns h)"
  shows "c_sem (hub_conns h ! c) = length (filter (\<lambda>k. k_conn k = c \<and> holds k) (hub_calls h))"
    "c_sem (hub_conns h ! c) \<le> max_in_flight h"
    "c_phase (hub_conns h ! c) = Flushed \<Longrightarrow> c_pending (hub_conns h ! c) = Map.empty"
    "c_pending (hub_conns h ! c) i = Some k \<Longrightarrow> k < length (hub_calls h) \<and> k_conn (hub_calls h ! k) = c \<and>
       k_id (hub_calls h ! k) = i \<and> registered (hub_calls h ! k)"
  using assms unfolding hub_inv_def conn_inv_def Let_def of_nat_eq_iff by blast+

lemma hub_inv_link:
  assumes "hub_inv h" and "hub_devices h i = Some c"
  shows "c < length (hub_conns h)" "dev_id (c_device (hub_conns h ! c)) = i"
    "c_phase (hub_conns h ! c) \<in> {Open, DoneClosed}"
  using assms unfolding hub_inv_def link_inv_def by blast+

text \<open>A step of a call changes the call and its connection.\<close>

lemma upd_both_inv:
  assumes "hub_inv h" and "k < length (hub_calls h)"
  defines "c \<equiv> k_conn (hub_calls h ! k)"
  assumes "c_device (f (hub_conns h ! c)) = c_device (hub_conns h ! c)"
    and "c_in (f (hub_conns h ! c)) = c_in (hub_conns h ! c)"
    and "c_phase (f (hub_conns h ! c)) = c_phase (hub_conns h ! c) \<or>
      (c_phase (hub_conns h ! c) = Open \<and> c_phase (f (hub_conns h ! c)) = DoneClosed)"
    and "k_conn (g (hub_calls h ! k)) = c" and "k_owner (g (hub_calls h ! k)) = k_owner (hub_calls h ! k)"
    and "\<forall>r\<in>outcomes (g (hub_calls h ! k)). answered (c_in (hub_conns h ! c)) (k_id (g (hub_calls h ! k))) r"
    and "int (c_sem (f (hub_conns h ! c))) = int (c_sem (hub_conns h ! c))
      - (if holds (hub_calls h ! k) then 1 else 0) + (if holds (g (hub_calls h ! k)) then 1 else 0)"
    and "c_sem (f (hub_conns h ! c)) \<le> max_in_flight h"
    and "c_phase (hub_conns h ! c) = Flushed \<Longrightarrow> c_pending (hub_conns h ! c) = Map.empty \<Longrightarrow>
      c_pending (f (hub_conns h ! c)) = Map.empty"
    and "\<And>i j. c_pending (f (hub_conns h ! c)) i = Some j \<Longrightarrow>
      (j = k \<and> k_id (g (hub_calls h ! k)) = i \<and> registered (g (hub_calls h ! k))) \<or>
      (j \<noteq> k \<and> c_pending (hub_conns h ! c) i = Some j)"
  shows "hub_inv (upd_call k g (upd_conn c f h))"
proof -
  have c: "c < length (hub_conns h)"
    unfolding c_def by (rule hub_inv_call(1) [OF assms(1,2)])
  have li: "link_inv (upd_call k g (upd_conn c f h))"
    using assms(1,4,6) c by (simp add: hub_inv_def link_upd_conn) (auto simp: hub_inv_def intro!: link_upd_conn)
  have co: "conn_inv (upd_call k g (upd_conn c f h))"
    using assms c by (intro conn_upd) (auto simp: hub_inv_def)
  have "call_inv (upd_conn c f h)"
    using assms(1,4,5) c by (intro call_upd_conn) (auto simp: hub_inv_def)
  then have "call_inv (upd_call k g (upd_conn c f h))"
    using assms c by (intro call_upd_call) (auto simp: nth_upd_conn)
  with li co show ?thesis by (simp add: hub_inv_def)
qed

lemmas call_views = goto_def holds_def registered_def outcomes_def

text \<open>A step that changes only the call: it keeps what the call holds and whether it is registered.\<close>

lemma upd_call_inv:
  assumes "hub_inv h" and "k < length (hub_calls h)"
    and "k_conn (g (hub_calls h ! k)) = k_conn (hub_calls h ! k)"
    and "k_owner (g (hub_calls h ! k)) = k_owner (hub_calls h ! k)"
    and "k_id (g (hub_calls h ! k)) = k_id (hub_calls h ! k)"
    and "holds (g (hub_calls h ! k)) = holds (hub_calls h ! k)"
    and "registered (g (hub_calls h ! k)) = registered (hub_calls h ! k)"
    and "\<forall>r\<in>outcomes (g (hub_calls h ! k)). r \<in> outcomes (hub_calls h ! k) \<or>
      answered (c_in (hub_conns h ! k_conn (hub_calls h ! k))) (k_id (hub_calls h ! k)) r"
  shows "hub_inv (upd_call k g h)"
proof -
  note c = hub_inv_call(1) [OF assms(1,2)]
  have out: "\<forall>r\<in>outcomes (g (hub_calls h ! k)).
      answered (c_in (hub_conns h ! k_conn (hub_calls h ! k))) (k_id (g (hub_calls h ! k))) r"
    unfolding assms(5) using assms(8) hub_inv_call(3) [OF assms(1,2)] by blast
  have pend: "(j = k \<and> k_id (g (hub_calls h ! k)) = i \<and> registered (g (hub_calls h ! k))) \<or>
      (j \<noteq> k \<and> c_pending (hub_conns h ! k_conn (hub_calls h ! k)) i = Some j)"
    if "c_pending (hub_conns h ! k_conn (hub_calls h ! k)) i = Some j" for i j
    using hub_inv_conn(4) [OF assms(1) c that] that assms(5,7) by metis
  have "hub_inv (upd_call k g (upd_conn (k_conn (hub_calls h ! k)) (\<lambda>d. d) h))"
    by (rule upd_both_inv [where f = "\<lambda>d. d" and g = g])
      (fact assms(1-4) out | erule pend | simp add: assms(6) hub_inv_conn(2) [OF assms(1) c])+
  then show ?thesis by (simp add: upd_conn_id)
qed

lemma call_register_inv:
  assumes "hub_inv h" and "k < length (hub_calls h)" and "k_phase (hub_calls h ! k) = KPrepare"
  shows "hub_inv (call_register rid k h)"
proof -
  let ?x = "hub_calls h ! k"
  let ?d = "hub_conns h ! k_conn ?x"
  note c = hub_inv_call(1) [OF assms(1,2)] and ev = hub_inv_call(3) [OF assms(1,2)]
  have "\<not> registered ?x" using assms(3) by (simp add: registered_def)
  then have u: "\<forall>i. c_pending ?d i \<noteq> Some k" using hub_inv_conn(4) [OF assms(1) c] by blast
  show ?thesis
  proof (cases "c_phase ?d = Open")
    case True
    have "hub_inv (upd_call k (\<lambda>x. x\<lparr>k_id := rid, k_phase := KSend, k_chan := None\<rparr>)
        (upd_conn (k_conn ?x) (\<lambda>d. d\<lparr>c_pending := (c_pending d)(rid \<mapsto> k)\<rparr>) h))"
      using assms True u hub_inv_conn(2) [OF assms(1) c] by (intro upd_both_inv) (auto simp: call_views split: if_splits)
    with True show ?thesis by (simp add: call_register_def Let_def)
  next
    case False
    with assms ev show ?thesis by (auto intro!: upd_call_inv simp: call_views call_register_def Let_def)
  qed
qed

lemma call_step_inv:
  assumes "call_step ctx k h h'" and "hub_inv h" and "k < length (hub_calls h)"
  shows "hub_inv h'"
proof -
  let ?x = "hub_calls h ! k"
  let ?d = "hub_conns h ! k_conn ?x"
  note c = hub_inv_call(1) [OF assms(2,3)] and ev = hub_inv_call(3) [OF assms(2,3)]
  note sem = hub_inv_conn(1,2) [OF assms(2) c]
  have unreg: "\<forall>i. c_pending ?d i \<noteq> Some k" if "\<not> registered ?x"
    using hub_inv_conn(4) [OF assms(2) c] that by blast
  have reg: "\<forall>i. c_pending ?d i = Some k \<longrightarrow> i = k_id ?x"
    using hub_inv_conn(4) [OF assms(2) c] by blast
  have pos: "0 < c_sem ?d" if "holds ?x"
  proof -
    have "?x \<in> set (filter (\<lambda>x. k_conn x = k_conn ?x \<and> holds x) (hub_calls h))"
      using that assms(3) by simp
    then show ?thesis unfolding sem(1) by (rule length_pos_if_in_set)
  qed
  from assms(1) show ?thesis
  proof cases
    case acquire
    with unreg have "\<forall>i. c_pending ?d i \<noteq> Some k" by (simp add: registered_def)
    with assms(2,3) ev acquire show ?thesis
      unfolding acquire(1) call_acquire_def by (intro upd_both_inv) (auto simp: call_views)
  next
    case (prepare rid)
    then show ?thesis using call_register_inv [OF assms(2,3)] by simp
  next
    case send
    with assms(2,3) reg ev sem(2) show ?thesis
      unfolding send(1) call_send_def by (intro upd_both_inv) (auto simp: call_views)
  next
    case (send_fails we)
    with assms(2,3) reg ev sem(2) show ?thesis
      unfolding send_fails(1) call_send_fails_def by (intro upd_both_inv) (auto simp: call_views)
  next
    case (unregister r)
    with assms(2,3) reg ev sem(2) show ?thesis
      unfolding unregister(1) call_unregister_def by (intro upd_both_inv) (auto simp: call_views split: if_splits)
  next
    case (release r)
    with unreg pos have "\<forall>i. c_pending ?d i \<noteq> Some k" "0 < c_sem ?d" by (simp_all add: registered_def holds_def)
    with assms(2,3) ev sem(2) release show ?thesis
      unfolding release(1) call_release_def by (intro upd_both_inv) (auto simp: call_views)
  qed (use assms(2,3) ev in \<open>auto intro!: upd_call_inv simp: call_views\<close>)
qed

lemma offer_simps [simp]:
  "k_conn (offer r x) = k_conn x" "k_owner (offer r x) = k_owner x" "k_id (offer r x) = k_id x"
  "k_phase (offer r x) = k_phase x"
  by (simp_all add: offer_def split: option.splits)

lemma outcomes_offer: "outcomes (offer r x) \<subseteq> insert r (outcomes x)"
  by (auto simp: outcomes_def offer_def split: option.splits)

lemma receive_inv:
  assumes "hub_inv h0" and "c < length (hub_conns h0)"
  shows "hub_inv (receive c f h0)"
proof -
  define h where "h = upd_conn c (\<lambda>d. d\<lparr>c_in := c_in d @ [f]\<rparr>) h0"
  have h: "hub_inv h" "c < length (hub_conns h)"
    using assms by (auto simp: h_def intro!: upd_conn_inv)
  have "hub_inv (upd_call k (offer (Inr \<lparr>r_value = f_result f, r_error = f_error f\<rparr>)) h)"
    if v: "validate f = Inr ()" "f_type f = TypeResult" and p: "c_pending (hub_conns h ! c) (f_id f) = Some k" for k
  proof -
    have k: "k < length (hub_calls h)" "k_conn (hub_calls h ! k) = c" "k_id (hub_calls h ! k) = f_id f"
      using hub_inv_conn(4) [OF h p] by simp_all
    have "answered (c_in (hub_conns h ! c)) (f_id f) (Inr \<lparr>r_value = f_result f, r_error = f_error f\<rparr>)"
      using v assms(2) by (auto simp: answered_def h_def nth_upd_conn)
    with k outcomes_offer [of "Inr \<lparr>r_value = f_result f, r_error = f_error f\<rparr>" "hub_calls h ! k"] show ?thesis
      by (intro upd_call_inv [OF h(1) k(1)]) (auto simp: holds_def registered_def)
  qed
  moreover have "hub_inv (upd_conn c (close_done Closed) h)"
    using h by (rule close_done_inv)
  moreover have "hub_inv (upd_conn c (\<lambda>d. d\<lparr>c_out := c_out d @ [x]\<rparr>) h)" for x
    using h by (auto intro!: upd_conn_inv)
  ultimately show ?thesis
    using h unfolding receive_def h_def [symmetric] Let_def by (simp split: option.splits)
qed

lemma register_inv:
  assumes "hub_inv h"
  shows "hub_inv (register dev h)"
proof -
  define d where "d = \<lparr>c_device = dev, c_phase = Open, c_err = Closed, c_sem = 0, c_pending = Map.empty,
               c_in = [], c_out = []\<rparr>"
  define h1 where "h1 = h\<lparr>hub_devices := (hub_devices h)(dev_id dev \<mapsto> length (hub_conns h)),
                 hub_conns := hub_conns h @ [d]\<rparr>"
  have calls: "\<forall>x\<in>set (hub_calls h). k_conn x < length (hub_conns h)"
    using assms by (simp add: hub_inv_def call_inv_def)
  have none: "filter (\<lambda>k. k_conn k = length (hub_conns h) \<and> holds k) (hub_calls h) = []"
    using calls by (auto simp: filter_empty_conv)
  have "link_inv h1"
    using assms unfolding hub_inv_def link_inv_def h1_def d_def by (auto simp: nth_append intro: less_SucI)
  moreover have "conn_inv h1"
    using assms none unfolding hub_inv_def conn_inv_def h1_def Let_def
    by (auto simp: nth_append d_def less_Suc_eq)
  moreover have "call_inv h1"
    using assms calls unfolding hub_inv_def call_inv_def h1_def by (auto simp: nth_append)
  ultimately have i: "hub_inv h1" by (simp add: hub_inv_def)
  have "old < length (hub_conns h1)" if "hub_devices h (dev_id dev) = Some old" for old
    using hub_inv_link(1) [OF assms that] by (simp add: h1_def)
  then have "hub_inv (upd_conn old (close_done Closed) h1)" if "hub_devices h (dev_id dev) = Some old" for old
    using close_done_inv [OF i] that by blast
  with i show ?thesis
    unfolding register_def d_def [symmetric] Let_def h1_def [symmetric] by (simp split: option.splits)
qed

lemma enter_inv:
  assumes "hub_inv h"
  shows "hub_inv (snd (call_enter owner did tool args h))"
proof (cases "snd (call_enter owner did tool args h) = h")
  case False
  then obtain c where c: "hub_devices h did = Some c" "owner_subject (c_device (hub_conns h ! c)) = owner"
    by (auto simp: call_enter_def split: option.splits if_splits)
  note l = hub_inv_link(1) [OF assms c(1)]
  let ?x = "\<lparr>k_conn = c, k_owner = owner, k_tool = tool, k_args = args, k_id = [], k_phase = KAcquire, k_chan = None\<rparr>"
  have e: "snd (call_enter owner did tool args h) = h\<lparr>hub_calls := hub_calls h @ [?x]\<rparr>"
    using c by (simp add: call_enter_def)
  have "link_inv (h\<lparr>hub_calls := hub_calls h @ [?x]\<rparr>)"
    using assms by (simp add: hub_inv_def link_inv_def)
  moreover have "conn_inv (h\<lparr>hub_calls := hub_calls h @ [?x]\<rparr>)"
    using assms unfolding hub_inv_def conn_inv_def Let_def
    by (auto simp: nth_append holds_def less_Suc_eq)
  moreover have "call_inv (h\<lparr>hub_calls := hub_calls h @ [?x]\<rparr>)"
    using assms c l by (auto simp: hub_inv_def call_inv_def outcomes_def)
  ultimately show ?thesis by (simp add: e hub_inv_def)
qed (use assms in simp)

lemma inv_hub_devices [simp]:
  "conn_inv (h\<lparr>hub_devices := x\<rparr>) = conn_inv h" "call_inv (h\<lparr>hub_devices := x\<rparr>) = call_inv h"
  by (simp_all add: conn_inv_def call_inv_def)

lemma unlink_inv:
  assumes "hub_inv h" and "c < length (hub_conns h)" and "c_phase (hub_conns h ! c) = DoneClosed"
  shows "hub_inv (close_unlink c h)"
proof -
  have "conn_inv (upd_conn c (\<lambda>d. d\<lparr>c_phase := Unlinked\<rparr>) h)" "call_inv (upd_conn c (\<lambda>d. d\<lparr>c_phase := Unlinked\<rparr>) h)"
    using assms unfolding hub_inv_def by (auto intro!: conn_upd_conn call_upd_conn)
  then have "conn_inv (close_unlink c h)" "call_inv (close_unlink c h)"
    by (simp_all add: close_unlink_def Let_def)
  moreover have "c' < length (hub_conns (close_unlink c h)) \<and> dev_id (c_device (hub_conns (close_unlink c h) ! c')) = i \<and>
      c_phase (hub_conns (close_unlink c h) ! c') \<in> {Open, DoneClosed}"
    if new: "hub_devices (close_unlink c h) i = Some c'" for i c'
  proof -
    have old: "hub_devices h i = Some c'"
      using new by (auto simp: close_unlink_def Let_def split: if_splits)
    have "c' \<noteq> c"
      using new old hub_inv_link(2) [OF assms(1) old] by (auto simp: close_unlink_def Let_def split: if_splits)
    with hub_inv_link [OF assms(1) old] show ?thesis
      by (simp add: close_unlink_def Let_def nth_upd_conn)
  qed
  ultimately show ?thesis unfolding hub_inv_def link_inv_def by blast
qed

lemma nth_close_flush:
  "k < length (hub_calls h) \<Longrightarrow> hub_calls (close_flush c h) ! k =
    (if k_conn (hub_calls h ! k) = c \<and> c_pending (hub_conns h ! c) (k_id (hub_calls h ! k)) = Some k
     then offer (Inl (c_err (hub_conns h ! c))) (hub_calls h ! k) else hub_calls h ! k)"
  by (simp add: close_flush_def Let_def)

lemma close_flush_simps [simp]:
  "length (hub_calls (close_flush c h)) = length (hub_calls h)"
  "hub_conns (close_flush c h) = hub_conns (upd_conn c (\<lambda>d. d\<lparr>c_phase := Flushed, c_pending := Map.empty\<rparr>) h)"
  "hub_devices (close_flush c h) = hub_devices h" "max_in_flight (close_flush c h) = max_in_flight h"
  by (simp_all add: close_flush_def Let_def)

lemma flush_same:
  assumes "k < length (hub_calls h)"
  shows "k_conn (hub_calls (close_flush c h) ! k) = k_conn (hub_calls h ! k)"
    "k_id (hub_calls (close_flush c h) ! k) = k_id (hub_calls h ! k)"
    "k_owner (hub_calls (close_flush c h) ! k) = k_owner (hub_calls h ! k)"
    "holds (hub_calls (close_flush c h) ! k) = holds (hub_calls h ! k)"
    "registered (hub_calls (close_flush c h) ! k) = registered (hub_calls h ! k)"
    "outcomes (hub_calls (close_flush c h) ! k) \<subseteq> insert (Inl (c_err (hub_conns h ! c))) (outcomes (hub_calls h ! k))"
  using assms outcomes_offer by (auto simp: nth_close_flush holds_def registered_def)

lemma flush_count: "length (filter (\<lambda>x. k_conn x = c' \<and> holds x) (hub_calls (close_flush c h))) =
    length (filter (\<lambda>x. k_conn x = c' \<and> holds x) (hub_calls h))"
proof (rule length_filter_eq_map)
  show "map (\<lambda>x. k_conn x = c' \<and> holds x) (hub_calls (close_flush c h)) = map (\<lambda>x. k_conn x = c' \<and> holds x) (hub_calls h)"
    using flush_same by (intro nth_equalityI) auto
qed

lemma flush_link:
  assumes "hub_inv h" and "c < length (hub_conns h)" and "c_phase (hub_conns h ! c) = Unlinked"
  shows "link_inv (close_flush c h)"
  unfolding link_inv_def close_flush_simps
proof (intro allI impI)
  fix i c' assume l: "hub_devices h i = Some c'"
  then have "c' \<noteq> c" using hub_inv_link(3) [OF assms(1) l] assms(3) by auto
  with hub_inv_link [OF assms(1) l] show "c' < length (hub_conns (upd_conn c (\<lambda>d. d\<lparr>c_phase := Flushed, c_pending := Map.empty\<rparr>) h)) \<and>
    dev_id (c_device (hub_conns (upd_conn c (\<lambda>d. d\<lparr>c_phase := Flushed, c_pending := Map.empty\<rparr>) h) ! c')) = i \<and>
    c_phase (hub_conns (upd_conn c (\<lambda>d. d\<lparr>c_phase := Flushed, c_pending := Map.empty\<rparr>) h) ! c') \<in> {Open, DoneClosed}"
    by (simp add: nth_upd_conn)
qed

lemma flush_conn:
  assumes "hub_inv h"
  shows "conn_inv (close_flush c h)"
  unfolding conn_inv_def Let_def close_flush_simps(1,2,4) flush_count upd_conn_simps
proof (intro allI impI)
  fix c' assume c': "c' < length (hub_conns h)"
  note old = hub_inv_conn [OF assms c']
  let ?d = "hub_conns (upd_conn c (\<lambda>d. d\<lparr>c_phase := Flushed, c_pending := Map.empty\<rparr>) h) ! c'"
  have d: "c_sem ?d = c_sem (hub_conns h ! c')" "c_phase ?d = Flushed \<longrightarrow> c_pending ?d = Map.empty"
    "\<And>i k. c_pending ?d i = Some k \<Longrightarrow> c_pending (hub_conns h ! c') i = Some k"
    using c' old(3) by (auto simp: nth_upd_conn split: if_splits)
  have p: "k < length (hub_calls h) \<and> k_conn (hub_calls (close_flush c h) ! k) = c' \<and>
      k_id (hub_calls (close_flush c h) ! k) = i \<and> registered (hub_calls (close_flush c h) ! k)"
    if "c_pending ?d i = Some k" for i k
    using old(4) [OF d(3) [OF that]] flush_same by auto
  have n: "c_sem ?d \<le> max_in_flight h" "int (c_sem ?d) = int (length (filter (\<lambda>x. k_conn x = c' \<and> holds x) (hub_calls h)))"
    unfolding d(1) using old(1,2) by simp_all
  show "int (c_sem ?d) = int (length (filter (\<lambda>x. k_conn x = c' \<and> holds x) (hub_calls h))) \<and>
    c_sem ?d \<le> max_in_flight h \<and> (c_phase ?d = Flushed \<longrightarrow> c_pending ?d = Map.empty) \<and>
    (\<forall>i k. c_pending ?d i = Some k \<longrightarrow> k < length (hub_calls h) \<and> k_conn (hub_calls (close_flush c h) ! k) = c' \<and>
      k_id (hub_calls (close_flush c h) ! k) = i \<and> registered (hub_calls (close_flush c h) ! k))"
    using n d(2) p by blast
qed

lemma flush_call:
  assumes "hub_inv h"
  shows "call_inv (close_flush c h)"
  unfolding call_inv_def
proof (intro ballI)
  fix x assume "x \<in> set (hub_calls (close_flush c h))"
  then obtain k where k: "k < length (hub_calls h)" "x = hub_calls (close_flush c h) ! k"
    by (auto simp: in_set_conv_nth)
  show "k_conn x < length (hub_conns (close_flush c h)) \<and>
    owner_subject (c_device (hub_conns (close_flush c h) ! k_conn x)) = k_owner x \<and>
    (\<forall>r\<in>outcomes x. answered (c_in (hub_conns (close_flush c h) ! k_conn x)) (k_id x) r)"
    using hub_inv_call [OF assms k(1)] flush_same [OF k(1), of c] k(2) by (auto simp: nth_upd_conn)
qed

lemma flush_inv:
  assumes "hub_inv h" and "c < length (hub_conns h)" and "c_phase (hub_conns h ! c) = Unlinked"
  shows "hub_inv (close_flush c h)"
  using flush_link [OF assms] flush_conn [OF assms(1)] flush_call [OF assms(1)] by (simp add: hub_inv_def)

lemma disconnect_inv: "hub_inv h \<Longrightarrow> hub_inv (disconnect did h)"
  by (auto simp: disconnect_def split: option.splits intro: close_done_inv dest: hub_inv_link(1))

lemma hub_step_inv: "hub_step h h' \<Longrightarrow> hub_inv h \<Longrightarrow> hub_inv h'"
  by (induction rule: hub_step.induct)
    (auto intro: register_inv disconnect_inv enter_inv call_step_inv receive_inv close_done_inv unlink_inv flush_inv)

lemma new_hub_inv: "hub_inv (new_hub n)"
  by (simp add: hub_inv_def link_inv_def conn_inv_def call_inv_def new_hub_def)

lemma hub_reach_inv: "hub_reach n h \<Longrightarrow> hub_inv h"
  by (induction rule: hub_reach.induct) (auto intro: new_hub_inv hub_step_inv)

lemma hub_reach_steps: "hub_step\<^sup>*\<^sup>* h h' \<Longrightarrow> hub_reach n h \<Longrightarrow> hub_reach n h'"
  by (induction rule: rtranclp_induct) (auto intro: hub_next)

text \<open>Connections stay closed, and calls stay on their connection.\<close>

lemma call_step_closed:
  assumes "call_step ctx k h h'" and "c < length (hub_conns h)" and "c_phase (hub_conns h ! c) \<noteq> Open"
  shows "length (hub_conns h') = length (hub_conns h) \<and> c_phase (hub_conns h' ! c) \<noteq> Open"
  using assms
  by (induction rule: call_step.induct)
    (auto simp: call_acquire_def call_register_def call_send_def call_send_fails_def
      call_unregister_def call_release_def Let_def nth_upd_conn)

lemma hub_step_closed:
  assumes "hub_step h h'" and "c < length (hub_conns h)" and "c_phase (hub_conns h ! c) \<noteq> Open"
  shows "c_phase (hub_conns h' ! c) \<noteq> Open"
  using assms
proof (induction rule: hub_step.induct)
  case (hub_register h dev)
  then show ?case
    by (auto simp: register_def Let_def nth_append nth_upd_conn split: option.splits if_splits)
next
  case (hub_call k h ctx h')
  then show ?case using call_step_closed by blast
qed (auto simp: disconnect_def call_enter_def receive_def close_unlink_def Let_def nth_upd_conn split: option.splits)

lemma call_step_conn:
  assumes "call_step ctx k h h'" and "j < length (hub_calls h)"
  shows "k_conn (hub_calls h' ! j) = k_conn (hub_calls h ! j)"
  using assms
  by (induction rule: call_step.induct)
    (auto simp: call_acquire_def call_register_def call_send_def call_send_fails_def
      call_unregister_def call_release_def Let_def nth_upd_call goto_def)

lemma hub_step_conn:
  assumes "hub_step h h'" and "k < length (hub_calls h)"
  shows "k_conn (hub_calls h' ! k) = k_conn (hub_calls h ! k)"
  using assms
  by (induction rule: hub_step.induct)
    (auto simp: register_def disconnect_def call_enter_def close_unlink_def receive_def Let_def nth_append
      nth_close_flush nth_upd_call call_step_conn split: option.splits)

text \<open>How far a call is from its return.\<close>

definition rank :: "call \<Rightarrow> nat" where
  "rank x = (case k_phase x of KAcquire \<Rightarrow> 6 | KPrepare \<Rightarrow> 5 | KSend \<Rightarrow> 4 | KWait \<Rightarrow> 3
     | KUnregister _ \<Rightarrow> 2 | KRelease _ \<Rightarrow> 1 | KReturned _ \<Rightarrow> 0)"

lemma rank_views [simp]:
  "rank (goto p x) = rank (x\<lparr>k_phase := p\<rparr>)" "rank (offer r x) = rank x"
  by (simp_all add: rank_def goto_def)

lemma call_step_rank:
  assumes "call_step ctx k h h'" and "k < length (hub_calls h)"
  shows "rank (hub_calls h' ! k) < rank (hub_calls h ! k) \<and> length (hub_calls h') = length (hub_calls h) \<and>
    (\<forall>j. j \<noteq> k \<longrightarrow> hub_calls h' ! j = hub_calls h ! j)"
  using assms
  by (induction rule: call_step.induct)
    (auto simp: rank_def goto_def call_acquire_def call_register_def call_send_def call_send_fails_def
      call_unregister_def call_release_def Let_def upd_call_def)

lemma call_step_max: "call_step ctx k h h' \<Longrightarrow> max_in_flight h' = max_in_flight h"
  by (induction rule: call_step.induct)
    (simp_all add: call_acquire_def call_register_def call_send_def call_send_fails_def
      call_unregister_def call_release_def Let_def)

lemma hub_step_max: "hub_step h h' \<Longrightarrow> max_in_flight h' = max_in_flight h"
  by (induction rule: hub_step.induct)
    (auto simp: register_def disconnect_def call_enter_def receive_def close_unlink_def Let_def call_step_max
      split: option.splits)

lemma rank_upd_offer: "k < length (hub_calls h) \<Longrightarrow> rank (hub_calls (upd_call j (offer r) h) ! k) = rank (hub_calls h ! k)"
  by (simp add: nth_upd_call)

lemma hub_step_rank:
  assumes "hub_step h h'" and "k < length (hub_calls h)"
  shows "k < length (hub_calls h') \<and> rank (hub_calls h' ! k) \<le> rank (hub_calls h ! k)"
  using assms
proof (induction rule: hub_step.induct)
  case (hub_call j h ctx h')
  then show ?case using call_step_rank [of ctx j h h'] by (cases "j = k") auto
next
  case (hub_receive c h f)
  then show ?case by (auto simp: receive_def Let_def rank_upd_offer split: option.splits)
qed (auto simp: register_def disconnect_def call_enter_def close_unlink_def Let_def nth_append nth_close_flush
      split: option.splits)

text \<open>
  Answers are not mixed up: whatever calls, connections, replies and failures are interleaved,
  a call that returns a result returns the content of a valid result frame that was read on the
  call's own connection and carries the call's own id, and that connection belongs to a device of
  the subject who made the call.
\<close>

lemma returned_answer:
  assumes "hub_reach n h" and "k < length (hub_calls h)" and "k_phase (hub_calls h ! k) = KReturned (Inr res)"
  shows "\<exists>f\<in>set (c_in (hub_conns h ! k_conn (hub_calls h ! k))).
    f_type f = TypeResult \<and> validate f = Inr () \<and> f_id f = k_id (hub_calls h ! k) \<and>
    res = \<lparr>r_value = f_result f, r_error = f_error f\<rparr> \<and>
    owner_subject (c_device (hub_conns h ! k_conn (hub_calls h ! k))) = k_owner (hub_calls h ! k)"
proof -
  note inv = hub_reach_inv [OF assms(1)]
  have "Inr res \<in> outcomes (hub_calls h ! k)"
    using assms(3) by (simp add: outcomes_def)
  with hub_inv_call(2,3) [OF inv assms(2)] show ?thesis
    unfolding answered_def by fastforce
qed

text \<open>A connection stays that of its device, and a call that of its caller.\<close>

lemma call_step_device:
  assumes "call_step ctx k h h'" and "c < length (hub_conns h)"
  shows "length (hub_conns h') = length (hub_conns h) \<and> c_device (hub_conns h' ! c) = c_device (hub_conns h ! c)"
  using assms
  by (induction rule: call_step.induct)
    (auto simp: call_acquire_def call_register_def call_send_def call_send_fails_def
      call_unregister_def call_release_def close_done_def Let_def nth_upd_conn)

lemma hub_step_device:
  assumes "hub_step h h'" and "c < length (hub_conns h)"
  shows "c < length (hub_conns h') \<and> c_device (hub_conns h' ! c) = c_device (hub_conns h ! c)"
  using assms
proof (induction rule: hub_step.induct)
  case (hub_register h dev)
  then show ?case
    by (auto simp: register_def close_done_def Let_def nth_append nth_upd_conn split: option.splits if_splits)
next
  case (hub_call k h ctx h')
  then show ?case using call_step_device by metis
qed (auto simp: disconnect_def call_enter_def receive_def close_unlink_def close_done_def close_flush_def Let_def nth_upd_conn
      split: option.splits)

lemma hub_steps_device:
  assumes "hub_step\<^sup>*\<^sup>* h h'" and "k < length (hub_calls h)" and "c < length (hub_conns h)"
  shows "k < length (hub_calls h') \<and> k_conn (hub_calls h' ! k) = k_conn (hub_calls h ! k) \<and>
    c < length (hub_conns h') \<and> c_device (hub_conns h' ! c) = c_device (hub_conns h ! c)"
  using assms
  by (induction rule: rtranclp_induct) (auto simp: hub_step_conn hub_step_device dest: hub_step_rank)

lemma call_enter_connects:
  assumes "hub_reach n h" and "call_enter owner did tool args h = (Inr k, h')"
  shows "k < length (hub_calls h') \<and> k_conn (hub_calls h' ! k) < length (hub_conns h') \<and> hub_reach n h' \<and>
    dev_id (c_device (hub_conns h' ! k_conn (hub_calls h' ! k))) = did \<and>
    owner_subject (c_device (hub_conns h' ! k_conn (hub_calls h' ! k))) = owner"
proof -
  have "hub_reach n h'" using hub_next [OF assms(1) hub_enter, of owner did tool args] assms(2) by simp
  then show ?thesis
    using assms(2) hub_inv_link [OF hub_reach_inv [OF assms(1)]]
    by (auto simp: call_enter_def split: option.splits if_splits)
qed

section \<open>Properties\<close>

definition demo_dev :: device where
  "demo_dev = \<lparr>dev_id = ''d'', owner_subject = ''alice'', dev_name = [], created_at = 1,
     last_seen_at = None, revoked_at = None, online = False\<rparr>"

definition demo_reply :: frame where
  "demo_reply = (empty_frame TypeResult)\<lparr>f_id := ''x'', f_ok := True, f_result := ''42''\<rparr>"

definition demo_waiting :: hub where
  "demo_waiting = call_send 0 (call_register ''x'' 0 (call_acquire 0
     (snd (call_enter ''alice'' ''d'' ''read_file'' ''{}'' (register demo_dev (new_hub 2))))))"

definition demo_returned :: hub where
  "demo_returned = call_release 0 (Inr \<lparr>r_value = ''42'', r_error = None\<rparr>)
     (call_unregister 0 (Inr \<lparr>r_value = ''42'', r_error = None\<rparr>)
       (upd_call 0 (\<lambda>x. x\<lparr>k_chan := None, k_phase := KUnregister (Inr \<lparr>r_value = ''42'', r_error = None\<rparr>)\<rparr>)
         (receive 0 demo_reply demo_waiting)))"

lemmas demo_hub_simps =
  demo_waiting_def demo_returned_def demo_reply_def demo_dev_def new_hub_def register_def call_enter_def
  call_acquire_def call_register_def call_send_def call_unregister_def call_release_def receive_def
  upd_conn_def upd_call_def goto_def offer_def validate_def empty_frame_def Let_def

definition demo_entered :: hub where
  "demo_entered = snd (call_enter ''alice'' ''d'' ''read_file'' ''{}'' (register demo_dev (new_hub 2)))"

lemma demo_entered_reach: "hub_reach 2 demo_entered"
  unfolding demo_entered_def by (rule hub_next [OF hub_next [OF hub_init hub_register] hub_enter])

lemma steps_call: "hub_step\<^sup>*\<^sup>* a h \<Longrightarrow> k < length (hub_calls h) \<Longrightarrow> call_step ctx k h h' \<Longrightarrow> hub_step\<^sup>*\<^sup>* a h'"
  by (erule rtranclp.rtrancl_into_rtrancl) (rule hub_call)

lemma demo_waiting_steps: "hub_step\<^sup>*\<^sup>* demo_entered demo_waiting"
proof -
  have "hub_step\<^sup>*\<^sup>* demo_entered (call_acquire 0 demo_entered)"
    by (rule steps_call [OF rtranclp.rtrancl_refl _ acquire [where ctx = False]]) (simp_all add: demo_hub_simps demo_entered_def)
  then have "hub_step\<^sup>*\<^sup>* demo_entered (call_register ''x'' 0 (call_acquire 0 demo_entered))"
    by (rule steps_call [OF _ _ prepare [where ctx = False]]) (simp_all add: demo_hub_simps demo_entered_def)
  then show ?thesis
    unfolding demo_waiting_def demo_entered_def [symmetric]
    by (rule steps_call [OF _ _ send [where ctx = False]]) (simp_all add: demo_hub_simps demo_entered_def)
qed

lemma demo_returned_steps: "hub_step\<^sup>*\<^sup>* demo_entered demo_returned"
proof -
  let ?r = "Inr \<lparr>r_value = ''42'', r_error = None\<rparr> :: outcome"
  have "hub_step\<^sup>*\<^sup>* demo_entered (receive 0 demo_reply demo_waiting)"
    by (rule rtranclp.rtrancl_into_rtrancl [OF demo_waiting_steps hub_receive]) (simp add: demo_hub_simps)
  then have "hub_step\<^sup>*\<^sup>* demo_entered (upd_call 0 (\<lambda>x. x\<lparr>k_chan := None, k_phase := KUnregister ?r\<rparr>) (receive 0 demo_reply demo_waiting))"
    by (rule steps_call [OF _ _ wait_result [where ctx = False]]) (simp_all add: demo_hub_simps)
  then have "hub_step\<^sup>*\<^sup>* demo_entered (call_unregister 0 ?r (upd_call 0 (\<lambda>x. x\<lparr>k_chan := None, k_phase := KUnregister ?r\<rparr>) (receive 0 demo_reply demo_waiting)))"
    by (rule steps_call [OF _ _ unregister [where ctx = False]]) (simp_all add: demo_hub_simps)
  then show ?thesis
    unfolding demo_returned_def
    by (rule steps_call [OF _ _ release [where ctx = False]]) (simp_all add: demo_hub_simps)
qed

lemma demo_waiting_reach: "hub_reach 2 demo_waiting"
  by (rule hub_reach_steps [OF demo_waiting_steps demo_entered_reach])

lemma demo_returned_reach: "hub_reach 2 demo_returned"
  by (rule hub_reach_steps [OF demo_returned_steps demo_entered_reach])

text \<open>
  C17. The limit of calls in flight holds and nothing leaks: on every connection the semaphore counts
  exactly the calls that hold a place, at most \<^verbatim>\<open>maxInFlight\<close> (16 when that is not positive),
  and a connection on which no call holds a place has no pending entries left.
\<close>

theorem relay_in_flight:
  assumes "hub_reach n h" and "c < length (hub_conns h)"
  shows "c_sem (hub_conns h ! c) = length (filter (\<lambda>x. k_conn x = c \<and> holds x) (hub_calls h)) \<and>
    c_sem (hub_conns h ! c) \<le> (if n < 1 then 16 else nat n) \<and>
    (c_sem (hub_conns h ! c) = 0 \<longrightarrow> c_pending (hub_conns h ! c) = Map.empty)"
proof -
  note inv = hub_reach_inv [OF assms(1)]
  note d = hub_inv_conn [OF inv assms(2)]
  have "max_in_flight h = (if n < 1 then 16 else nat n)"
    using assms(1) by (induction rule: hub_reach.induct) (auto simp: new_hub_def hub_step_max)
  moreover have "c_pending (hub_conns h ! c) = Map.empty" if "c_sem (hub_conns h ! c) = 0"
  proof (rule ext)
    fix i
    have "filter (\<lambda>x. k_conn x = c \<and> holds x) (hub_calls h) = []"
      using d(1) that by simp
    then have "\<not> holds (hub_calls h ! k)" if "k < length (hub_calls h)" "k_conn (hub_calls h ! k) = c" for k
      using that by (auto simp: filter_empty_conv)
    moreover have "holds x" if "registered x" for x
      using that by (auto simp: holds_def registered_def split: kphase.splits)
    ultimately show "c_pending (hub_conns h ! c) i = Map.empty i"
      using d(4) by (cases "c_pending (hub_conns h ! c) i") auto
  qed
  ultimately show ?thesis
    using d(1,2) by simp
qed

theorem relay_in_flight_witness: "c_sem (hub_conns demo_waiting ! 0) = 1 \<and> c_sem (hub_conns demo_waiting ! 0) \<le> 2"
  using relay_in_flight [OF demo_waiting_reach, of 0] by (simp add: demo_hub_simps)

text \<open>
  C16. Closing a connection releases its callers: once \<^verbatim>\<open>done\<close> is closed, every call on the
  connection that has not returned can take a step of its own, without its context being cancelled
  and without the device; every step of a call brings it closer to its return, and no step of
  anybody else sets it back, so that it returns after at most six steps of its own.
\<close>

theorem closed_connection_releases_calls:
  assumes "hub_reach n h" and "k < length (hub_calls h)"
    and "c_phase (hub_conns h ! k_conn (hub_calls h ! k)) \<noteq> Open"
  shows "(rank (hub_calls h ! k) \<noteq> 0 \<longrightarrow> (\<exists>h'. call_step False k h h')) \<and>
    (\<forall>ctx h'. call_step ctx k h h' \<longrightarrow> rank (hub_calls h' ! k) < rank (hub_calls h ! k)) \<and>
    (\<forall>h'. hub_step h h' \<longrightarrow> rank (hub_calls h' ! k) \<le> rank (hub_calls h ! k) \<and>
       c_phase (hub_conns h' ! k_conn (hub_calls h' ! k)) \<noteq> Open) \<and>
    rank (hub_calls h ! k) \<le> 6"
proof (intro conjI allI impI)
  let ?x = "hub_calls h ! k"
  assume "rank ?x \<noteq> 0"
  then show "\<exists>h'. call_step False k h h'"
    using assms(3) by (cases "k_phase ?x") (auto simp: rank_def intro: call_step.intros)
next
  fix ctx h' assume "call_step ctx k h h'"
  then show "rank (hub_calls h' ! k) < rank (hub_calls h ! k)"
    using call_step_rank assms(2) by blast
next
  fix h' assume st: "hub_step h h'"
  then show "rank (hub_calls h' ! k) \<le> rank (hub_calls h ! k)"
    using hub_step_rank assms(2) by blast
  show "c_phase (hub_conns h' ! k_conn (hub_calls h' ! k)) \<noteq> Open"
    using hub_step_closed [OF st hub_inv_call(1) [OF hub_reach_inv [OF assms(1)] assms(2)] assms(3)]
    by (simp add: hub_step_conn [OF st assms(2)])
next
  show "rank (hub_calls h ! k) \<le> 6"
    by (simp add: rank_def split: kphase.splits)
qed

theorem closed_connection_releases_calls_witness:
  "\<exists>h'. call_step False 0 (disconnect ''d'' demo_waiting) h'"
proof -
  have "hub_reach 2 (disconnect ''d'' demo_waiting)"
    by (rule hub_next [OF demo_waiting_reach hub_disconnect])
  from closed_connection_releases_calls [OF this, of 0] show ?thesis
    by (simp add: demo_hub_simps disconnect_def close_done_def rank_def)
qed

text \<open>
  The hub shows a device only to its owner: \<^verbatim>\<open>Call\<close> for a subject is refused with the one
  error \<^verbatim>\<open>ErrOffline\<close>, leaving no trace, exactly when \<^verbatim>\<open>IsOnline\<close> is false for that
  subject, be it that the device is not connected or that it belongs to someone else; and a
  connection is in the hub only under its own device id and until its \<^verbatim>\<open>close\<close> has removed it.
\<close>

theorem relay_hides_foreign_devices:
  assumes "hub_reach n h"
  shows "(if is_online h owner did
          then \<exists>c. hub_devices h did = Some c \<and> dev_id (c_device (hub_conns h ! c)) = did \<and>
            owner_subject (c_device (hub_conns h ! c)) = owner \<and>
            c_phase (hub_conns h ! c) \<in> {Open, DoneClosed} \<and>
            fst (call_enter owner did tool args h) = Inr (length (hub_calls h))
          else call_enter owner did tool args h = (Inl Offline, h))"
  using hub_inv_link [OF hub_reach_inv [OF assms]]
  by (auto simp: is_online_def call_enter_def split: option.splits)

theorem relay_hides_foreign_devices_witness:
  "call_enter ''mallory'' ''d'' ''read_file'' ''{}'' demo_waiting = (Inl Offline, demo_waiting)"
  using relay_hides_foreign_devices [OF demo_waiting_reach, of "''mallory''" "''d''" "''read_file''" "''{}''"]
  by (simp add: demo_hub_simps is_online_def)

end
