(* ===== verification/ControlPlane.thy ===== *)
theory ControlPlane
  imports Limiter Authn Handshake Relay
begin

text \<open>
  The HTTP interface for pairing and devices (\<^verbatim>\<open>internal/controlplane/http.go\<close>). A handler is a
  function from the request and the state of the server (store, hub, limiters) to the reply and the
  new state. A request body is \<open>None\<close> when it does not decode (not JSON, unknown fields, no value within
  64 KiB); theory \<open>HttpMessages\<close> reads it from the text, and \<open>Routes\<close> puts the handlers behind their routes. \<open>clk i\<close> is the \<open>i\<close>-th time the handler reads the clock; random bytes, the keyed hash
  \<open>mac\<close>, SHA-256 and the Unicode upper-case table \<open>uni\<close> are arguments.
\<close>

section \<open>Definitions\<close>

record control =
  cp_store :: memory
  cp_hub :: hub
  pair_limiter :: ip_limiter
  token_limiter :: ip_limiter
  base_url :: string
  allowed_origins :: "string list"
  pairing_secret :: bytes

record pairing_started =
  ps_device_code :: string
  ps_user_code :: string
  ps_verification_uri :: string
  ps_verification_uri_complete :: string
  ps_expires_in :: int
  ps_interval :: int

record api_device =
  ad_id :: string
  ad_name :: string
  ad_online :: bool
  ad_last_seen_at :: "time option"
  ad_created_at :: time

datatype body =
    ErrorBody string string
  | PairingStarted pairing_started
  | Approved
  | TokenIssued string string
  | Devices "api_device list"
  | PlainText string
  | Upgraded string
  | NoBody

record reply =
  status :: nat
  body :: body

definition write_error :: "nat \<Rightarrow> string \<Rightarrow> string \<Rightarrow> reply" where
  "write_error st code msg = \<lparr>status = st, body = ErrorBody code msg\<rparr>"

definition new_control :: "memory \<Rightarrow> hub \<Rightarrow> string \<Rightarrow> string list \<Rightarrow> bytes \<Rightarrow> control" where
  "new_control st h baseURL origins sec =
     \<lparr>cp_store = st, cp_hub = h, pair_limiter = new_ip_limiter (1 / 5) 5, token_limiter = new_ip_limiter 1 10,
      base_url = trim_right_slash baseURL, allowed_origins = map trim_right_slash origins, pairing_secret = sec\<rparr>"

subsection \<open>Codes\<close>

definition random_secret :: "bytes option \<Rightarrow> string option" where
  "random_secret src = map_option b64url_encode src"

definition random_device_id :: "bytes option \<Rightarrow> string option" where
  "random_device_id src = map_option (\<lambda>b. ''dev_'' @ hex_encode b) src"

definition code_alphabet :: string where
  "code_alphabet = ''ABCDEFGHJKLMNPQRSTUVWXYZ23456789''"

definition human_code :: "bytes option \<Rightarrow> string option" where
  "human_code src =
     map_option (\<lambda>r. let b = map (\<lambda>x. code_alphabet ! (unat x mod length code_alphabet)) r
                     in take 4 b @ ''-'' @ drop 4 b) src"

definition normalize_user_code :: "(string \<Rightarrow> string) \<Rightarrow> string \<Rightarrow> string" where
  "normalize_user_code uni s =
     filter (\<lambda>c. c \<noteq> CHR '' '') (filter (\<lambda>c. c \<noteq> CHR ''-'') (to_upper uni (trim_space s)))"

definition hash_user_code ::
  "(bytes \<Rightarrow> bytes \<Rightarrow> bytes) \<Rightarrow> (string \<Rightarrow> string) \<Rightarrow> bytes \<Rightarrow> string \<Rightarrow> string" where
  "hash_user_code mac uni sec code = hex_encode (mac sec (bytes_of_string (normalize_user_code uni code)))"

text \<open>\<^verbatim>\<open>url.QueryEscape\<close>.\<close>

definition upper_hex :: string where
  "upper_hex = ''0123456789ABCDEF''"

definition unreserved :: "char \<Rightarrow> bool" where
  "unreserved c = (c \<in> set (''abcdefghijklmnopqrstuvwxyzABCDEFGHIJKLMNOPQRSTUVWXYZ0123456789-_.~''))"

definition query_escape :: "string \<Rightarrow> string" where
  "query_escape s = concat (map (\<lambda>c.
     if unreserved c then [c] else if c = CHR '' '' then ''+''
     else [CHR ''%'', upper_hex ! (of_char c div 16), upper_hex ! (of_char c mod 16)]) s)"

subsection \<open>Handlers\<close>

definition require_user ::
  "(string \<Rightarrow> autherr + identity) \<Rightarrow> string \<Rightarrow> string \<Rightarrow> (identity \<Rightarrow> control \<Rightarrow> reply \<times> control) \<Rightarrow>
   control \<Rightarrow> reply \<times> control" where
  "require_user verify authorization scope next s =
     (case bearer_token authorization of
        None \<Rightarrow> (write_error 401 ''unauthorized'' ''missing bearer token'', s)
      | Some token \<Rightarrow>
        (case require verify token scope of
           Inl e \<Rightarrow> (write_error (if e = InsufficientScope then 403 else 401) ''unauthorized'' ''access denied'', s)
         | Inr i \<Rightarrow> next i s))"

definition start_pairing ::
  "(bytes \<Rightarrow> bytes) \<Rightarrow> (bytes \<Rightarrow> bytes \<Rightarrow> bytes) \<Rightarrow> (string \<Rightarrow> string) \<Rightarrow> (nat \<Rightarrow> time) \<Rightarrow> string \<Rightarrow> string option \<Rightarrow>
   bytes option \<Rightarrow> bytes option \<Rightarrow> control \<Rightarrow> reply \<times> control" where
  "start_pairing sha256 mac uni clk remoteAddr req rand32 rand8 s0 =
     (case allow (pair_limiter s0) remoteAddr ''pair-start'' (clk 0) of
        (False, l) \<Rightarrow> (write_error 429 ''rate_limited'' ''too many pairing attempts'', s0\<lparr>pair_limiter := l\<rparr>)
      | (True, l) \<Rightarrow>
        (let s = s0\<lparr>pair_limiter := l\<rparr>
         in case req of
              None \<Rightarrow> (write_error 400 ''invalid_json'' ''invalid request body'', s)
            | Some rawName \<Rightarrow>
              (let deviceName = trim_space rawName
               in if deviceName = [] \<or> length deviceName > 160
                  then (write_error 400 ''invalid_arguments'' ''device_name is required and must be <= 160 bytes'', s)
                  else
                    (case (random_secret rand32, human_code rand8) of
                       (Some deviceCode, Some userCode) \<Rightarrow>
                         (let p = \<lparr>device_code_hash = hash_secret sha256 deviceCode,
                                   user_code_hash = hash_user_code mac uni (pairing_secret s) userCode,
                                   device_name = deviceName, expires_at = clk 1 + 600 * second,
                                   pair_owner = [], approved_at = None, consumed_at = None\<rparr>;
                              verify = base_url s @ ''/pair''
                          in case create_pairing p (cp_store s) of
                               (Inl e, m) \<Rightarrow> (write_error 500 ''internal_error'' ''could not create pairing'', s\<lparr>cp_store := m\<rparr>)
                             | (Inr u, m) \<Rightarrow>
                               (\<lparr>status = 201, body = PairingStarted
                                   \<lparr>ps_device_code = deviceCode, ps_user_code = userCode, ps_verification_uri = verify,
                                    ps_verification_uri_complete = verify @ ''?user_code='' @ query_escape userCode,
                                    ps_expires_in = 600, ps_interval = 3\<rparr>\<rparr>,
                                s\<lparr>cp_store := m\<rparr>))
                     | _ \<Rightarrow> (write_error 500 ''internal_error'' ''could not create pairing'', s)))))"

definition approve_handler ::
  "(bytes \<Rightarrow> bytes \<Rightarrow> bytes) \<Rightarrow> (string \<Rightarrow> string) \<Rightarrow> (nat \<Rightarrow> time) \<Rightarrow> string \<Rightarrow> string option \<Rightarrow> identity \<Rightarrow> control \<Rightarrow>
   reply \<times> control" where
  "approve_handler mac uni clk remoteAddr req i s0 =
     (case allow (pair_limiter s0) remoteAddr ''pair-approve'' (clk 0) of
        (False, l) \<Rightarrow> (write_error 429 ''rate_limited'' ''too many pairing attempts'', s0\<lparr>pair_limiter := l\<rparr>)
      | (True, l) \<Rightarrow>
        (let s = s0\<lparr>pair_limiter := l\<rparr>
         in case req of
              None \<Rightarrow> (write_error 400 ''invalid_json'' ''invalid request body'', s)
            | Some userCode \<Rightarrow>
              (let code = normalize_user_code uni userCode
               in if length code \<noteq> 8 then (write_error 400 ''invalid_arguments'' ''invalid user_code'', s)
                  else
                    (case approve_pairing (clk 1) (hash_user_code mac uni (pairing_secret s) code) (subject i) (cp_store s) of
                       (Inl e, m) \<Rightarrow>
                         (if e = PairingExpired then write_error 410 ''expired_token'' ''pairing expired''
                          else if e = PairingUsed then write_error 410 ''invalid_grant'' ''pairing already used''
                          else write_error 404 ''not_found'' ''pairing not found'', s\<lparr>cp_store := m\<rparr>)
                     | (Inr u, m) \<Rightarrow> (\<lparr>status = 200, body = Approved\<rparr>, s\<lparr>cp_store := m\<rparr>)))))"

definition new_device :: "string \<Rightarrow> device" where
  "new_device did = \<lparr>dev_id = did, owner_subject = [], dev_name = [], created_at = 0, last_seen_at = None,
     revoked_at = None, online = False\<rparr>"

definition consume_handler ::
  "(bytes \<Rightarrow> bytes) \<Rightarrow> (nat \<Rightarrow> time) \<Rightarrow> string \<Rightarrow> string option \<Rightarrow> bytes option \<Rightarrow> bytes option \<Rightarrow> control \<Rightarrow>
   reply \<times> control" where
  "consume_handler sha256 clk remoteAddr req rand16 rand32 s0 =
     (case allow (token_limiter s0) remoteAddr ''pair-token'' (clk 0) of
        (False, l) \<Rightarrow> (write_error 429 ''slow_down'' ''polling too quickly'', s0\<lparr>token_limiter := l\<rparr>)
      | (True, l) \<Rightarrow>
        (let s = s0\<lparr>token_limiter := l\<rparr>
         in case req of
              None \<Rightarrow> (write_error 400 ''invalid_json'' ''invalid request body'', s)
            | Some deviceCode \<Rightarrow>
              if length deviceCode < 32 \<or> length deviceCode > 256
              then (write_error 400 ''invalid_arguments'' ''invalid device_code'', s)
              else
                (case (random_device_id rand16, random_secret rand32) of
                   (Some deviceID, Some deviceToken) \<Rightarrow>
                     (case consume_pairing sha256 (clk 1) (hash_secret sha256 deviceCode) (new_device deviceID)
                             deviceToken (cp_store s) of
                        (Inl e, m) \<Rightarrow>
                          (if e = PairingPending then write_error 428 ''authorization_pending'' ''pairing has not been approved yet''
                           else if e = PairingExpired then write_error 410 ''expired_token'' ''pairing expired''
                           else if e = PairingUsed then write_error 410 ''invalid_grant'' ''pairing already used''
                           else write_error 400 ''invalid_grant'' ''invalid device_code'', s\<lparr>cp_store := m\<rparr>)
                      | (Inr d, m) \<Rightarrow>
                        (\<lparr>status = 200, body = TokenIssued (dev_id d) deviceToken\<rparr>, s\<lparr>cp_store := m\<rparr>))
                 | _ \<Rightarrow> (write_error 500 ''internal_error'' ''could not issue credentials'', s))))"

definition list_handler :: "identity \<Rightarrow> control \<Rightarrow> reply \<times> control" where
  "list_handler i s =
     (\<lparr>status = 200, body = Devices (map (\<lambda>d.
        \<lparr>ad_id = dev_id d, ad_name = dev_name d, ad_online = is_online (cp_hub s) (subject i) (dev_id d),
         ad_last_seen_at = last_seen_at d, ad_created_at = created_at d\<rparr>) (list_devices (cp_store s) (subject i)))\<rparr>, s)"

definition revoke_handler :: "(nat \<Rightarrow> time) \<Rightarrow> string \<Rightarrow> identity \<Rightarrow> control \<Rightarrow> reply \<times> control" where
  "revoke_handler clk deviceID i s =
     (if deviceID = [] then (write_error 400 ''invalid_arguments'' ''device_id is required'', s)
      else (case revoke_device (clk 0) (subject i) deviceID (cp_store s) of
              (Inl e, m) \<Rightarrow> (write_error 404 ''not_found'' ''device not found'', s\<lparr>cp_store := m\<rparr>)
            | (Inr u, m) \<Rightarrow>
              (\<lparr>status = 204, body = NoBody\<rparr>, s\<lparr>cp_store := m, cp_hub := disconnect deviceID (cp_hub s)\<rparr>)))"

text \<open>
  \<^verbatim>\<open>agentConnect\<close>: the query parameter, the request, and what the connection does when it is
  taken over. A failed upgrade has been answered by nobody (\<open>NoBody\<close>).
\<close>

definition agent_connect ::
  "(bytes \<Rightarrow> bytes) \<Rightarrow> (bytes \<Rightarrow> bytes) \<Rightarrow> (nat \<Rightarrow> time) \<Rightarrow> hijack \<Rightarrow> string \<Rightarrow> http_request \<Rightarrow> control \<Rightarrow>
   reply \<times> control" where
  "agent_connect sha256 sha1 clk hj queryDevice r s =
     (let deviceID = trim_space queryDevice
      in case (deviceID, bearer_token (req_header r ''Authorization'')) of
           ([], _) \<Rightarrow> (write_error 401 ''unauthorized'' ''invalid device credentials'', s)
         | (_, None) \<Rightarrow> (write_error 401 ''unauthorized'' ''invalid device credentials'', s)
         | (_, Some token) \<Rightarrow>
           if trim_space (req_header r ''Origin'') \<noteq> []
           then (write_error 403 ''forbidden'' ''browser websocket origins are not accepted'', s)
           else (case authenticate_device sha256 (cp_store s) deviceID token of
                   Inl e \<Rightarrow> (write_error 401 ''unauthorized'' ''invalid device credentials'', s)
                 | Inr d \<Rightarrow>
                   (case upgrade sha1 hj r max_frame_bytes of
                      Inl e \<Rightarrow> (\<lparr>status = 0, body = NoBody\<rparr>, s)
                    | Inr (text, conn) \<Rightarrow>
                      (\<lparr>status = 101, body = Upgraded text\<rparr>,
                       s\<lparr>cp_store := snd (touch_device (clk 0) (dev_id d) (cp_store s)),
                         cp_hub := register d (cp_hub s)\<rparr>))))"

definition approved_page :: string where
  "approved_page = ''<!doctype html><meta charset=utf-8><title>Paired</title><p>Device approved. You may close this page.</p>''"

definition pair_approve_form ::
  "(bytes \<Rightarrow> bytes \<Rightarrow> bytes) \<Rightarrow> (string \<Rightarrow> string) \<Rightarrow> (string \<Rightarrow> autherr + identity) \<Rightarrow> (nat \<Rightarrow> time) \<Rightarrow> string \<Rightarrow>
   (string \<times> string) option \<Rightarrow> control \<Rightarrow> reply \<times> control" where
  "pair_approve_form mac uni verify clk remoteAddr form s0 =
     (case allow (pair_limiter s0) remoteAddr ''pair-form-approve'' (clk 0) of
        (False, l) \<Rightarrow> (\<lparr>status = 429, body = PlainText ''too many attempts''\<rparr>, s0\<lparr>pair_limiter := l\<rparr>)
      | (True, l) \<Rightarrow>
        (let s = s0\<lparr>pair_limiter := l\<rparr>
         in case form of
              None \<Rightarrow> (\<lparr>status = 400, body = PlainText ''bad request''\<rparr>, s)
            | Some (userCode, accessToken) \<Rightarrow>
              (case require verify accessToken ''orc:tools'' of
                 Inl e \<Rightarrow> (\<lparr>status = 401, body = PlainText ''invalid token or scope''\<rparr>, s)
               | Inr i \<Rightarrow>
                 (let code = normalize_user_code uni userCode
                  in if length code \<noteq> 8
                     then (\<lparr>status = 400, body = PlainText ''invalid or expired pairing code''\<rparr>, s)
                     else (case approve_pairing (clk 1) (hash_user_code mac uni (pairing_secret s) code) (subject i) (cp_store s) of
                             (Inl e, m) \<Rightarrow> (\<lparr>status = 400, body = PlainText ''invalid or expired pairing code''\<rparr>, s\<lparr>cp_store := m\<rparr>)
                           | (Inr u, m) \<Rightarrow> (\<lparr>status = 200, body = PlainText approved_page\<rparr>, s\<lparr>cp_store := m\<rparr>))))))"

text \<open>The origin check around the handlers, and the preflight answer; both return the allowed origin.\<close>

definition request_origin :: "string \<Rightarrow> string" where
  "request_origin header = trim_right_slash (trim_space header)"

definition cors :: "string \<Rightarrow> (control \<Rightarrow> reply \<times> control) \<Rightarrow> control \<Rightarrow> (reply \<times> string option) \<times> control" where
  "cors originHeader next s =
     (let origin = request_origin originHeader
      in if origin = [] then (case next s of (r, s') \<Rightarrow> ((r, None), s'))
         else if origin \<notin> set (allowed_origins s)
         then ((write_error 403 ''forbidden'' ''origin not allowed'', None), s)
         else (case next s of (r, s') \<Rightarrow> ((r, Some origin), s')))"

definition options_handler :: "string \<Rightarrow> control \<Rightarrow> reply \<times> string option" where
  "options_handler originHeader s =
     (let origin = request_origin originHeader
      in if origin = [] then (\<lparr>status = 204, body = NoBody\<rparr>, None)
         else if origin \<notin> set (allowed_origins s) then (write_error 403 ''forbidden'' ''origin not allowed'', None)
         else (\<lparr>status = 204, body = NoBody\<rparr>, Some origin))"

section \<open>Lemmas\<close>

lemma code_alphabet_facts:
  "length code_alphabet = 32"
  "c \<in> set code_alphabet \<Longrightarrow> of_char c < (128 :: nat) \<and> upper_char c = c \<and> upper_char (lower_char c) = c \<and>
     of_char (lower_char c) < (128 :: nat) \<and> visible c \<and> visible (lower_char c) \<and> c \<noteq> CHR ''-'' \<and> c \<noteq> CHR '' ''"
proof -
  show "length code_alphabet = 32" by code_simp
  have "list_all (\<lambda>c. of_char c < (128 :: nat) \<and> upper_char c = c \<and> upper_char (lower_char c) = c \<and>
     of_char (lower_char c) < (128 :: nat) \<and> visible c \<and> visible (lower_char c) \<and> c \<noteq> CHR ''-'' \<and> c \<noteq> CHR '' '') code_alphabet"
    by code_simp
  then show "c \<in> set code_alphabet \<Longrightarrow> of_char c < (128 :: nat) \<and> upper_char c = c \<and> upper_char (lower_char c) = c \<and>
     of_char (lower_char c) < (128 :: nat) \<and> visible c \<and> visible (lower_char c) \<and> c \<noteq> CHR ''-'' \<and> c \<noteq> CHR '' ''"
    by (simp add: list_all_iff)
qed

text \<open>A code as it is shown, and in any mixture of cases, normalizes to its eight characters.\<close>

lemma human_code_shape:
  assumes "human_code (Some r) = Some code" and "length r = 8"
  obtains b where "code = take 4 b @ ''-'' @ drop 4 b" and "length b = 8" and "set b \<subseteq> set code_alphabet"
proof -
  let ?b = "map (\<lambda>x. code_alphabet ! (unat x mod length code_alphabet)) r"
  have "set ?b \<subseteq> set code_alphabet"
    by (auto simp: code_alphabet_facts(1))
  with assms that [of ?b] show ?thesis by (simp add: human_code_def Let_def)
qed

lemma normalize_shape:
  assumes "length b = 8" and "set b \<subseteq> set code_alphabet" and "f = upper_char \<or> f = lower_char \<or> f = (\<lambda>c. c)"
  shows "normalize_user_code uni (map f (take 4 b @ ''-'' @ drop 4 b)) = b"
proof -
  let ?s = "map f (take 4 b @ ''-'' @ drop 4 b)"
  have fb: "of_char (f c) < (128 :: nat)" "upper_char (f c) = c" "visible (f c)" "c \<noteq> CHR ''-''" "c \<noteq> CHR '' ''"
    if "c \<in> set b" for c
    using code_alphabet_facts(2) [of c] that assms(2,3) by auto
  have dash: "f CHR ''-'' = CHR ''-''"
    using assms(3) by (auto simp: upper_char_def lower_char_def)
  have hl: "hd ?s = f (hd b)" "last ?s = f (last b)" "b \<noteq> []" "?s \<noteq> []"
    using assms(1) by (auto simp: hd_append hd_map last_map last_drop hd_take)
  have "trim_space ?s = ?s"
    unfolding hl using hl fb(3) by (intro trim_space_id) simp_all
  moreover have "is_ascii ?s"
    using fb(1) dash by (auto simp: is_ascii_def list_all_iff dest: in_set_takeD in_set_dropD)
  moreover have "map upper_char ?s = take 4 b @ ''-'' @ drop 4 b"
    using fb(2) dash by (auto simp: upper_char_def map_idI comp_def dest: in_set_takeD in_set_dropD intro!: map_idI)
  moreover have "filter (\<lambda>c. c \<noteq> CHR '' '') (filter (\<lambda>c. c \<noteq> CHR ''-'') (take 4 b @ ''-'' @ drop 4 b)) = b"
  proof -
    have "filter (\<lambda>c. c \<noteq> CHR ''-'' \<and> c \<noteq> CHR '' '') (take 4 b) = take 4 b"
      "filter (\<lambda>c. c \<noteq> CHR ''-'' \<and> c \<noteq> CHR '' '') (drop 4 b) = drop 4 b"
      using fb(4,5) by (auto intro!: filter_True dest: in_set_takeD in_set_dropD)
    then show ?thesis by simp
  qed
  ultimately show ?thesis
    by (simp add: normalize_user_code_def to_upper_def)
qed

lemma normalize_idem:
  assumes "length b = 8" and "set b \<subseteq> set code_alphabet"
  shows "normalize_user_code uni b = b"
proof -
  have fb: "of_char c < (128 :: nat)" "upper_char c = c" "visible c" "c \<noteq> CHR ''-''" "c \<noteq> CHR '' ''"
    if "c \<in> set b" for c
    using code_alphabet_facts(2) [of c] that assms(2) by auto
  have "b \<noteq> []" using assms(1) by auto
  then have "trim_space b = b"
    using fb(3) by (intro trim_space_id) simp_all
  moreover have "to_upper uni b = b"
    using fb(1,2) by (simp add: to_upper_def is_ascii_def list_all_iff map_idI)
  ultimately show ?thesis
    using fb(4,5) by (simp add: normalize_user_code_def filter_id_conv)
qed

text \<open>The pairing created for a code is found by anything that normalizes to the same characters.\<close>

lemma hash_user_code_typed:
  assumes "human_code (Some r) = Some code" and "length r = 8"
    and "normalize_user_code uni typed = normalize_user_code uni code"
  shows "length (normalize_user_code uni typed) = 8"
    "hash_user_code mac uni sec (normalize_user_code uni typed) = hash_user_code mac uni sec code"
proof -
  obtain b where b: "code = take 4 b @ ''-'' @ drop 4 b" "length b = 8" "set b \<subseteq> set code_alphabet"
    by (rule human_code_shape [OF assms(1,2)])
  have n: "normalize_user_code uni code = b"
    using normalize_shape [of b "\<lambda>c. c" uni] b by simp
  show "length (normalize_user_code uni typed) = 8" using assms(3) n b(2) by simp
  show "hash_user_code mac uni sec (normalize_user_code uni typed) = hash_user_code mac uni sec code"
    using assms(3) n normalize_idem [OF b(2,3), of uni] by (simp add: hash_user_code_def)
qed

lemma length_b64url: "length (b64url_encode bs) = (4 * length bs + 2) div 3"
  by (simp add: b64url_encode_def length_encode_raw)

lemma start_pairing_created:
  assumes "start_pairing sha256 mac uni clk remote req (Some r32) (Some r8) s0 = (\<lparr>status = 201, body = PairingStarted ps\<rparr>, s1)"
  obtains p m where "cp_store s1 = m" "create_pairing p (cp_store s0) = (Inr (), m)"
    "device_code_hash p = hash_secret sha256 (ps_device_code ps)"
    "user_code_hash p = hash_user_code mac uni (pairing_secret s1) (ps_user_code ps)"
    "expires_at p = clk 1 + 600 * second" "pair_owner p = []" "approved_at p = None" "consumed_at p = None"
    "human_code (Some r8) = Some (ps_user_code ps)" "ps_device_code ps = b64url_encode r32"
  using assms
  by (auto simp: start_pairing_def write_error_def random_secret_def Let_def split: prod.splits bool.splits option.splits
      sum.splits if_splits)

text \<open>The flow on the store.\<close>

lemma pairing_store_flow:
  assumes "create_pairing p m0 = (Inr (), m)" and "approved_at p = None" and "consumed_at p = None"
    and "t1 \<le> expires_at p" and "t2 \<le> expires_at p" and "t3 \<le> expires_at p"
    and "owner \<noteq> []" and "map_of (devices m0) did = None"
  obtains m2 m3 d where "\<And>x tok. consume_pairing sha256 t1 (device_code_hash p) x tok m = (Inl PairingPending, m)"
    and "approve_pairing t2 (user_code_hash p) owner m = (Inr (), m2)"
    and "consume_pairing sha256 t3 (device_code_hash p) (new_device did) token m2 = (Inr d, m3)"
    and "dev_id d = did" and "owner_subject d = owner" and "authenticate_device sha256 m3 did token = Inr d"
proof -
  have look: "map_of (pairings m) (device_code_hash p) = Some p" "map_of (user_code m) (user_code_hash p) = Some (device_code_hash p)"
    "devices m = devices m0"
    using assms(1) by (auto simp: create_pairing_def update_conv' split: if_splits)
  let ?p2 = "p\<lparr>pair_owner := owner, approved_at := Some t2\<rparr>"
  define m2 where "m2 = m\<lparr>pairings := AList.update (device_code_hash p) ?p2 (pairings m)\<rparr>"
  define d where "d = stamp t3 ((new_device did)\<lparr>owner_subject := owner, dev_name := device_name p\<rparr>)"
  have c0: "consume_pairing sha256 t1 (device_code_hash p) x tok m = (Inl PairingPending, m)" for x tok
    using look assms(2,3,4) by (simp add: consume_pairing_def)
  have ap: "approve_pairing t2 (user_code_hash p) owner m = (Inr (), m2)"
    using look assms(3,5) by (simp add: approve_pairing_def m2_def)
  obtain m3 where c1: "consume_pairing sha256 t3 (device_code_hash p) (new_device did) token m2 = (Inr d, m3)"
    using look assms(3,6-8)
    by (simp add: consume_pairing_def m2_def d_def update_conv' new_device_def Let_def)
  have "revoked_at (new_device did) = None" by (simp add: new_device_def)
  from mem.consume_auth [OF c1 this] have "authenticate_device sha256 m3 did token = Inr d"
    by (simp add: new_device_def)
  with that [OF c0 ap c1] show ?thesis by (simp add: d_def new_device_def)
qed

lemma approve_handler_ok:
  assumes "fst (allow (pair_limiter s) remote ''pair-approve'' (clk 0))" and "length (normalize_user_code uni typed) = 8"
    and "approve_pairing (clk 1) (hash_user_code mac uni (pairing_secret s) (normalize_user_code uni typed)) (subject i) (cp_store s) = (Inr u, m)"
  shows "\<exists>s2. approve_handler mac uni clk remote (Some typed) i s = (\<lparr>status = 200, body = Approved\<rparr>, s2) \<and>
    cp_store s2 = m \<and> token_limiter s2 = token_limiter s"
proof (cases "allow (pair_limiter s) remote ''pair-approve'' (clk 0)")
  case (Pair ok l)
  with assms show ?thesis by (auto simp: approve_handler_def Let_def)
qed

lemma consume_handler_ok:
  assumes "fst (allow (token_limiter s) remote ''pair-token'' (clk 0))" and "32 \<le> length code" and "length code \<le> 256"
    and "consume_pairing sha256 (clk 1) (hash_secret sha256 code) (new_device (''dev_'' @ hex_encode rid)) (b64url_encode rtok) (cp_store s) = (res, m)"
  shows "\<exists>s2. cp_store s2 = m \<and>
    (res = Inl PairingPending \<longrightarrow> status (fst (consume_handler sha256 clk remote (Some code) (Some rid) (Some rtok) s)) = 428) \<and>
    (\<forall>d. res = Inr d \<longrightarrow> consume_handler sha256 clk remote (Some code) (Some rid) (Some rtok) s =
       (\<lparr>status = 200, body = TokenIssued (dev_id d) (b64url_encode rtok)\<rparr>, s2))"
proof (cases "allow (token_limiter s) remote ''pair-token'' (clk 0)")
  case (Pair ok l)
  with assms have "consume_handler sha256 clk remote (Some code) (Some rid) (Some rtok) s =
    (case res of Inl e \<Rightarrow>
        (if e = PairingPending then write_error 428 ''authorization_pending'' ''pairing has not been approved yet''
         else if e = PairingExpired then write_error 410 ''expired_token'' ''pairing expired''
         else if e = PairingUsed then write_error 410 ''invalid_grant'' ''pairing already used''
         else write_error 400 ''invalid_grant'' ''invalid device_code'', s\<lparr>token_limiter := l, cp_store := m\<rparr>)
     | Inr d \<Rightarrow> (\<lparr>status = 200, body = TokenIssued (dev_id d) (b64url_encode rtok)\<rparr>, s\<lparr>token_limiter := l, cp_store := m\<rparr>))"
    by (cases res) (simp_all add: consume_handler_def random_device_id_def random_secret_def)
  then show ?thesis
    by (intro exI [of _ "s\<lparr>token_limiter := l, cp_store := m\<rparr>"]) (auto simp: write_error_def)
qed

section \<open>Properties\<close>

text \<open>
  C13. The pairing flow works end to end: a device that starts a pairing gets a code; before anyone
  approves it, polling answers 428; when a user types the code within its ten minutes, in any
  spelling with the same normal form, the approval is answered 200; the device then obtains a device
  id and a token, and with them the store authenticates it as a device of that user. (Requests that
  the rate limiters hold back aside, and provided the device id is new.)
\<close>

theorem pairing_flow:
  assumes start: "start_pairing sha256 mac uni clk1 remote1 req (Some r32) (Some r8) s0 =
      (\<lparr>status = 201, body = PairingStarted ps\<rparr>, s1)"
    and lens: "length r8 = 8" "length r32 = 32"
    and early: "fst (allow (token_limiter s1) remote2 ''pair-token'' (clk2 0))"
    and pl: "fst (allow (pair_limiter s1) remote3 ''pair-approve'' (clk3 0))"
    and tl: "fst (allow (token_limiter s1) remote4 ''pair-token'' (clk4 0))"
    and times: "clk2 1 \<le> clk1 1 + 600 * second" "clk3 1 \<le> clk1 1 + 600 * second" "clk4 1 \<le> clk1 1 + 600 * second"
    and user: "subject i \<noteq> []"
    and typed: "normalize_user_code uni typed = normalize_user_code uni (ps_user_code ps)"
    and fresh: "map_of (devices (cp_store s0)) (''dev_'' @ hex_encode rid) = None"
  shows "status (fst (consume_handler sha256 clk2 remote2 (Some (ps_device_code ps)) (Some rid) (Some rtok) s1)) = 428 \<and>
    (\<exists>s2 s3. approve_handler mac uni clk3 remote3 (Some typed) i s1 = (\<lparr>status = 200, body = Approved\<rparr>, s2) \<and>
      consume_handler sha256 clk4 remote4 (Some (ps_device_code ps)) (Some rid) (Some rtok) s2 =
        (\<lparr>status = 200, body = TokenIssued (''dev_'' @ hex_encode rid) (b64url_encode rtok)\<rparr>, s3) \<and>
      (\<exists>d. authenticate_device sha256 (cp_store s3) (''dev_'' @ hex_encode rid) (b64url_encode rtok) = Inr d \<and>
        owner_subject d = subject i))"
proof -
  obtain p m where m: "cp_store s1 = m" "create_pairing p (cp_store s0) = (Inr (), m)"
    and p: "device_code_hash p = hash_secret sha256 (ps_device_code ps)"
      "user_code_hash p = hash_user_code mac uni (pairing_secret s1) (ps_user_code ps)"
      "expires_at p = clk1 1 + 600 * second" "pair_owner p = []" "approved_at p = None" "consumed_at p = None"
    and codes: "human_code (Some r8) = Some (ps_user_code ps)" "ps_device_code ps = b64url_encode r32"
    by (rule start_pairing_created [OF start])
  obtain m2 m3 d where c0: "\<And>x tok. consume_pairing sha256 (clk2 1) (device_code_hash p) x tok m = (Inl PairingPending, m)"
    and ap: "approve_pairing (clk3 1) (user_code_hash p) (subject i) m = (Inr (), m2)"
    and c1: "consume_pairing sha256 (clk4 1) (device_code_hash p) (new_device (''dev_'' @ hex_encode rid)) (b64url_encode rtok) m2 = (Inr d, m3)"
    and d: "dev_id d = ''dev_'' @ hex_encode rid" "owner_subject d = subject i"
    and au: "authenticate_device sha256 m3 (''dev_'' @ hex_encode rid) (b64url_encode rtok) = Inr d"
    using pairing_store_flow [OF m(2) p(5,6), of "clk2 1" "clk3 1" "clk4 1" "subject i" "''dev_'' @ hex_encode rid" sha256 "b64url_encode rtok"]
      times user fresh p(3) by metis
  have len: "32 \<le> length (ps_device_code ps)" "length (ps_device_code ps) \<le> 256"
    using codes(2) lens(2) by (simp_all add: length_b64url)
  note ty = hash_user_code_typed [OF codes(1) lens(1) typed]
  obtain s2 where a2: "approve_handler mac uni clk3 remote3 (Some typed) i s1 = (\<lparr>status = 200, body = Approved\<rparr>, s2)"
    and s2: "cp_store s2 = m2" "token_limiter s2 = token_limiter s1"
    using approve_handler_ok [where clk = clk3, OF pl ty(1), of mac i "()" m2] ap m(1) ty(2) p(2) by auto
  have tl2: "fst (allow (token_limiter s2) remote4 ''pair-token'' (clk4 0))" using tl s2(2) by simp
  obtain s3 where a3: "consume_handler sha256 clk4 remote4 (Some (ps_device_code ps)) (Some rid) (Some rtok) s2 =
        (\<lparr>status = 200, body = TokenIssued (''dev_'' @ hex_encode rid) (b64url_encode rtok)\<rparr>, s3)" and s3: "cp_store s3 = m3"
    using consume_handler_ok [where clk = clk4, OF tl2 len, of sha256 rid rtok "Inr d" m3] c1 s2(1) p(1) d(1) by auto
  have "status (fst (consume_handler sha256 clk2 remote2 (Some (ps_device_code ps)) (Some rid) (Some rtok) s1)) = 428"
    using consume_handler_ok [where clk = clk2, OF early len, of sha256 rid rtok "Inl PairingPending" m] c0 m(1) p(1) by auto
  with a2 a3 s3 au d show ?thesis by blast
qed

definition demo_control :: control where
  "demo_control = new_control new_memory (new_hub 4) ''https://relay.example/'' [] [1, 2, 3]"

definition demo_identity :: identity where
  "demo_identity = \<lparr>subject = ''bob'', scopes = {''orc:tools''}, expiry = 10 ^ 20\<rparr>"

definition demo_started :: "reply \<times> control" where
  "demo_started = start_pairing (\<lambda>b. b) (\<lambda>k b. b) (\<lambda>x. x) (\<lambda>n. 5) ''10.0.0.1:1'' (Some ''laptop'')
     (Some (replicate 32 7)) (Some [0, 1, 2, 3, 4, 5, 6, 7]) demo_control"

theorem pairing_flow_witness:
  "\<exists>s2. approve_handler (\<lambda>k b. b) (\<lambda>x. x) (\<lambda>n. 9) ''10.0.0.2:1'' (Some ''abcd efgh'') demo_identity (snd demo_started) =
     (\<lparr>status = 200, body = Approved\<rparr>, s2)"
proof -
  have st: "start_pairing (\<lambda>b. b) (\<lambda>k b. b) (\<lambda>x. x) (\<lambda>n. 5) ''10.0.0.1:1'' (Some ''laptop'')
     (Some (replicate 32 7)) (Some [0, 1, 2, 3, 4, 5, 6, 7]) demo_control =
     (\<lparr>status = 201, body = PairingStarted (case body (fst demo_started) of PairingStarted ps \<Rightarrow> ps)\<rparr>, snd demo_started)"
  proof -
    have "status (fst demo_started) = 201 \<and> (case body (fst demo_started) of PairingStarted ps \<Rightarrow> True | _ \<Rightarrow> False)"
      by code_simp
    then have "fst demo_started = \<lparr>status = 201, body = PairingStarted (case body (fst demo_started) of PairingStarted ps \<Rightarrow> ps)\<rparr>"
      by (cases "fst demo_started") (auto split: body.splits)
    then show ?thesis unfolding demo_started_def by (metis prod.collapse)
  qed
  have n: "normalize_user_code (\<lambda>x. x) ''abcd efgh'' =
      normalize_user_code (\<lambda>x. x) (ps_user_code (case body (fst demo_started) of PairingStarted ps \<Rightarrow> ps))"
    by code_simp
  have l: "fst (allow (pair_limiter (snd demo_started)) ''10.0.0.2:1'' ''pair-approve'' 9)"
     "fst (allow (token_limiter (snd demo_started)) ''10.0.0.2:1'' ''pair-token'' 9)"
    by code_simp+
  have r: "length ([0, 1, 2, 3, 4, 5, 6, 7] :: bytes) = 8" "length (replicate 32 7 :: bytes) = 32"
    "(9 :: int) \<le> 5 + 600 * second" "subject demo_identity \<noteq> []"
    "map_of (devices (cp_store demo_control)) (''dev_'' @ hex_encode [1]) = None"
    by (simp_all add: demo_identity_def demo_control_def new_control_def new_memory_def)
  show ?thesis
    using pairing_flow [where ?clk2.0 = "\<lambda>n. 9" and ?clk3.0 = "\<lambda>n. 9" and ?clk4.0 = "\<lambda>n. 9" and rtok = "[2]",
        OF st r(1,2) l(2) l(1) l(2) r(3) r(3) r(3) r(4) n r(5)] by blast
qed

text \<open>
  C15. Revoking a device ends its access: when \<^verbatim>\<open>revokeDevice\<close> answers 204, the device's current
  connection is being closed, and from then on, after any further operations on the store, a
  connection attempt under that device id is refused with any credentials and changes nothing.
\<close>

theorem revoked_device_is_cut_off:
  assumes "revoke_handler clk did i s = (\<lparr>status = 204, body = NoBody\<rparr>, s')" and "hub_inv (cp_hub s)"
    and "trim_space query = did"
  shows "(\<forall>c. hub_devices (cp_hub s') did = Some c \<longrightarrow> c_phase (hub_conns (cp_hub s') ! c) \<noteq> Open) \<and>
    (let s'' = s'\<lparr>cp_store := run sha256 ops (cp_store s')\<rparr>; r = agent_connect sha256 sha1 clk' hj query req s''
     in snd r = s'' \<and> status (fst r) \<in> {401, 403})"
proof -
  from assms(1) obtain u m where rev: "revoke_device (clk 0) (subject i) did (cp_store s) = (Inr u, m)"
    and s': "s' = s\<lparr>cp_store := m, cp_hub := disconnect did (cp_hub s)\<rparr>"
    by (auto simp: revoke_handler_def write_error_def split: if_splits prod.splits sum.splits)
  have "c_phase (hub_conns (cp_hub s') ! c) \<noteq> Open" if "hub_devices (cp_hub s') did = Some c" for c
  proof -
    have c: "hub_devices (cp_hub s) did = Some c"
      using that s' by (auto simp: disconnect_def split: option.splits)
    with hub_inv_link(1) [OF assms(2) c] s' show ?thesis
      by (simp add: disconnect_def nth_upd_conn)
  qed
  moreover have "authenticate_device sha256 (run sha256 ops m) did token = Inl Unauthorized" for token
    using mem.revoked_forever [OF rev] by (simp add: run_performs)
  ultimately show ?thesis
    using s' assms(3) by (auto simp: agent_connect_def write_error_def Let_def split: list.splits option.splits)
qed

theorem revoked_device_is_cut_off_witness:
  "status (fst (agent_connect (\<lambda>b. b) (\<lambda>b. b) (\<lambda>n. 9) Hijacked ''dev_1'' \<lparr>req_method = ''GET'', req_header = (\<lambda>n. ''Bearer tok'')\<rparr>
     (snd (revoke_handler (\<lambda>n. 8) ''dev_1'' (demo_identity\<lparr>subject := ''alice''\<rparr>) (demo_control\<lparr>cp_store := demo_memory\<rparr>))))) \<in> {401, 403}"
proof -
  let ?s = "demo_control\<lparr>cp_store := demo_memory\<rparr>"
  let ?r = "revoke_handler (\<lambda>n. 8) ''dev_1'' (demo_identity\<lparr>subject := ''alice''\<rparr>) ?s"
  have r: "?r = (\<lparr>status = 204, body = NoBody\<rparr>, snd ?r)"
    by (simp add: revoke_handler_def demo_control_def new_control_def demo_memory_def demo_device_def run_def
        new_memory_def store_defs stamp_def)
  have i: "hub_inv (cp_hub ?s)" by (simp add: demo_control_def new_control_def new_hub_inv)
  have t: "trim_space ''dev_1'' = ''dev_1''" by code_simp
  show ?thesis
    using revoked_device_is_cut_off [OF r i t, of "\<lambda>b. b" "[]"] by (simp add: Let_def)
qed

end
