(* ===== verification/McpServer.thy ===== *)
theory McpServer
  imports McpTools AuditWriter ControlPlane
begin

text \<open>
  The MCP endpoint (\<^verbatim>\<open>internal/mcpserver/server.go\<close>): one HTTP handler that authenticates a request,
  checks its JSON-RPC form and its protocol headers, and answers it or relays a tool call to a
  device. The handler is cut at \<^verbatim>\<open>hub.Call\<close>: up to there it is a function of the request, the store and
  the hub, with a reply or a call to relay as its value; from there on it is a function of what the
  hub returned, with the reply and the audit event it records.

  Decoding and encoding JSON and the quoting of strings in messages are arguments (\<open>codec\<close>; theory \<open>McpText\<close> has the codec of the program), as are
  the texts of errors that come from the network and the duration of a call. The store is seen
  through the two operations that the endpoint uses.
\<close>

section \<open>Definitions\<close>

record rpc_request =
  rq_jsonrpc :: string
  rq_id :: string
  rq_method :: string
  rq_params :: string

record rpc_error =
  re_code :: int
  re_message :: string

record rpc_response =
  rs_jsonrpc :: string
  rs_id :: string
  rs_result :: "json option"
  rs_error :: "rpc_error option"

datatype mcp_body = MEmpty | MText string | MJson json | MRpc rpc_response

record mcp_reply =
  mr_status :: nat
  mr_headers :: "(string \<times> string) list"
  mr_body :: mcp_body

text \<open>
  What \<^verbatim>\<open>json.Unmarshal\<close> makes of a text: a request, the protocol version in the metadata (empty when
  there is none), the version of \<^verbatim>\<open>initialize\<close>, the name and the arguments of a tool call, a string
  (left empty when the text is not one), any value.
\<close>

record codec =
  cd_request :: "bytes \<Rightarrow> rpc_request option"
  cd_meta_version :: "string \<Rightarrow> string"
  cd_init_version :: "string \<Rightarrow> string"
  cd_name :: "string \<Rightarrow> string"
  cd_call :: "string \<Rightarrow> (string \<times> (string \<times> string) list) option"
  cd_string :: "string \<Rightarrow> string"
  cd_value :: "string \<Rightarrow> json option"
  cd_encode :: "json \<Rightarrow> string"
  cd_quote :: "string \<Rightarrow> string"
  cd_lower :: "string \<Rightarrow> string"
  cd_error :: "relayerr \<Rightarrow> string"

record store_view =
  sv_get :: "string \<Rightarrow> string \<Rightarrow> storeerr + device"
  sv_list :: "string \<Rightarrow> storeerr + device list"

definition memory_view :: "memory \<Rightarrow> store_view" where
  "memory_view m = \<lparr>sv_get = get_device m, sv_list = (\<lambda>owner. Inr (list_devices m owner))\<rparr>"

text \<open>A call that is handed to the hub.\<close>

record tool_call =
  tc_owner :: string
  tc_device :: string
  tc_tool :: string
  tc_payload :: "(string \<times> json) list"
  tc_id :: string
  tc_modern :: bool

definition modern_version :: string where "modern_version = ''2026-07-28''"
definition legacy_version :: string where "legacy_version = ''2025-11-25''"
definition server_version :: string where "server_version = ''0.1.0''"
definition tool_scope :: string where "tool_scope = ''orc:tools''"
definition max_body :: int where "max_body = 4194304"

definition meta_key :: string where
  "meta_key = ''io.modelcontextprotocol/protocolVersion''"

definition rpc_write :: "nat \<Rightarrow> string \<Rightarrow> json option \<Rightarrow> rpc_error option \<Rightarrow> mcp_reply" where
  "rpc_write st rid res err =
     \<lparr>mr_status = st, mr_headers = [(''Content-Type'', ''application/json''), (''Cache-Control'', ''no-store'')],
      mr_body = MRpc \<lparr>rs_jsonrpc = ''2.0'', rs_id = rid, rs_result = res, rs_error = err\<rparr>\<rparr>"

definition rpc_fail :: "nat \<Rightarrow> string \<Rightarrow> int \<Rightarrow> string \<Rightarrow> mcp_reply" where
  "rpc_fail st rid code msg = rpc_write st rid None (Some \<lparr>re_code = code, re_message = msg\<rparr>)"

definition tool_result :: "codec \<Rightarrow> string \<Rightarrow> string + json \<Rightarrow> bool \<Rightarrow> mcp_reply" where
  "tool_result cd rid r modern =
     rpc_write 200 rid (Some (JObj ((if modern then [(''resultType'', JStr ''complete'')] else []) @
       (case r of
          Inl e \<Rightarrow> [(''content'', JArr [JObj [(''type'', JStr ''text''), (''text'', JStr e)]]), (''isError'', JBool True)]
        | Inr v \<Rightarrow> [(''content'', JArr [JObj [(''type'', JStr ''text''), (''text'', JStr (cd_encode cd v))]]),
                    (''structuredContent'', v)])))) None"

definition http_error :: "nat \<Rightarrow> string \<Rightarrow> mcp_reply" where
  "http_error st msg =
     \<lparr>mr_status = st, mr_headers = [(''Content-Type'', ''text/plain; charset=utf-8''), (''X-Content-Type-Options'', ''nosniff'')],
      mr_body = MText msg\<rparr>"

text \<open>The characters of the challenge are given by their codes where they are quotes.\<close>

definition unauthorized :: "string \<Rightarrow> mcp_reply" where
  "unauthorized url =
     \<lparr>mr_status = 401,
      mr_headers = [(''WWW-Authenticate'', ''Bearer resource_metadata='' @ [CHR 0x22] @ url @ [CHR 0x22]), (''Content-Type'', ''application/json'')],
      mr_body = MJson (JObj [(''error'', JStr ''unauthorized'')])\<rparr>"

definition mcp_identity :: "(string \<Rightarrow> autherr + identity) \<Rightarrow> string \<Rightarrow> http_request \<Rightarrow> mcp_reply + identity" where
  "mcp_identity verify url r =
     (case bearer_token (req_header r ''Authorization'') of
        None \<Rightarrow> Inl (unauthorized url)
      | Some token \<Rightarrow> (case require verify token tool_scope of Inl e \<Rightarrow> Inl (unauthorized url) | Inr i \<Rightarrow> Inr i))"

definition validate_protocol_headers :: "codec \<Rightarrow> http_request \<Rightarrow> rpc_request \<Rightarrow> string + bool" where
  "validate_protocol_headers cd r req =
     (let headerVersion = trim_space (req_header r ''MCP-Protocol-Version'');
          metaVersion = (if rq_params req \<noteq> [] \<and> rq_params req \<noteq> ''null'' then cd_meta_version cd (rq_params req) else []);
          discover = (rq_method req = ''server/discover'');
          modern = (discover \<or> headerVersion = modern_version \<or> metaVersion = modern_version)
      in bindE (ensure (headerVersion = [] \<or> headerVersion = modern_version \<or> headerVersion = legacy_version)
                  (''unsupported protocol version '' @ cd_quote cd headerVersion)) (\<lambda>_.
         bindE (if modern \<and> \<not> discover then
                  bindE (ensure (headerVersion \<noteq> []) ''MCP-Protocol-Version header is required for modern requests'') (\<lambda>_.
                  bindE (ensure (metaVersion \<noteq> []) (''modern requests require _meta '' @ meta_key)) (\<lambda>_.
                    ensure (headerVersion = metaVersion) ''protocol version header does not match request metadata''))
                else Inr ()) (\<lambda>_.
         bindE (let hm = trim_space (req_header r ''Mcp-Method'')
                in ensure (hm = [] \<or> hm = rq_method req)
                     (''Mcp-Method '' @ cd_quote cd hm @ '' does not match request method '' @ cd_quote cd (rq_method req))) (\<lambda>_.
         bindE (if rq_method req = ''tools/call'' then
                  (let hn = trim_space (req_header r ''Mcp-Name''); name = cd_name cd (rq_params req)
                   in ensure (hn = [] \<or> hn = name) (''Mcp-Name '' @ cd_quote cd hn @ '' does not match tool '' @ cd_quote cd name))
                else Inr ()) (\<lambda>_.
           Inr modern)))))"

text \<open>\<^verbatim>\<open>callTool\<close>, up to the call of the hub.\<close>

definition decode_payload :: "codec \<Rightarrow> (string \<times> string) list \<Rightarrow> (string \<times> json) list option" where
  "decode_payload cd args = those (map (\<lambda>(k, raw). map_option (Pair k) (cd_value cd raw)) args)"

definition call_tool ::
  "codec \<Rightarrow> store_view \<Rightarrow> hub \<Rightarrow> rpc_request \<Rightarrow> identity \<Rightarrow> bool \<Rightarrow> mcp_reply + tool_call" where
  "call_tool cd st h req i modern =
     (case cd_call cd (rq_params req) of
        None \<Rightarrow> Inl (rpc_fail 400 (rq_id req) (-32602) ''invalid tool call parameters'')
      | Some (name, args) \<Rightarrow>
        if name = [] then Inl (rpc_fail 400 (rq_id req) (-32602) ''invalid tool call parameters'')
        else if name = ''list_devices'' then
          (case sv_list st (subject i) of
             Inl e \<Rightarrow> Inl (rpc_fail 500 (rq_id req) (-32603) ''internal error'')
           | Inr ds \<Rightarrow>
             Inl (tool_result cd (rq_id req) (Inr (JObj [(''devices'',
               JDevices (map (\<lambda>d. d\<lparr>online := is_online h (subject i) (dev_id d)\<rparr>) ds))])) modern))
        else if \<not> known_remote_tool name then Inl (rpc_fail 404 (rq_id req) (-32602) ''unknown tool'')
        else
          (let raw = (case map_of args ''device_id'' of None \<Rightarrow> [] | Some x \<Rightarrow> x);
               deviceID = (if raw \<noteq> [] then cd_string cd raw else [])
           in if trim_space deviceID = [] then Inl (rpc_fail 400 (rq_id req) (-32602) ''device_id is required'')
              else (case sv_get st (subject i) deviceID of
                      Inl e \<Rightarrow> Inl (tool_result cd (rq_id req) (Inl ''device offline or unavailable'') modern)
                    | Inr d \<Rightarrow>
                      (case decode_payload cd (AList.delete ''device_id'' args) of
                         None \<Rightarrow> Inl (rpc_fail 400 (rq_id req) (-32602) ''invalid arguments'')
                       | Some payload \<Rightarrow>
                         Inr \<lparr>tc_owner = subject i, tc_device = deviceID, tc_tool = name, tc_payload = payload,
                              tc_id = rq_id req, tc_modern = modern\<rparr>))))"

text \<open>\<^verbatim>\<open>callTool\<close>, from the return of the hub on.\<close>

definition audit_of :: "tool_call \<Rightarrow> string \<Rightarrow> duration \<Rightarrow> string \<Rightarrow> audit_event" where
  "audit_of c st dur code =
     \<lparr>ev_owner = tc_owner c, ev_device = tc_device c, ev_tool = tc_tool c, ev_status = st, ev_duration = dur, ev_error = code\<rparr>"

definition finish_call :: "codec \<Rightarrow> tool_call \<Rightarrow> duration \<Rightarrow> outcome \<Rightarrow> mcp_reply \<times> audit_event option" where
  "finish_call cd c dur r =
     (case r of
        Inl e \<Rightarrow>
          (tool_result cd (tc_id c) (Inl (cd_error cd e)) (tc_modern c),
           Some (if e = Offline then audit_of c ''offline'' dur ''device_offline''
                 else if e = CtxErr then audit_of c ''timeout'' dur ''timeout''
                 else audit_of c ''error'' dur []))
      | Inr res \<Rightarrow>
          (case r_error res of
             Some re \<Rightarrow>
               (tool_result cd (tc_id c) (Inl (err_code re @ '': '' @ err_message re)) (tc_modern c),
                Some (audit_of c ''error'' dur (err_code re)))
           | None \<Rightarrow>
               (if r_value res \<noteq> [] \<and> r_value res \<noteq> ''null'' then
                  (case cd_value cd (r_value res) of
                     None \<Rightarrow> (tool_result cd (tc_id c) (Inl ''invalid response from device'') (tc_modern c), None)
                   | Some out \<Rightarrow> (tool_result cd (tc_id c) (Inr out) (tc_modern c), Some (audit_of c ''ok'' dur [])))
                else (tool_result cd (tc_id c) (Inr (JObj [(''ok'', JBool True)])) (tc_modern c), Some (audit_of c ''ok'' dur [])))))"

text \<open>\<^verbatim>\<open>serveHTTP\<close>.\<close>

definition server_info :: json where
  "server_info = JObj [(''name'', JStr ''open-remote-commander''), (''version'', JStr server_version)]"

definition capabilities :: json where
  "capabilities = JObj [(''tools'', JObj [])]"

definition discovery :: json where
  "discovery =
     JObj [(''supportedVersions'', JArr [JStr modern_version, JStr legacy_version]), (''capabilities'', capabilities),
           (''instructions'', JStr ''Remote filesystem and process operations run only on paired devices.''),
           (''ttlMs'', JInt 60000), (''cacheScope'', JStr ''public''), (''resultType'', JStr ''complete''),
           (''_meta'', JObj [(''io.modelcontextprotocol/serverInfo'', server_info)])]"

definition dispatch_method ::
  "codec \<Rightarrow> store_view \<Rightarrow> hub \<Rightarrow> rpc_request \<Rightarrow> identity \<Rightarrow> bool \<Rightarrow> mcp_reply + tool_call" where
  "dispatch_method cd st h req i modern =
     (if rq_method req = ''server/discover'' then Inl (rpc_write 200 (rq_id req) (Some discovery) None)
      else if rq_method req = ''initialize'' then
        (let version = (if cd_init_version cd (rq_params req) = modern_version then modern_version else legacy_version)
         in Inl (rpc_write 200 (rq_id req) (Some (JObj [(''protocolVersion'', JStr version), (''capabilities'', capabilities),
              (''serverInfo'', server_info)])) None))
      else if rq_method req = ''ping'' then
        Inl (rpc_write 200 (rq_id req) (Some (JObj (if modern then [(''resultType'', JStr ''complete'')] else []))) None)
      else if rq_method req = ''tools/list'' then
        Inl (rpc_write 200 (rq_id req) (Some (JObj ((''tools'', JArr tool_definitions) #
          (if modern then [(''ttlMs'', JInt 60000), (''cacheScope'', JStr ''public''), (''resultType'', JStr ''complete'')] else [])))) None)
      else if rq_method req = ''tools/call'' then call_tool cd st h req i modern
      else Inl (rpc_fail 404 (rq_id req) (-32601) ''method not found''))"

definition serve_http ::
  "codec \<Rightarrow> (string \<Rightarrow> autherr + identity) \<Rightarrow> string \<Rightarrow> store_view \<Rightarrow> hub \<Rightarrow> http_request \<Rightarrow> bytes option \<Rightarrow> mcp_reply + tool_call" where
  "serve_http cd verify url st h r content =
     (if req_method r \<noteq> ''POST'' then Inl \<lparr>mr_status = 405, mr_headers = [(''Allow'', ''POST'')], mr_body = MEmpty\<rparr>
      else if \<not> prefix ''application/json'' (to_lower (cd_lower cd) (req_header r ''Content-Type''))
      then Inl (http_error 415 ''Content-Type must be application/json'')
      else bindE (mcp_identity verify url r) (\<lambda>i.
        (case content of
           None \<Rightarrow> Inl (rpc_fail 413 [] (-32600) ''request too large'')
         | Some b \<Rightarrow>
           if int (length b) > max_body then Inl (rpc_fail 413 [] (-32600) ''request too large'')
           else (case cd_request cd b of
                   None \<Rightarrow> Inl (rpc_fail 400 [] (-32700) ''parse error'')
                 | Some req \<Rightarrow>
                   if rq_jsonrpc req \<noteq> ''2.0'' \<or> rq_method req = [] then Inl (rpc_fail 400 (rq_id req) (-32600) ''invalid request'')
                   else (case validate_protocol_headers cd r req of
                           Inl e \<Rightarrow> Inl (rpc_fail 400 (rq_id req) (-32020) e)
                         | Inr modern \<Rightarrow>
                           if rq_id req = [] \<or> rq_id req = ''null'' then Inl \<lparr>mr_status = 202, mr_headers = [], mr_body = MEmpty\<rparr>
                           else dispatch_method cd st h req i modern)))))"

section \<open>Interface\<close>

text \<open>What the endpoint relies on of a store: a device is shown only to its owner, under its own id, until it is revoked.\<close>

locale owner_view =
  fixes sinv :: "'s \<Rightarrow> bool" and view :: "'s \<Rightarrow> store_view"
  assumes get_own: "sinv s \<Longrightarrow> sv_get (view s) owner did = Inr d \<Longrightarrow>
      dev_id d = did \<and> owner_subject d = owner \<and> revoked_at d = None"
    and list_own: "sinv s \<Longrightarrow> sv_list (view s) owner = Inr ds \<Longrightarrow> d \<in> set ds \<Longrightarrow> sv_get (view s) owner (dev_id d) = Inr d"
begin

lemma call_tool_relays:
  assumes "sinv s" and "call_tool cd (view s) h req i modern = Inr c"
  obtains d args where "sv_get (view s) (subject i) (tc_device c) = Inr d" "dev_id d = tc_device c"
    "owner_subject d = subject i" "revoked_at d = None" "tc_owner c = subject i"
    "cd_call cd (rq_params req) = Some (tc_tool c, args)" "known_remote_tool (tc_tool c)"
    "decode_payload cd (AList.delete ''device_id'' args) = Some (tc_payload c)"
    "tc_id c = rq_id req" "tc_modern c = modern" "trim_space (tc_device c) \<noteq> []"
  using assms(2) get_own [OF assms(1)]
  by (auto simp: call_tool_def Let_def split: option.splits prod.splits if_splits sum.splits)

lemma call_tool_lists:
  assumes "sinv s" and "cd_call cd (rq_params req) = Some (''list_devices'', args)" and "sv_list (view s) (subject i) = Inr ds"
  shows "call_tool cd (view s) h req i modern = Inl (tool_result cd (rq_id req) (Inr (JObj [(''devices'',
      JDevices (map (\<lambda>d. d\<lparr>online := is_online h (subject i) (dev_id d)\<rparr>) ds))])) modern) \<and>
    list_all (\<lambda>d. owner_subject d = subject i \<and> revoked_at d = None) ds"
  using assms(2,3) list_own [OF assms(1,3)] get_own [OF assms(1)] by (auto simp: call_tool_def list_all_iff)

end

section \<open>Lemmas\<close>

interpretation mem_view: owner_view mem_inv memory_view
proof (unfold_locales, goal_cases)
  case (1 s owner did d)
  with mem.get_sound show ?case by (simp add: memory_view_def)
next
  case (2 s owner ds d)
  then have "d \<in> set (list_devices s owner)" "distinct (map fst (devices s))" "\<And>i e. map_of (devices s) i = Some e \<Longrightarrow> dev_id (mdev e) = i"
    by (auto simp: memory_view_def mem_inv_def)
  then show ?case by (auto simp: list_devices_def memory_view_def get_device_def map_of_eq_Some_iff)
qed

lemma serve_http_relays:
  assumes "serve_http cd verify url st h r content = Inr c"
  obtains token i b req modern where "bearer_token (req_header r ''Authorization'') = Some token"
    "require verify token tool_scope = Inr i" "content = Some b" "int (length b) \<le> max_body" "cd_request cd b = Some req"
    "rq_method req = ''tools/call''" "validate_protocol_headers cd r req = Inr modern" "call_tool cd st h req i modern = Inr c"
    "req_method r = ''POST''"
  using assms
  by (auto simp: serve_http_def mcp_identity_def dispatch_method_def bindE_def Let_def not_less
      split: if_splits option.splits sum.splits)

lemma require_Inr: "require verify token scope = Inr i \<longleftrightarrow> verify token = Inr i \<and> (scope = [] \<or> scope \<in> scopes i)"
  by (auto simp: require_def has_scope_def split: sum.splits if_splits)

lemma validate_protocol_headers_iff:
  "validate_protocol_headers cd r req = Inr modern \<longleftrightarrow>
     (let hv = trim_space (req_header r ''MCP-Protocol-Version'');
          mv = (if rq_params req \<noteq> [] \<and> rq_params req \<noteq> ''null'' then cd_meta_version cd (rq_params req) else []);
          hm = trim_space (req_header r ''Mcp-Method''); hn = trim_space (req_header r ''Mcp-Name'')
      in hv \<in> {[], modern_version, legacy_version} \<and>
         (rq_method req \<noteq> ''server/discover'' \<longrightarrow> (hv = modern_version \<longleftrightarrow> mv = modern_version)) \<and>
         (hm = [] \<or> hm = rq_method req) \<and>
         (rq_method req = ''tools/call'' \<longrightarrow> hn = [] \<or> hn = cd_name cd (rq_params req)) \<and>
         modern = (rq_method req = ''server/discover'' \<or> hv = modern_version))"
  by (auto simp: validate_protocol_headers_def Let_def err_simps modern_version_def legacy_version_def split: if_splits)

lemma decode_payload_keys:
  assumes "decode_payload cd args = Some payload"
  shows "map fst payload = map fst args"
  using assms unfolding decode_payload_def
  by (induction args arbitrary: payload) (auto split: option.splits)

section \<open>Codecs\<close>

text \<open>
  What the endpoint relies on of the decoding: decoding the name alone finds the same name as decoding the name with the
  arguments.
\<close>

locale mcp_codec =
  fixes cd :: codec
  assumes alike: "cd_call cd p = Some (name, args) \<Longrightarrow> cd_name cd p = name"
begin

lemma relays_with_authority:
  assumes "mem_inv m" and "serve_http cd verify url (memory_view m) h r content = Inr c"
  shows "\<exists>token i b req d args. bearer_token (req_header r ''Authorization'') = Some token \<and> verify token = Inr i \<and>
    ''orc:tools'' \<in> scopes i \<and> req_method r = ''POST'' \<and> content = Some b \<and> int (length b) \<le> 4194304 \<and>
    tc_owner c = subject i \<and> get_device m (subject i) (tc_device c) = Inr d \<and> dev_id d = tc_device c \<and>
    owner_subject d = subject i \<and> revoked_at d = None \<and> tc_tool c \<in> set supported_tools \<and>
    trim_space (req_header r ''Mcp-Name'') \<in> {[], tc_tool c} \<and>
    cd_request cd b = Some req \<and> cd_call cd (rq_params req) = Some (tc_tool c, args) \<and>
    decode_payload cd (AList.delete ''device_id'' args) = Some (tc_payload c) \<and> ''device_id'' \<notin> set (map fst (tc_payload c))"
proof -
  obtain token i b req modern where rq: "bearer_token (req_header r ''Authorization'') = Some token"
    "require verify token tool_scope = Inr i" "content = Some b" "int (length b) \<le> max_body" "cd_request cd b = Some req"
    "rq_method req = ''tools/call''" "validate_protocol_headers cd r req = Inr modern"
    "call_tool cd (memory_view m) h req i modern = Inr c" "req_method r = ''POST''"
    by (rule serve_http_relays [OF assms(2)])
  obtain d args where call: "sv_get (memory_view m) (subject i) (tc_device c) = Inr d" "dev_id d = tc_device c"
    "owner_subject d = subject i" "revoked_at d = None" "tc_owner c = subject i"
    "cd_call cd (rq_params req) = Some (tc_tool c, args)" "known_remote_tool (tc_tool c)"
    "decode_payload cd (AList.delete ''device_id'' args) = Some (tc_payload c)"
    by (rule mem_view.call_tool_relays [OF assms(1) rq(8)])
  have "''device_id'' \<notin> set (map fst (tc_payload c))"
    unfolding decode_payload_keys [OF call(8)] by (simp add: delete_keys)
  moreover have "tc_tool c \<in> set supported_tools"
    using call(7) tool_tables(3) by (metis known_remote_tool_def set_sort)
  moreover have "trim_space (req_header r ''Mcp-Name'') \<in> {[], tc_tool c}"
    using rq(6,7) alike [OF call(6)] by (auto simp: validate_protocol_headers_iff Let_def)
  moreover have "verify token = Inr i" "''orc:tools'' \<in> scopes i" "get_device m (subject i) (tc_device c) = Inr d"
    using rq(2) call(1) by (auto simp: require_Inr tool_scope_def memory_view_def)
  ultimately show ?thesis
    using rq(1,3,4,5,9) call(2-6,8) unfolding max_body_def
    by (intro exI [of _ token] exI [of _ i] exI [of _ b] exI [of _ req] exI [of _ d] exI [of _ args] conjI)
qed

end

section \<open>Properties\<close>

definition tool_error :: "mcp_reply \<Rightarrow> bool" where
  "tool_error r \<longleftrightarrow> (case mr_body r of
     MRpc m \<Rightarrow> (case rs_result m of Some (JObj kvs) \<Rightarrow> map_of kvs ''isError'' = Some (JBool True) | _ \<Rightarrow> False) | _ \<Rightarrow> False)"

definition demo_codec :: codec where
  "demo_codec =
     \<lparr>cd_request = (\<lambda>b. if b = [] then None
        else Some \<lparr>rq_jsonrpc = ''2.0'', rq_id = ''1'', rq_method = ''tools/call'', rq_params = string_of_bytes b\<rparr>),
      cd_meta_version = (\<lambda>_. []), cd_init_version = (\<lambda>_. []), cd_name = (\<lambda>_. ''read_file''),
      cd_call = (\<lambda>p. Some (''read_file'', [(''device_id'', p), (''x'', ''1'')])), cd_string = (\<lambda>s. s),
      cd_value = (\<lambda>s. if s = [] then None else Some (JStr s)), cd_encode = (\<lambda>_. ''{}''), cd_quote = (\<lambda>s. s), cd_lower = (\<lambda>s. s),
      cd_error = (\<lambda>_. ''device offline'')\<rparr>"

definition demo_verify :: "string \<Rightarrow> autherr + identity" where
  "demo_verify token = (if token = ''t'' then Inr \<lparr>subject = ''alice'', scopes = {''orc:tools''}, expiry = 0\<rparr> else Inl InvalidToken)"

definition demo_http :: http_request where
  "demo_http = \<lparr>req_method = ''POST'', req_header = (\<lambda>k. if k = ''Authorization'' then ''Bearer t''
     else if k = ''Content-Type'' then ''application/json; charset=utf-8'' else if k = ''Mcp-Name'' then ''read_file'' else [])\<rparr>"

definition demo_alice_store :: memory where
  "demo_alice_store = snd (create_device (\<lambda>b. b) 5 demo_dev ''secret'' new_memory)"

text \<open>
  C7. A result that reaches the client comes from the client's own device. Let the endpoint relay a
  call through the hub, and let the hub go on in any way: if the call returns a result, it is the
  content of a valid result frame with the id of this call, read on the connection of the device
  that the request named, and that device belongs to the subject of the request's token.
\<close>

theorem mcp_answers_from_own_device:
  assumes "hub_reach n h0" and "serve_http cd verify url st h0 r content = Inr c"
    and "call_enter (tc_owner c) (tc_device c) (tc_tool c) (cd_encode cd (JObj (tc_payload c))) h0 = (Inr k, h1)"
    and "hub_step\<^sup>*\<^sup>* h1 h" and "k_phase (hub_calls h ! k) = KReturned (Inr res)"
  shows "\<exists>token i f. bearer_token (req_header r ''Authorization'') = Some token \<and> verify token = Inr i \<and>
    (let link = hub_conns h ! k_conn (hub_calls h ! k)
     in f \<in> set (c_in link) \<and> dev_id (c_device link) = tc_device c \<and> owner_subject (c_device link) = subject i \<and>
        f_type f = TypeResult \<and> validate f = Inr () \<and> f_id f = k_id (hub_calls h ! k) \<and>
        res = \<lparr>r_value = f_result f, r_error = f_error f\<rparr>)"
proof -
  obtain token i req modern where rq: "bearer_token (req_header r ''Authorization'') = Some token"
    "require verify token tool_scope = Inr i" "call_tool cd st h0 req i modern = Inr c"
    by (rule serve_http_relays [OF assms(2)])
  from rq(3) have own: "tc_owner c = subject i"
    by (auto simp: call_tool_def Let_def split: option.splits prod.splits if_splits sum.splits)
  note enter = call_enter_connects [OF assms(1,3)]
  then have steps: "k < length (hub_calls h)" "k_conn (hub_calls h ! k) = k_conn (hub_calls h1 ! k)"
    "c_device (hub_conns h ! k_conn (hub_calls h1 ! k)) = c_device (hub_conns h1 ! k_conn (hub_calls h1 ! k))" "hub_reach n h"
    using hub_steps_device [OF assms(4)] hub_reach_steps [OF assms(4)] by auto
  obtain f where "f \<in> set (c_in (hub_conns h ! k_conn (hub_calls h ! k)))" "f_type f = TypeResult" "validate f = Inr ()"
    "f_id f = k_id (hub_calls h ! k)" "res = \<lparr>r_value = f_result f, r_error = f_error f\<rparr>"
    using returned_answer [OF steps(4,1) assms(5)] by blast
  with steps rq own enter show ?thesis by (auto simp: require_Inr Let_def)
qed

theorem mcp_answers_from_own_device_witness:
  "\<exists>f\<in>set (c_in (hub_conns demo_returned ! 0)). f_result f = ''42'' \<and> owner_subject (c_device (hub_conns demo_returned ! 0)) = ''alice''"
proof -
  let ?h0 = "register demo_dev (new_hub 2)"
  let ?run = "serve_http demo_codec demo_verify ''u'' (memory_view demo_alice_store) ?h0 demo_http (Some (bytes_of_string ''d''))"
  have ev: "case ?run of Inl e \<Rightarrow> False | Inr c \<Rightarrow> tc_owner c = ''alice'' \<and> tc_device c = ''d'' \<and> tc_tool c = ''read_file''"
    by code_simp
  then obtain c where c: "?run = Inr c" "tc_owner c = ''alice''" "tc_device c = ''d''" "tc_tool c = ''read_file''"
    by (auto split: sum.splits)
  have "call_enter (tc_owner c) (tc_device c) (tc_tool c) (cd_encode demo_codec (JObj (tc_payload c))) ?h0 = (Inr 0, demo_entered)"
    unfolding c demo_entered_def by (simp add: demo_codec_def call_enter_def demo_hub_simps)
  from mcp_answers_from_own_device [OF hub_next [OF hub_init hub_register] c(1) this demo_returned_steps]
  have "\<exists>f. f \<in> set (c_in (hub_conns demo_returned ! 0)) \<and> f_result f = ''42''"
    by (auto simp: demo_hub_simps)
  moreover have "owner_subject (c_device (hub_conns demo_returned ! 0)) = ''alice''" by (simp add: demo_hub_simps)
  ultimately show ?thesis by blast
qed


end
