(* ===== verification/Config.thy ===== *)
theory Config
  imports Handshake PathPolicy
begin

text \<open>
  The configuration of the two programs (\<^verbatim>\<open>internal/config/config.go\<close>), read from environment variables.
  Arguments of the model: the environment, the user's home directory and the host name (\<open>None\<close> when
  the system has none), \<^verbatim>\<open>url.Parse\<close>, \<^verbatim>\<open>time.ParseDuration\<close>, the test whether a host is a loopback IP
  address, the Unicode lower-case table, and the file system, whose working directory \<^verbatim>\<open>filepath.Abs\<close> uses.
\<close>

section \<open>Definitions\<close>

record system =
  getenv :: "string \<Rightarrow> string"
  home_dir :: "string option"
  os_hostname :: "string option"
  on_windows :: bool
  parse_url :: "string \<Rightarrow> url option"
  parse_duration :: "string \<Rightarrow> duration option"
  ip_is_loopback :: "string \<Rightarrow> bool"
  lower_table :: "string \<Rightarrow> string"

record server_config =
  listen_addr :: string
  public_base_url :: string
  auth_mode :: string
  auth_audience :: string
  auth_issuer :: string
  hmac_secret :: string
  sc_pairing_secret :: string
  introspection_url :: string
  introspection_id :: string
  introspection_secret :: string
  database_url :: string
  neon_endpoint :: string
  origins :: "string list"
  in_flight :: int
  trust_loopback :: bool
  trusted_subject :: string

record agent_config =
  server_url :: string
  ac_device_id :: string
  agent_token :: string
  ac_device_name :: string
  allowed_roots :: "string list"
  max_processes :: int
  max_process_bytes :: int
  ac_max_runtime :: duration
  ac_allow_shell :: bool
  ac_allow_kill :: bool

definition env_var :: "system \<Rightarrow> string \<Rightarrow> string \<Rightarrow> string" where
  "env_var sy k fallback = (let v = trim_space (getenv sy k) in if v \<noteq> [] then v else fallback)"

definition env_int :: "system \<Rightarrow> string \<Rightarrow> int \<Rightarrow> int" where
  "env_int sy k fallback =
     (let v = trim_space (getenv sy k)
      in if v = [] then fallback else (case parse_int64 v of None \<Rightarrow> fallback | Some n \<Rightarrow> n))"

definition env_duration :: "system \<Rightarrow> string \<Rightarrow> duration \<Rightarrow> duration" where
  "env_duration sy k fallback =
     (let v = trim_space (getenv sy k)
      in if v = [] then fallback else (case parse_duration sy v of None \<Rightarrow> fallback | Some d \<Rightarrow> d))"

definition env_bool :: "system \<Rightarrow> string \<Rightarrow> bool \<Rightarrow> bool" where
  "env_bool sy k fallback =
     (let v = trim_space (to_lower (lower_table sy) (getenv sy k))
      in if v = [] then fallback
         else if v \<in> {''1'', ''true'', ''yes'', ''on''} then True
         else if v \<in> {''0'', ''false'', ''no'', ''off''} then False
         else fallback)"

definition trimmed_parts :: "char \<Rightarrow> string \<Rightarrow> string list" where
  "trimmed_parts sep v = filter (\<lambda>p. p \<noteq> []) (map trim_space (split_on sep v))"

definition split_csv :: "string \<Rightarrow> string list" where
  "split_csv v = trimmed_parts CHR '','' v"

definition split_path_list :: "bool \<Rightarrow> string \<Rightarrow> string list" where
  "split_path_list win v =
     (if trim_space v = [] then []
      else (let sep = (if win then CHR '';'' else CHR '':'');
                sep' = (if win \<and> CHR '','' \<in> set v \<and> sep \<notin> set v then CHR '','' else sep)
            in trimmed_parts sep' v))"

definition is_loopback_name :: "system \<Rightarrow> string \<Rightarrow> bool" where
  "is_loopback_name sy host \<longleftrightarrow> equal_fold host ''localhost'' \<or> ip_is_loopback sy host"

definition config_hostname :: "system \<Rightarrow> string" where
  "config_hostname sy = (case os_hostname sy of None \<Rightarrow> ''unnamed-device'' | Some h \<Rightarrow> if h = [] then ''unnamed-device'' else h)"

text \<open>The check that both programs make of the URL under which the server is reached.\<close>

definition check_base_url :: "system \<Rightarrow> string \<Rightarrow> string \<Rightarrow> goerror + unit" where
  "check_base_url sy name u =
     (case parse_url sy u of
        None \<Rightarrow> Inl (ErrMsg (''invalid '' @ name))
      | Some p \<Rightarrow>
        if url_host p = [] then Inl (ErrMsg (''invalid '' @ name))
        else ensure (scheme p = ''https'' \<or> scheme p = ''http'' \<and> is_loopback_name sy (url_hostname p))
               (ErrMsg (name @ '' must use https outside loopback'')))"

definition server_settings :: "system \<Rightarrow> server_config" where
  "server_settings sy =
     \<lparr>listen_addr = env_var sy ''ORC_LISTEN_ADDR'' ''127.0.0.1:8080'',
      public_base_url = trim_right_slash (env_var sy ''ORC_PUBLIC_BASE_URL'' ''http://127.0.0.1:8080''),
      auth_mode = env_var sy ''ORC_AUTH_MODE'' ''dev'',
      auth_audience = env_var sy ''ORC_AUTH_AUDIENCE'' ''http://127.0.0.1:8080/mcp'',
      auth_issuer = trim_right_slash (getenv sy ''ORC_AUTH_ISSUER''),
      hmac_secret = getenv sy ''ORC_HMAC_SECRET'',
      sc_pairing_secret = getenv sy ''ORC_PAIRING_SECRET'',
      introspection_url = getenv sy ''ORC_INTROSPECTION_URL'',
      introspection_id = getenv sy ''ORC_INTROSPECTION_CLIENT_ID'',
      introspection_secret = getenv sy ''ORC_INTROSPECTION_CLIENT_SECRET'',
      database_url = getenv sy ''DATABASE_URL'',
      neon_endpoint = getenv sy ''ORC_NEON_HTTP_ENDPOINT'',
      origins = split_csv (getenv sy ''ORC_ALLOWED_ORIGINS''),
      in_flight = env_int sy ''ORC_MAX_IN_FLIGHT_PER_DEVICE'' 16,
      trust_loopback = env_bool sy ''ORC_MCP_TRUST_LOOPBACK'' False,
      trusted_subject = trim_space (getenv sy ''ORC_MCP_TRUSTED_SUBJECT'')\<rparr>"

definition check_trust :: "system \<Rightarrow> server_config \<Rightarrow> goerror + unit" where
  "check_trust sy c =
     (if \<not> trust_loopback c then Inr ()
      else if trusted_subject c = []
      then Inl (ErrMsg ''ORC_MCP_TRUSTED_SUBJECT is required when ORC_MCP_TRUST_LOOPBACK=true'')
      else (case split_host_port (listen_addr c) of
              None \<Rightarrow> Inl (ErrMsg ''ORC_MCP_TRUST_LOOPBACK requires an explicit loopback ORC_LISTEN_ADDR'')
            | Some host \<Rightarrow>
              ensure (is_loopback_name sy host) (ErrMsg ''ORC_MCP_TRUST_LOOPBACK requires an explicit loopback ORC_LISTEN_ADDR'')))"

definition check_auth_mode :: "system \<Rightarrow> server_config \<Rightarrow> goerror + unit" where
  "check_auth_mode sy c =
     (if auth_mode c = ''dev'' then
        ensure (32 \<le> length (hmac_secret c)) (ErrMsg ''ORC_HMAC_SECRET must be at least 32 bytes in dev auth mode'')
      else if auth_mode c = ''introspection'' then
        (case parse_url sy (introspection_url c) of
           None \<Rightarrow> Inl (ErrMsg ''ORC_INTROSPECTION_URL must be an https URL'')
         | Some u \<Rightarrow>
           bindE (ensure (scheme u = ''https'' \<and> url_host u \<noteq> []) (ErrMsg ''ORC_INTROSPECTION_URL must be an https URL'')) (\<lambda>_.
             ensure (auth_issuer c \<noteq> []) (ErrMsg ''ORC_AUTH_ISSUER is required in introspection mode'')))
      else Inl (ErrMsg (''unsupported ORC_AUTH_MODE '' @ auth_mode c)))"

definition load_server :: "system \<Rightarrow> goerror + server_config" where
  "load_server sy =
     (let c = server_settings sy
      in bindE (ensure (listen_addr c \<noteq> []) (ErrMsg ''listen address is required'')) (\<lambda>_.
         bindE (check_base_url sy ''ORC_PUBLIC_BASE_URL'' (public_base_url c)) (\<lambda>_.
         bindE (ensure (1 \<le> in_flight c \<and> in_flight c \<le> 128)
                  (ErrMsg ''ORC_MAX_IN_FLIGHT_PER_DEVICE must be between 1 and 128'')) (\<lambda>_.
         bindE (ensure (32 \<le> length (sc_pairing_secret c)) (ErrMsg ''ORC_PAIRING_SECRET must be at least 32 bytes'')) (\<lambda>_.
         bindE (check_trust sy c) (\<lambda>_.
         bindE (check_auth_mode sy c) (\<lambda>_. Inr c)))))))"

fun absolute_roots :: "fsys \<Rightarrow> string list \<Rightarrow> goerror + string list" where
  "absolute_roots fs [] = Inr []"
| "absolute_roots fs (r # rs) =
     (case abs_path fs r of
        Inl e \<Rightarrow> Inl (ErrWrap (''allowed root '' @ r) (ErrOS e))
      | Inr a \<Rightarrow> bindE (absolute_roots fs rs) (\<lambda>as. Inr (a # as)))"

definition configured_roots :: "system \<Rightarrow> goerror + string list" where
  "configured_roots sy =
     (let rs = split_path_list (on_windows sy) (getenv sy ''ORC_ALLOWED_ROOTS'')
      in if rs \<noteq> [] then Inr rs
         else (case home_dir sy of
                 None \<Rightarrow> Inl (ErrMsg ''ORC_ALLOWED_ROOTS is required when home cannot be resolved'')
               | Some h \<Rightarrow> Inr [h]))"

definition load_agent :: "system \<Rightarrow> fsys \<Rightarrow> goerror + agent_config" where
  "load_agent sy fs =
     bindE (configured_roots sy) (\<lambda>rs.
     bindE (absolute_roots fs rs) (\<lambda>as.
       (let c = \<lparr>server_url = trim_right_slash (env_var sy ''ORC_SERVER_URL'' ''http://127.0.0.1:8080''),
                 ac_device_id = getenv sy ''ORC_DEVICE_ID'', agent_token = getenv sy ''ORC_AGENT_TOKEN'',
                 ac_device_name = env_var sy ''ORC_DEVICE_NAME'' (config_hostname sy), allowed_roots = as,
                 max_processes = env_int sy ''ORC_MAX_PROCESSES'' 8,
                 max_process_bytes = env_int sy ''ORC_MAX_PROCESS_BUFFER_BYTES'' 1048576,
                 ac_max_runtime = env_duration sy ''ORC_MAX_PROCESS_RUNTIME'' (3600 * second),
                 ac_allow_shell = env_bool sy ''ORC_ALLOW_SHELL'' False,
                 ac_allow_kill = env_bool sy ''ORC_ALLOW_KILL_PROCESS'' False\<rparr>
        in bindE (check_base_url sy ''ORC_SERVER_URL'' (server_url c)) (\<lambda>_.
           bindE (ensure (1 \<le> max_processes c \<and> max_processes c \<le> 64) (ErrMsg ''ORC_MAX_PROCESSES must be between 1 and 64'')) (\<lambda>_.
           bindE (ensure (65536 \<le> max_process_bytes c \<and> max_process_bytes c \<le> 33554432)
                    (ErrMsg ''ORC_MAX_PROCESS_BUFFER_BYTES must be between 64KiB and 32MiB'')) (\<lambda>_. Inr c))))))"

section \<open>Lemmas\<close>

lemma env_var_trimmed: "trim_space fallback = fallback \<Longrightarrow> trim_space (env_var sy k fallback) = env_var sy k fallback"
  by (simp add: env_var_def Let_def)

lemma env_var_nonempty: "fallback \<noteq> [] \<Longrightarrow> env_var sy k fallback \<noteq> []"
  by (simp add: env_var_def Let_def)

definition secure_url :: "system \<Rightarrow> string \<Rightarrow> bool" where
  "secure_url sy u \<longleftrightarrow> (\<exists>p. parse_url sy u = Some p \<and> url_host p \<noteq> [] \<and>
     (scheme p = ''https'' \<or> scheme p = ''http'' \<and> is_loopback_name sy (url_hostname p)))"

lemma check_base_url_iff: "check_base_url sy name u = Inr x \<longleftrightarrow> secure_url sy u"
  by (auto simp: check_base_url_def secure_url_def err_simps split: option.splits)

lemma absolute_roots_Inr: "absolute_roots fs rs = Inr as \<longleftrightarrow> list_all2 (\<lambda>r a. abs_path fs r = Inr a) rs as"
  by (induction rs arbitrary: as) (auto simp: err_simps list_all2_Cons1 split: sum.splits)

lemma configured_roots_Inr: "configured_roots sy = Inr rs \<Longrightarrow> rs \<noteq> []"
  by (auto simp: configured_roots_def Let_def split: if_splits option.splits)

end
