(* ===== verification/AgentMain.thy ===== *)
theory AgentMain
  imports Sandbox McpServer Config
begin

text \<open>
  The agent program (\<^verbatim>\<open>cmd/orc-agent/main.go\<close>): pairing, the connection to the relay, and the handling of
  calls. The events that its loops wait for (ticks and answers while pairing, messages on the
  connection) are lists; a loop that is still waiting when the list ends has the value \<open>None\<close>. Arguments
  are the encoding of results and frames as JSON, the texts of errors, and the encoding of a query
  string (theory \<open>MessageText\<close> has the encoding). Theory \<open>Credentials\<close> adds the credential file and \<^verbatim>\<open>main\<close>; the logging is not modelled.
\<close>

section \<open>Definitions\<close>

record credentials =
  cred_device :: string
  cred_token :: string

definition complete :: "credentials \<Rightarrow> bool" where
  "complete c \<longleftrightarrow> cred_device c \<noteq> [] \<and> cred_token c \<noteq> []"

text \<open>\<^verbatim>\<open>main\<close>: configured credentials first, then saved ones, then pairing.\<close>

definition choose_credentials :: "agent_config \<Rightarrow> credentials option \<Rightarrow> goerror + credentials \<Rightarrow> goerror + credentials" where
  "choose_credentials cfg saved paired =
     (let configured = \<lparr>cred_device = ac_device_id cfg, cred_token = agent_token cfg\<rparr>;
          creds = (if complete configured then configured else (case saved of Some c \<Rightarrow> c | None \<Rightarrow> configured))
      in if complete creds then Inr creds else paired)"

text \<open>\<^verbatim>\<open>loadCredentials\<close>, from what reading and decoding the file gave.\<close>

definition load_credentials :: "goerror + credentials \<Rightarrow> goerror + credentials" where
  "load_credentials decoded =
     bindE decoded (\<lambda>c. if complete c then Inr c else Inl (ErrMsg ''invalid credential file''))"

definition start_executor :: "fsys \<Rightarrow> agent_config \<Rightarrow> goerror + (executor \<times> agent_state)" where
  "start_executor fs cfg =
     bindE (new_policy fs (allowed_roots cfg)) (\<lambda>p.
       Inr (new_executor p (ac_allow_kill cfg),
            new_agent_state fs (new_manager (max_processes cfg) (max_process_bytes cfg) (ac_max_runtime cfg) (ac_allow_shell cfg))))"

definition next_backoff :: "duration \<Rightarrow> duration" where
  "next_backoff b = (if b < 30 * second then (let d = b * 2 in if d > 30 * second then 30 * second else d) else b)"

text \<open>\<^verbatim>\<open>connectAndServe\<close>: the URL and the connection, then one message after the other.\<close>

definition connect_url :: "(string \<Rightarrow> string \<Rightarrow> string) \<Rightarrow> system \<Rightarrow> string \<Rightarrow> credentials \<Rightarrow> url option" where
  "connect_url with_device sy server creds =
     map_option (\<lambda>u. u\<lparr>scheme := (if scheme u = ''https'' then ''wss'' else ''ws''), escaped_path := ''/agent/v1/connect'',
       raw_query := with_device (raw_query u) (cred_device creds)\<rparr>) (parse_url sy server)"

definition agent_dial ::
  "(string \<Rightarrow> string \<Rightarrow> string) \<Rightarrow> system \<Rightarrow> (bytes \<Rightarrow> bytes) \<Rightarrow> network \<Rightarrow> string \<Rightarrow> credentials \<Rightarrow> hserr + ws_conn" where
  "agent_dial with_device sy sha1 net server creds =
     dial sha1 (ip_is_loopback sy) net (connect_url with_device sy server creds) (cred_token creds) max_frame_bytes"

datatype agent_action = HandleCall frame | SendFrame frame

definition on_frame :: "frame option \<Rightarrow> goerror + agent_action list" where
  "on_frame decoded =
     (case decoded of
        None \<Rightarrow> Inl (ErrMsg ''decode'')
      | Some f \<Rightarrow>
        bindE (validate f) (\<lambda>_.
          if f_type f = TypeCall then Inr [HandleCall f]
          else if f_type f = TypePing then Inr [SendFrame ((empty_frame TypePong)\<lparr>f_id := f_id f\<rparr>)]
          else if f_type f = TypePong then Inr []
          else Inl (ErrMsg ''unexpected relay frame'')))"

text \<open>
  What one turn of the loop sees: the failure to read a message or the decoded message, and the error
  of the keep-alive goroutine if it has reported one.
\<close>

fun serve_loop :: "((goerror + frame option) \<times> goerror option) list \<Rightarrow> agent_action list \<times> goerror option" where
  "serve_loop [] = ([], None)"
| "serve_loop ((msg, keepalive) # rest) =
     (case msg of
        Inl e \<Rightarrow> ([], Some e)
      | Inr decoded \<Rightarrow>
        (case on_frame decoded of
           Inl e \<Rightarrow> ([], Some e)
         | Inr acts \<Rightarrow>
           (case keepalive of
              Some e \<Rightarrow> (acts, Some e)
            | None \<Rightarrow> (case serve_loop rest of (acts', r) \<Rightarrow> (acts @ acts', r)))))"

definition ErrorForbidden :: string where "ErrorForbidden = ''forbidden''"
definition ErrorNotFound :: string where "ErrorNotFound = ''not_found''"
definition ErrorExecution :: string where "ErrorExecution = ''execution_error''"
definition ErrorInternal :: string where "ErrorInternal = ''internal_error''"

definition classify :: "goerror \<Rightarrow> string" where
  "classify e =
     (if errors_is e ErrOutsideRoots then ErrorForbidden
      else if errors_is e (ErrOS ENOENT) \<or> errors_is e ErrProcNotFound then ErrorNotFound
      else ErrorExecution)"

definition result_frame :: "(tool_value \<Rightarrow> string option) \<Rightarrow> (goerror \<Rightarrow> string) \<Rightarrow> string \<Rightarrow> goerror + tool_value \<Rightarrow> frame" where
  "result_frame enc text rid r =
     (let out = (empty_frame TypeResult)\<lparr>f_id := rid, f_ok := (case r of Inl _ \<Rightarrow> False | Inr _ \<Rightarrow> True)\<rparr>
      in case r of
           Inl e \<Rightarrow> out\<lparr>f_error := Some \<lparr>err_code = classify e, err_message = text e\<rparr>\<rparr>
         | Inr v \<Rightarrow>
           (case enc v of
              None \<Rightarrow> out\<lparr>f_ok := False, f_error := Some \<lparr>err_code = ErrorInternal, err_message = ''could not encode result''\<rparr>\<rparr>
            | Some raw \<Rightarrow> out\<lparr>f_result := raw\<rparr>))"

definition handle_call ::
  "executor \<Rightarrow> decoders \<Rightarrow> world \<Rightarrow> (tool_value \<Rightarrow> string option) \<Rightarrow> (goerror \<Rightarrow> string) \<Rightarrow> frame \<Rightarrow> agent_state \<Rightarrow> frame \<times> agent_state" where
  "handle_call ex d w enc text f s =
     (case execute ex d w (f_tool f) (f_args f) s of (r, s') \<Rightarrow> (result_frame enc text (f_id f) r, s'))"

text \<open>\<^verbatim>\<open>pair\<close>: the answer to the first request, and then the events of the polling loop.\<close>

record start_answer =
  sa_status :: nat
  sa_text :: string
  sa_decoded :: "pairing_started option"

datatype poll_answer = PollFails | PollAnswer nat "credentials option"

datatype pair_event = PairCancelled | PairDeadline | PairTick poll_answer

definition poll_interval :: "pairing_started \<Rightarrow> duration" where
  "poll_interval st = (let i = wrap64 (ps_interval st * second) in if i < second then 3 * second else i)"

fun pair_loop :: "pair_event list \<Rightarrow> (goerror + credentials) option" where
  "pair_loop [] = None"
| "pair_loop (PairCancelled # evs) = Some (Inl (ErrMsg ''context canceled''))"
| "pair_loop (PairDeadline # evs) = Some (Inl (ErrMsg ''pairing expired''))"
| "pair_loop (PairTick PollFails # evs) = pair_loop evs"
| "pair_loop (PairTick (PollAnswer st tok) # evs) =
     (if st = 200 then (case tok of None \<Rightarrow> Some (Inl (ErrMsg ''decode'')) | Some c \<Rightarrow> Some (Inr c))
      else if st \<noteq> 428 then Some (Inl (ErrMsg ''pairing token endpoint returned''))
      else pair_loop evs)"

definition pair :: "start_answer option \<Rightarrow> pair_event list \<Rightarrow> (goerror + credentials) option" where
  "pair answer evs =
     (case answer of
        None \<Rightarrow> Some (Inl (ErrMsg ''post''))
      | Some a \<Rightarrow>
        if sa_status a \<noteq> 201 then Some (Inl (ErrMsg (''start pairing: '' @ trim_space (sa_text a))))
        else (case sa_decoded a of None \<Rightarrow> Some (Inl (ErrMsg ''decode'')) | Some st \<Rightarrow> pair_loop evs))"

section \<open>Lemmas\<close>

lemma result_frame_valid: "rid \<noteq> [] \<Longrightarrow> validate (result_frame enc text rid r) = Inr ()"
  by (auto simp: result_frame_def Let_def validate_result_iff empty_frame_def split: sum.splits option.splits)

lemma result_frame_sel [simp]:
  "f_type (result_frame enc text rid r) = TypeResult" "f_id (result_frame enc text rid r) = rid"
  by (auto simp: result_frame_def Let_def empty_frame_def split: sum.splits option.splits)

lemma backoff_closed: "(next_backoff ^^ n) second = min (2 ^ n * second) (30 * second)"
proof (induction n)
  case (Suc n)
  then show ?case by (auto simp: next_backoff_def Let_def)
qed simp

lemma load_agent_Inr:
  assumes "load_agent sy fs = Inr cfg"
  shows "secure_url sy (server_url cfg)" "1 \<le> max_processes cfg" "max_processes cfg \<le> 64"
    "65536 \<le> max_process_bytes cfg" "max_process_bytes cfg \<le> 33554432"
    "allowed_roots cfg \<noteq> []" "ac_allow_kill cfg = env_bool sy ''ORC_ALLOW_KILL_PROCESS'' False"
    "ac_allow_shell cfg = env_bool sy ''ORC_ALLOW_SHELL'' False"
proof -
  obtain rs where "configured_roots sy = Inr rs" "absolute_roots fs rs = Inr (allowed_roots cfg)"
    using assms by (auto simp: load_agent_def Let_def err_simps)
  then show "allowed_roots cfg \<noteq> []"
    using configured_roots_Inr [of sy rs] by (auto simp: absolute_roots_Inr)
qed (use assms in \<open>auto simp: load_agent_def Let_def err_simps check_base_url_iff\<close>)

text \<open>What the relay makes of the result of an executed tool.\<close>

definition outcome_of :: "(tool_value \<Rightarrow> string option) \<Rightarrow> (goerror \<Rightarrow> string) \<Rightarrow> goerror + tool_value \<Rightarrow> result" where
  "outcome_of enc text r =
     (case r of
        Inl e \<Rightarrow> \<lparr>r_value = [], r_error = Some \<lparr>err_code = classify e, err_message = text e\<rparr>\<rparr>
      | Inr v \<Rightarrow>
        (case enc v of
           None \<Rightarrow> \<lparr>r_value = [], r_error = Some \<lparr>err_code = ErrorInternal, err_message = ''could not encode result''\<rparr>\<rparr>
         | Some raw \<Rightarrow> \<lparr>r_value = raw, r_error = None\<rparr>))"

lemma result_frame_outcome:
  "\<lparr>r_value = f_result (result_frame enc text rid r), r_error = f_error (result_frame enc text rid r)\<rparr> = outcome_of enc text r"
  by (auto simp: result_frame_def outcome_of_def Let_def empty_frame_def split: sum.splits option.splits)

text \<open>
  An unknown process is reported as not found, an unknown search as a failed execution; and an answer
  \<^verbatim>\<open>slow_down\<close> (429) while pairing ends the pairing, although the code could still be approved.
\<close>

lemma unknown_search_code: "classify ErrProcNotFound = ErrorNotFound" "classify ErrSearchNotFound = ErrorExecution"
  by code_simp+

lemma slow_down_ends_pairing:
  "pair_loop [PairTick (PollAnswer 429 None), PairTick (PollAnswer 200 (Some c))] =
     Some (Inl (ErrMsg ''pairing token endpoint returned''))"
  by simp

text \<open>
  A call goes through to the executor and back. Take a call of the hub that is registered on a
  connection and still has no answer. The agent accepts the frame that was sent for it and executes
  its tool with its arguments; the frame that it sends back is valid, leaves the connection as it
  was, and answers this call and no other one, with the value that the executor returned or with its
  error under the code that \<^verbatim>\<open>classify\<close> gives.
\<close>

lemma agent_answers_call:
  assumes "hub_reach n h" and "c < length (hub_conns h)" and "c_pending (hub_conns h ! c) rid = Some k"
    and "k_chan (hub_calls h ! k) = None" and "rid \<noteq> []" and "k_tool (hub_calls h ! k) \<noteq> []" and "k_args (hub_calls h ! k) \<noteq> []"
    and "handle_call ex d w enc text (call_frame (hub_calls h ! k)) s = (out, s')"
  shows "on_frame (Some (call_frame (hub_calls h ! k))) = Inr [HandleCall (call_frame (hub_calls h ! k))] \<and>
    s' = snd (execute ex d w (k_tool (hub_calls h ! k)) (k_args (hub_calls h ! k)) s) \<and> validate out = Inr () \<and>
    c_phase (hub_conns (receive c out h) ! c) = c_phase (hub_conns h ! c) \<and>
    hub_calls (receive c out h) = (hub_calls h)[k := (hub_calls h ! k)\<lparr>k_chan :=
      Some (Inr (outcome_of enc text (fst (execute ex d w (k_tool (hub_calls h ! k)) (k_args (hub_calls h ! k)) s))))\<rparr>]"
proof -
  let ?x = "hub_calls h ! k"
  let ?r = "execute ex d w (k_tool ?x) (k_args ?x) s"
  have k: "k_id ?x = rid" using hub_inv_conn(4) [OF hub_reach_inv [OF assms(1)] assms(2,3)] by simp
  then have f: "f_type (call_frame ?x) = TypeCall" "f_id (call_frame ?x) = rid" "f_tool (call_frame ?x) = k_tool ?x"
    "f_args (call_frame ?x) = k_args ?x"
    by (simp_all add: call_frame_def empty_frame_def)
  then have out: "out = result_frame enc text rid (fst ?r)" "s' = snd ?r"
    using assms(8) by (simp_all add: handle_call_def split: prod.splits)
  have "on_frame (Some (call_frame ?x)) = Inr [HandleCall (call_frame ?x)]"
    using f assms(5-7) validate_call_iff [of "call_frame ?x"] by (simp add: on_frame_def bindE_def)
  moreover have valid: "validate out = Inr ()" using out(1) result_frame_valid [OF assms(5)] by simp
  moreover have "c_phase (hub_conns (receive c out h) ! c) = c_phase (hub_conns h ! c)"
    using valid out(1) assms(2,3) by (simp add: receive_def Let_def nth_upd_conn)
  moreover have "hub_calls (receive c out h) = (hub_calls h)[k := ?x\<lparr>k_chan := Some (Inr (outcome_of enc text (fst ?r)))\<rparr>]"
    using valid out(1) assms(2-4)
    by (simp add: receive_def Let_def nth_upd_conn upd_call_def upd_conn_def offer_def result_frame_outcome)
  ultimately show ?thesis using out(2) by simp
qed

end
