(* ===== verification/Json.thy ===== *)
theory Json
  imports FileTools
begin

text \<open>
  JSON texts as \<^verbatim>\<open>encoding/json\<close> writes and reads them. A text is read into a tree that keeps the literals
  of numbers and the order of the members of an object; the reader is the push-down machine of that
  package, with its limit on nesting. Strings are bytes: what is not UTF-8 is replaced by U+FFFD when
  a string is written and when it is read. The main lemma is the round trip \<open>parse_print\<close>.
\<close>

section \<open>Definitions\<close>

datatype jtree =
    TNull
  | TBool bool
  | TNum string
  | TStr string
  | TArr "jtree list"
  | TObj "(string \<times> jtree) list"

subsection \<open>UTF-8\<close>

text \<open>
  The encodings of code points, the length that a first byte announces, and the length of the code
  point at the front of a string, 0 when there is none.
\<close>

fun rune_ok :: "bytes \<Rightarrow> bool" where
  "rune_ok [a] = (a < 0x80)"
| "rune_ok [a, b] = (0xC2 \<le> a \<and> a \<le> 0xDF \<and> cont b)"
| "rune_ok [a, b, c] = (0xE0 \<le> a \<and> a \<le> 0xEF \<and> second_of_three a b \<and> cont c)"
| "rune_ok [a, b, c, d] = (0xF0 \<le> a \<and> second_of_four a b \<and> cont c \<and> cont d)"
| "rune_ok _ = False"

definition lead_len :: "byte \<Rightarrow> nat" where
  "lead_len a = (if a < 0x80 then 1 else if a < 0xE0 then 2 else if a < 0xF0 then 3 else 4)"

definition front_rune :: "string \<Rightarrow> nat" where
  "front_rune s =
     (if s = [] then 0
      else let n = lead_len (byte_of_char (hd s)) in if rune_ok (bytes_of_string (take n s)) then n else 0)"

text \<open>\<^verbatim>\<open>utf8.AppendRune\<close> for a code point that is not a surrogate, and the bytes of U+FFFD.\<close>

definition utf8_encode :: "int \<Rightarrow> string" where
  "utf8_encode n =
     (if n < 0x80 then [char_of n]
      else if n < 0x800 then [char_of (0xC0 + n div 64), char_of (0x80 + n mod 64)]
      else if n < 0x10000 then [char_of (0xE0 + n div 4096), char_of (0x80 + n div 64 mod 64), char_of (0x80 + n mod 64)]
      else [char_of (0xF0 + n div 262144), char_of (0x80 + n div 4096 mod 64), char_of (0x80 + n div 64 mod 64), char_of (0x80 + n mod 64)])"

definition replacement :: string where
  "replacement = [CHR 0xEF, CHR 0xBF, CHR 0xBD]"

function sanitize :: "string \<Rightarrow> string" where
  "sanitize s =
     (if s = [] then []
      else if front_rune s = 0 then replacement @ sanitize (drop 1 s)
      else take (front_rune s) s @ sanitize (drop (front_rune s) s))"
  by pat_completeness auto
termination
  by (relation "measure length") auto

declare sanitize.simps [simp del]

subsection \<open>Writing\<close>

definition hex_digit :: "nat \<Rightarrow> char" where
  "hex_digit n = (if n < 10 then char_of (48 + n) else char_of (87 + n))"

definition escape_char :: "char \<Rightarrow> string" where
  "escape_char c =
     (let n = of_char c :: nat in
      if c = CHR 0x22 \<or> c = CHR 0x5C then [CHR 0x5C, c]
      else if c = CHR 0x08 then [CHR 0x5C, CHR ''b'']
      else if c = CHR 0x0C then [CHR 0x5C, CHR ''f'']
      else if c = CHR 0x0A then [CHR 0x5C, CHR ''n'']
      else if c = CHR 0x0D then [CHR 0x5C, CHR ''r'']
      else if c = CHR 0x09 then [CHR 0x5C, CHR ''t'']
      else if n < 32 \<or> c = CHR ''<'' \<or> c = CHR ''>'' \<or> c = CHR ''&''
      then [CHR 0x5C, CHR ''u'', CHR ''0'', CHR ''0'', hex_digit (n div 16), hex_digit (n mod 16)]
      else [c])"

definition escape_rune :: "string \<Rightarrow> string" where
  "escape_rune r =
     (if length r = 1 then escape_char (hd r)
      else if r = [CHR 0xE2, CHR 0x80, CHR 0xA8] then CHR 0x5C # ''u2028''
      else if r = [CHR 0xE2, CHR 0x80, CHR 0xA9] then CHR 0x5C # ''u2029''
      else r)"

function quote_body :: "string \<Rightarrow> string" where
  "quote_body s =
     (if s = [] then []
      else if front_rune s = 0 then (CHR 0x5C # ''ufffd'') @ quote_body (drop 1 s)
      else escape_rune (take (front_rune s) s) @ quote_body (drop (front_rune s) s))"
  by pat_completeness auto
termination
  by (relation "measure length") auto

declare quote_body.simps [simp del]

definition quote :: "string \<Rightarrow> string" where
  "quote s = [CHR 0x22] @ quote_body s @ [CHR 0x22]"

fun print_json :: "jtree \<Rightarrow> string" where
  "print_json TNull = ''null''"
| "print_json (TBool b) = (if b then ''true'' else ''false'')"
| "print_json (TNum lit) = lit"
| "print_json (TStr s) = quote s"
| "print_json (TArr vs) = ''['' @ join '','' (map print_json vs) @ '']''"
| "print_json (TObj kvs) = ''{'' @ join '','' (map (\<lambda>(k, v). quote k @ '':'' @ print_json v) kvs) @ ''}''"

subsection \<open>Reading\<close>

definition json_space :: "char \<Rightarrow> bool" where
  "json_space c \<longleftrightarrow> c = CHR 0x20 \<or> c = CHR 0x09 \<or> c = CHR 0x0D \<or> c = CHR 0x0A"

definition hex_val :: "char \<Rightarrow> int option" where
  "hex_val c =
     (let n = of_char c :: int in
      if 48 \<le> n \<and> n \<le> 57 then Some (n - 48) else if 97 \<le> n \<and> n \<le> 102 then Some (n - 87)
      else if 65 \<le> n \<and> n \<le> 70 then Some (n - 55) else None)"

text \<open>Four hexadecimal digits (\<^verbatim>\<open>getu4\<close>, after the \<^verbatim>\<open>u\<close>).\<close>

definition hex4 :: "string \<Rightarrow> (int \<times> string) option" where
  "hex4 s =
     (case s of
        a # b # c # d # r \<Rightarrow>
          (case (hex_val a, hex_val b, hex_val c, hex_val d) of
             (Some w, Some x, Some y, Some z) \<Rightarrow> Some (((w * 16 + x) * 16 + y) * 16 + z, r)
           | _ \<Rightarrow> None)
      | _ \<Rightarrow> None)"

definition unicode_escape :: "string \<Rightarrow> (string \<times> string) option" where
  "unicode_escape s =
     (case hex4 s of
        None \<Rightarrow> None
      | Some (n, r) \<Rightarrow>
        if 0xD800 \<le> n \<and> n < 0xE000 then
          (case r of
             a # b # r1 \<Rightarrow>
               if a = CHR 0x5C \<and> b = CHR ''u'' \<and> n < 0xDC00 then
                 (case hex4 r1 of
                    Some (m, r2) \<Rightarrow>
                      if 0xDC00 \<le> m \<and> m < 0xE000
                      then Some (utf8_encode (0x10000 + (n - 0xD800) * 1024 + (m - 0xDC00)), r2)
                      else Some (replacement, r)
                  | None \<Rightarrow> Some (replacement, r))
               else Some (replacement, r)
           | _ \<Rightarrow> Some (replacement, r))
        else Some (utf8_encode n, r))"

definition unescape :: "string \<Rightarrow> (string \<times> string) option" where
  "unescape s =
     (case s of
        [] \<Rightarrow> None
      | c # r \<Rightarrow>
        if c = CHR 0x22 \<or> c = CHR 0x5C \<or> c = CHR ''/'' then Some ([c], r)
        else if c = CHR ''b'' then Some ([CHR 0x08], r)
        else if c = CHR ''f'' then Some ([CHR 0x0C], r)
        else if c = CHR ''n'' then Some ([CHR 0x0A], r)
        else if c = CHR ''r'' then Some ([CHR 0x0D], r)
        else if c = CHR ''t'' then Some ([CHR 0x09], r)
        else if c = CHR ''u'' then unicode_escape r
        else None)"

text \<open>The rest of a string literal, after its opening quote.\<close>

definition string_char :: "string \<Rightarrow> (string \<times> string) option" where
  "string_char s =
     (case s of
        [] \<Rightarrow> None
      | c # r \<Rightarrow>
        if c = CHR 0x5C then unescape r
        else if (of_char c :: nat) < 32 then None
        else if front_rune s = 0 then Some (replacement, r)
        else Some (take (front_rune s) s, drop (front_rune s) s))"

lemma string_char_shorter: "string_char s = Some (x, r) \<Longrightarrow> length r < length s"
  by (auto simp: string_char_def unescape_def unicode_escape_def hex4_def split: list.splits if_splits option.splits prod.splits)

function unquote :: "string \<Rightarrow> (string \<times> string) option" where
  "unquote s =
     (if s \<noteq> [] \<and> hd s = CHR 0x22 then Some ([], tl s)
      else (case string_char s of
              None \<Rightarrow> None
            | Some (x, r) \<Rightarrow> map_option (\<lambda>(y, r'). (x @ y, r')) (unquote r)))"
  by pat_completeness auto
termination
  by (relation "measure length") (auto dest: string_char_shorter)

declare unquote.simps [simp del]

text \<open>The longest number literal at the front.\<close>

definition int_part :: "string \<Rightarrow> string" where
  "int_part s = (if s \<noteq> [] \<and> hd s = CHR ''0'' then ''0'' else takeWhile is_digit s)"

definition fraction :: "string \<Rightarrow> string option" where
  "fraction s =
     (if s \<noteq> [] \<and> hd s = CHR ''.'' then
        (let ds = takeWhile is_digit (tl s) in if ds = [] then None else Some (CHR ''.'' # ds))
      else Some [])"

definition exponent :: "string \<Rightarrow> string option" where
  "exponent s =
     (if s \<noteq> [] \<and> (hd s = CHR ''e'' \<or> hd s = CHR ''E'') then
        (let sign = (if tl s \<noteq> [] \<and> (hd (tl s) = CHR ''+'' \<or> hd (tl s) = CHR ''-'') then [hd (tl s)] else []);
             ds = takeWhile is_digit (drop (length sign) (tl s))
         in if ds = [] then None else Some (hd s # sign @ ds))
      else Some [])"

definition number_front :: "string \<Rightarrow> string option" where
  "number_front s =
     (let sign = (if s \<noteq> [] \<and> hd s = CHR ''-'' then ''-'' else []);
          s1 = drop (length sign) s;
          whole = int_part s1;
          s2 = drop (length whole) s1
      in if whole = [] then None
         else (case fraction s2 of
                 None \<Rightarrow> None
               | Some frac \<Rightarrow>
                 (case exponent (drop (length frac) s2) of
                    None \<Rightarrow> None
                  | Some ex \<Rightarrow> Some (sign @ whole @ frac @ ex))))"

datatype token = TkLeaf jtree | TkLBrace | TkRBrace | TkLBrack | TkRBrack | TkColon | TkComma

definition punctuation :: "(char \<times> token) list" where
  "punctuation = [(CHR ''{'', TkLBrace), (CHR ''}'', TkRBrace), (CHR ''['', TkLBrack), (CHR '']'', TkRBrack),
                  (CHR '':'', TkColon), (CHR '','', TkComma)]"

definition word_token :: "string \<Rightarrow> (token \<times> string) option" where
  "word_token s =
     (if prefix ''null'' s then Some (TkLeaf TNull, drop 4 s)
      else if prefix ''true'' s then Some (TkLeaf (TBool True), drop 4 s)
      else if prefix ''false'' s then Some (TkLeaf (TBool False), drop 5 s)
      else (case number_front s of None \<Rightarrow> None | Some lit \<Rightarrow> Some (TkLeaf (TNum lit), drop (length lit) s)))"

definition next_token :: "string \<Rightarrow> (token \<times> string) option" where
  "next_token s0 =
     (case dropWhile json_space s0 of
        [] \<Rightarrow> None
      | c # r \<Rightarrow>
        if c = CHR 0x22 then map_option (\<lambda>(x, r'). (TkLeaf (TStr x), r')) (unquote r)
        else (case map_of punctuation c of
                Some t \<Rightarrow> Some (t, r)
              | None \<Rightarrow> word_token (c # r)))"

text \<open>
  The states of the reader: the containers that are open, and what may come next. A container holds
  what it has so far in reverse order; \<open>CField\<close> waits for the value of a key.
\<close>

datatype container = CArr "jtree list" | CObj "(string \<times> jtree) list" | CField "(string \<times> jtree) list" string

datatype mode = BeginValue | BeginValueOrEmpty | BeginStringOrEmpty | BeginString | BeginColon | EndValue

datatype reader = Open "container list" mode | Finished jtree

definition max_nesting :: int where "max_nesting = 10000"

definition end_value :: "jtree \<Rightarrow> container list \<Rightarrow> reader" where
  "end_value v st =
     (case st of
        CArr vs # st' \<Rightarrow> Open (CArr (v # vs) # st') EndValue
      | CField kvs k # st' \<Rightarrow> Open (CObj ((k, v) # kvs) # st') EndValue
      | _ \<Rightarrow> Finished v)"

definition push :: "container \<Rightarrow> mode \<Rightarrow> container list \<Rightarrow> reader option" where
  "push c m st = (if int (length st) < max_nesting then Some (Open (c # st) m) else None)"

definition begin_value :: "token \<Rightarrow> container list \<Rightarrow> reader option" where
  "begin_value t st =
     (case t of
        TkLeaf v \<Rightarrow> Some (end_value v st)
      | TkLBrack \<Rightarrow> push (CArr []) BeginValueOrEmpty st
      | TkLBrace \<Rightarrow> push (CObj []) BeginStringOrEmpty st
      | _ \<Rightarrow> None)"

definition begin_key :: "token \<Rightarrow> container list \<Rightarrow> reader option" where
  "begin_key t st =
     (case (t, st) of
        (TkLeaf (TStr k), CObj kvs # st') \<Rightarrow> Some (Open (CField kvs k # st') BeginColon)
      | _ \<Rightarrow> None)"

definition close :: "token \<Rightarrow> container list \<Rightarrow> reader option" where
  "close t st =
     (case (t, st) of
        (TkRBrack, CArr vs # st') \<Rightarrow> Some (end_value (TArr (rev vs)) st')
      | (TkRBrace, CObj kvs # st') \<Rightarrow> Some (end_value (TObj (rev kvs)) st')
      | _ \<Rightarrow> None)"

fun read_step :: "mode \<Rightarrow> token \<Rightarrow> container list \<Rightarrow> reader option" where
  "read_step BeginValue t st = begin_value t st"
| "read_step BeginValueOrEmpty t st = (if t = TkRBrack then close t st else begin_value t st)"
| "read_step BeginStringOrEmpty t st = (if t = TkRBrace then close t st else begin_key t st)"
| "read_step BeginString t st = begin_key t st"
| "read_step BeginColon t st = (if t = TkColon then Some (Open st BeginValue) else None)"
| "read_step EndValue t st =
     (if t = TkComma then
        (case st of CArr _ # _ \<Rightarrow> Some (Open st BeginValue) | CObj _ # _ \<Rightarrow> Some (Open st BeginString) | _ \<Rightarrow> None)
      else close t st)"

lemma unquote_shorter: "unquote s = Some (x, r) \<Longrightarrow> length r < length s"
proof (induction s arbitrary: x r rule: unquote.induct)
  case (1 s)
  then show ?case
    by (subst (asm) (2) unquote.simps) (fastforce dest: string_char_shorter split: if_splits option.splits)
qed

lemma next_token_shorter: "next_token s = Some (t, r) \<Longrightarrow> length r < length s"
proof -
  assume tok: "next_token s = Some (t, r)"
  have "length r < length (dropWhile json_space s)"
    using tok by (auto simp: next_token_def word_token_def number_front_def Let_def dest!: unquote_shorter
        split: list.splits if_splits option.splits)
  then show ?thesis using length_dropWhile_le [of json_space s] by simp
qed

function read_loop :: "container list \<Rightarrow> mode \<Rightarrow> string \<Rightarrow> (jtree \<times> string) option" where
  "read_loop st m s =
     (case next_token s of
        None \<Rightarrow> None
      | Some (t, r) \<Rightarrow>
        (case read_step m t st of
           None \<Rightarrow> None
         | Some (Finished v) \<Rightarrow> Some (v, r)
         | Some (Open st' m') \<Rightarrow> read_loop st' m' r))"
  by pat_completeness auto
termination
  by (relation "measure (\<lambda>(st, m, s). length s)") (auto dest: next_token_shorter)

declare read_loop.simps [simp del]

text \<open>\<^verbatim>\<open>Decoder.Decode\<close> reads the first value of a text, \<^verbatim>\<open>Unmarshal\<close> wants nothing after it.\<close>

definition decoder_tree :: "string \<Rightarrow> jtree option" where
  "decoder_tree s = map_option fst (read_loop [] BeginValue s)"

definition unmarshal_tree :: "string \<Rightarrow> jtree option" where
  "unmarshal_tree s =
     (case read_loop [] BeginValue s of
        Some (v, r) \<Rightarrow> if list_all json_space r then Some v else None
      | None \<Rightarrow> None)"

section \<open>Lemmas\<close>

subsection \<open>Strings\<close>

lemma rune_ok_lead: "rune_ok bs \<Longrightarrow> bs \<noteq> [] \<and> length bs = lead_len (hd bs)"
  by (cases bs rule: rune_ok.cases) (auto simp: lead_len_def word_less_nat_alt word_le_nat_alt)

lemma lead_len_pos [simp]: "0 < lead_len a" "lead_len a \<noteq> 0"
  by (auto simp: lead_len_def)

lemma front_runeD:
  assumes "front_rune s \<noteq> 0"
  shows "rune_ok (bytes_of_string (take (front_rune s) s))" "front_rune s \<le> length s"
proof -
  show ok: "rune_ok (bytes_of_string (take (front_rune s) s))"
    using assms by (auto simp: front_rune_def Let_def split: if_splits)
  with assms rune_ok_lead [OF ok] show "front_rune s \<le> length s"
    by (cases s) (auto simp: front_rune_def Let_def bytes_of_string_def take_Cons' min_def split: if_splits)
qed

lemma front_rune_append:
  assumes "rune_ok (bytes_of_string r)"
  shows "front_rune (r @ t) = length r"
proof -
  have r: "r \<noteq> []" "lead_len (byte_of_char (hd r)) = length r"
    using rune_ok_lead [OF assms] by (cases r; simp add: bytes_of_string_def)+
  then show ?thesis using assms by (simp add: front_rune_def)
qed

lemma lead_ranges:
  "a < 0xE0 \<longleftrightarrow> a \<le> (0xDF :: byte)" "a < 0xF0 \<longleftrightarrow> a \<le> (0xEF :: byte)" "a < 0xC2 \<longleftrightarrow> \<not> (0xC2 \<le> (a :: byte))"
  "0xE0 \<le> a \<longleftrightarrow> \<not> a \<le> (0xDF :: byte)" "0xF0 \<le> a \<longleftrightarrow> \<not> a \<le> (0xEF :: byte)"
  by (auto simp: word_less_nat_alt word_le_nat_alt)

lemma utf8_valid_lead:
  "utf8_valid (a # r) \<longleftrightarrow> rune_ok (take (lead_len a) (a # r)) \<and> utf8_valid (drop (lead_len a) (a # r))"
proof -
  consider "a < 0x80" | "\<not> a < 0x80" "a < 0xC2" | "\<not> a < 0x80" "\<not> a < 0xC2" "a \<le> 0xDF"
    | "\<not> a < 0x80" "\<not> a < 0xC2" "\<not> a \<le> 0xDF" "a \<le> 0xEF" | "\<not> a < 0x80" "\<not> a < 0xC2" "\<not> a \<le> 0xDF" "\<not> a \<le> 0xEF"
    by blast
  then show ?thesis
  proof cases
    case 2
    then have "lead_len a = 2" by (simp add: lead_len_def word_less_nat_alt)
    with 2 show ?thesis by (cases r) (simp_all add: utf8_valid.simps(2) lead_ranges)
  next
    case 3
    then have "lead_len a = 2" by (simp add: lead_len_def lead_ranges)
    with 3 show ?thesis by (cases r) (simp_all add: utf8_valid.simps(2) lead_ranges)
  next
    case 4
    then have "lead_len a = 3" by (simp add: lead_len_def lead_ranges)
    with 4 show ?thesis by (cases r; cases "tl r") (simp_all add: utf8_valid.simps(2) lead_ranges)
  next
    case 5
    then have "lead_len a = 4" by (simp add: lead_len_def lead_ranges)
    with 5 show ?thesis by (cases r; cases "tl r"; cases "tl (tl r)") (simp_all add: utf8_valid.simps(2) lead_ranges)
  qed (simp add: lead_len_def utf8_valid.simps(2))
qed

lemma utf8_valid_rune:
  assumes "s \<noteq> []"
  shows "utf8_valid (bytes_of_string s) \<longleftrightarrow> front_rune s \<noteq> 0 \<and> utf8_valid (bytes_of_string (drop (front_rune s) s))"
  using assms utf8_valid_lead [of "byte_of_char (hd s)" "bytes_of_string (tl s)"]
  by (cases s) (auto simp: bytes_of_string_def front_rune_def Let_def take_map drop_map simp flip: list.map)

lemma sanitize_Nil [simp]: "sanitize [] = []"
  by (subst sanitize.simps) simp

lemma sanitize_rune:
  "s \<noteq> [] \<Longrightarrow> sanitize s = (if front_rune s = 0 then replacement @ sanitize (drop 1 s)
     else take (front_rune s) s @ sanitize (drop (front_rune s) s))"
  by (subst sanitize.simps) simp

lemma sanitize_valid: "utf8_valid (bytes_of_string s) \<Longrightarrow> sanitize s = s"
proof (induction s rule: sanitize.induct)
  case (1 s)
  show ?case
  proof (cases "s = []")
    case False
    with 1 show ?thesis using utf8_valid_rune [OF False] by (simp add: sanitize_rune)
  qed simp
qed

subsection \<open>Escapes\<close>

lemma hex_val_digit: "n < 16 \<Longrightarrow> hex_val (hex_digit n) = Some (int n)"
proof -
  assume "n < 16"
  moreover have "(of_char (char_of m :: char) :: int) = int (m mod 256)" for m :: nat by (metis of_nat_of_char of_char_of)
  ultimately show ?thesis by (auto simp: hex_val_def hex_digit_def Let_def)
qed

lemma utf8_encode_ascii: "(of_char c :: nat) < 128 \<Longrightarrow> utf8_encode (int (of_char c)) = [c]"
proof -
  assume "(of_char c :: nat) < 128"
  then have "utf8_encode (int (of_char c)) = [char_of (int (of_char c))]" unfolding utf8_encode_def by (subst if_P) auto
  then show ?thesis by simp
qed

lemma hex_escape:
  assumes "(of_char c :: nat) < 128"
  shows "unicode_escape (CHR ''0'' # CHR ''0'' # hex_digit (of_char c div 16) # hex_digit (of_char c mod 16) # r) = Some ([c], r)"
proof -
  let ?n = "of_char c :: nat"
  have h: "hex_val (hex_digit (?n div 16)) = Some (int (?n div 16))" "hex_val (hex_digit (?n mod 16)) = Some (int (?n mod 16))"
    using assms by (simp_all only: hex_val_digit)
  have "int (?n div 16) * 16 + int (?n mod 16) = int ?n" by presburger
  then show ?thesis
    using h assms utf8_encode_ascii [OF assms] by (simp add: unicode_escape_def hex4_def hex_val_def [of "CHR ''0''"])
qed

lemma string_char_escape:
  assumes "(of_char c :: nat) < 128"
  shows "string_char (escape_char c @ r) = Some ([c], r)"
proof -
  have "byte_of_char c < 0x80" using assms by (simp add: byte_of_char_def word_less_nat_alt unat_of_nat)
  then have fr: "front_rune (c # r) = 1" by (simp add: front_rune_def lead_len_def bytes_of_string_def)
  show ?thesis
    unfolding escape_char_def Let_def string_char_def unescape_def
    using assms fr hex_escape [OF assms]
    by (auto)
qed

lemma utf8_encode_escaped:
  "utf8_encode 65533 = replacement" "utf8_encode 8232 = [CHR 0xE2, CHR 0x80, CHR 0xA8]" "utf8_encode 8233 = [CHR 0xE2, CHR 0x80, CHR 0xA9]"
  by code_simp+

lemma string_char_rune:
  assumes "rune_ok (bytes_of_string x)"
  shows "string_char (escape_rune x @ r) = Some (x, r)"
proof (cases "length x = 1")
  case True
  then obtain c where x: "x = [c]" by (cases x) auto
  with assms have "(of_char c :: nat) < 128"
    by (simp add: bytes_of_string_def byte_of_char_def word_less_nat_alt unat_of_nat)
  with x show ?thesis by (simp add: escape_rune_def string_char_escape)
next
  case False
  then have x: "x \<noteq> []" "\<not> byte_of_char (hd x) < 0x80"
    using rune_ok_lead [OF assms] by (cases x; auto simp: bytes_of_string_def lead_len_def)+
  then have hd: "hd x \<noteq> CHR 0x5C" "\<not> (of_char (hd x) :: nat) < 32"
    by (auto simp: byte_of_char_def word_less_nat_alt unat_of_nat)
  show ?thesis
  proof (cases "x = [CHR 0xE2, CHR 0x80, CHR 0xA8] \<or> x = [CHR 0xE2, CHR 0x80, CHR 0xA9]")
    case True
    then show ?thesis
      by (auto simp: escape_rune_def string_char_def unescape_def unicode_escape_def hex4_def hex_val_def utf8_encode_escaped)
  next
    case nospecial: False
    have "front_rune (x @ r) = length x" using assms by (rule front_rune_append)
    with False x hd nospecial show ?thesis by (cases x) (auto simp: escape_rune_def string_char_def)
  qed
qed

lemma string_char_bad: "string_char ((CHR 0x5C # ''ufffd'') @ r) = Some (replacement, r)"
  by (simp add: string_char_def unescape_def unicode_escape_def hex4_def hex_val_def utf8_encode_escaped)

lemma unquote_char: "string_char s = Some (x, r) \<Longrightarrow> s \<noteq> [] \<and> hd s \<noteq> CHR 0x22 \<Longrightarrow>
    unquote s = map_option (\<lambda>(y, r'). (x @ y, r')) (unquote r)"
  by (subst unquote.simps) simp

lemma escape_rune_start: "rune_ok (bytes_of_string x) \<Longrightarrow> escape_rune x \<noteq> [] \<and> hd (escape_rune x) \<noteq> CHR 0x22"
  using rune_ok_lead [of "bytes_of_string x"]
  by (cases x) (auto simp: escape_rune_def escape_char_def Let_def bytes_of_string_def lead_len_def byte_of_char_def split: if_splits)

lemma unquote_quote: "unquote (quote_body s @ CHR 0x22 # r) = Some (sanitize s, r)"
proof (induction s rule: quote_body.induct)
  case (1 s)
  consider "s = []" | "s \<noteq> []" "front_rune s = 0" | "s \<noteq> []" "front_rune s \<noteq> 0" by blast
  then show ?case
  proof cases
    case 1
    then show ?thesis by (simp add: quote_body.simps [of "[]"] unquote.simps [of "CHR 0x22 # r"])
  next
    case 2
    then have "quote_body s = (CHR 0x5C # ''ufffd'') @ quote_body (drop 1 s)" by (subst quote_body.simps) simp
    then show ?thesis
      using 1(1) [OF 2] 2 unquote_char [OF string_char_bad, of "quote_body (drop 1 s) @ CHR 0x22 # r"] by (simp add: sanitize_rune)
  next
    case 3
    let ?x = "take (front_rune s) s" and ?q = "quote_body (drop (front_rune s) s) @ CHR 0x22 # r"
    have ok: "rune_ok (bytes_of_string ?x)" using 3(2) by (rule front_runeD)
    have "quote_body s = escape_rune ?x @ quote_body (drop (front_rune s) s)" using 3 by (subst quote_body.simps) simp
    then show ?thesis
      using 1(2) [OF 3] 3 unquote_char [OF string_char_rune [OF ok], of ?q] escape_rune_start [OF ok] by (simp add: sanitize_rune)
  qed
qed

lemma unquote_quote_text: "unquote (quote_body s @ [CHR 0x22] @ r) = Some (sanitize s, r)"
  using unquote_quote [of s r] by simp

subsection \<open>Numbers\<close>

text \<open>What can follow a number without being read as a part of it.\<close>

definition number_end :: "string \<Rightarrow> bool" where
  "number_end r \<longleftrightarrow> r = [] \<or> (\<not> is_digit (hd r) \<and> hd r \<notin> {CHR ''.'', CHR ''e'', CHR ''E'', CHR ''+'', CHR ''-''})"

lemma takeWhile_digits: "number_end r \<Longrightarrow> takeWhile is_digit (s @ r) = takeWhile is_digit s"
  by (cases r) (simp_all add: number_end_def takeWhile_tail)

lemma int_part_append: "number_end r \<Longrightarrow> int_part (s @ r) = int_part s"
  by (cases s) (auto simp: int_part_def takeWhile_digits number_end_def is_digit_def takeWhile_eq_Nil_iff)

lemma fraction_append: "number_end r \<Longrightarrow> fraction (s @ r) = fraction s"
  by (cases s) (auto simp: fraction_def takeWhile_digits number_end_def)

lemma exponent_append: "number_end r \<Longrightarrow> exponent (s @ r) = exponent s"
proof (cases s)
  case (Cons c cs)
  assume r: "number_end r"
  show ?thesis
  proof (cases cs)
    case Nil
    with Cons r show ?thesis by (auto simp: exponent_def Let_def number_end_def takeWhile_eq_Nil_iff)
  next
    case (Cons d ds)
    with \<open>s = c # cs\<close> r show ?thesis by (auto simp: exponent_def Let_def takeWhile_digits [of r "d # ds", simplified] takeWhile_digits)
  qed
qed (auto simp: exponent_def number_end_def)

lemma int_part_prefix: "prefix (int_part s) s"
  by (cases s) (auto simp: int_part_def takeWhile_is_prefix)

lemma fraction_prefix: "fraction s = Some f \<Longrightarrow> prefix f s"
  by (cases s) (auto simp: fraction_def Let_def takeWhile_is_prefix split: if_splits)

lemma number_front_append:
  assumes "number_end r" and "number_front s = Some lit"
  shows "number_front (s @ r) = Some lit"
proof -
  define sign where "sign = (if s \<noteq> [] \<and> hd s = CHR ''-'' then ''-'' else [])"
  define s1 where "s1 = drop (length sign) s"
  define s2 where "s2 = drop (length (int_part s1)) s1"
  obtain f ex where parts: "int_part s1 \<noteq> []" "fraction s2 = Some f" "exponent (drop (length f) s2) = Some ex"
      "lit = sign @ int_part s1 @ f @ ex"
    using assms(2) by (auto simp: number_front_def Let_def sign_def s1_def s2_def split: if_splits option.splits)
  then have ne: "s \<noteq> []" by (auto simp: s1_def int_part_def)
  then have sign: "sign = (if s @ r \<noteq> [] \<and> hd (s @ r) = CHR ''-'' then ''-'' else [])" by (simp add: sign_def)
  have "length sign \<le> length s" using ne by (cases s) (auto simp: sign_def)
  then have d1: "drop (length sign) (s @ r) = s1 @ r" by (simp add: s1_def)
  have d2: "drop (length (int_part s1)) (s1 @ r) = s2 @ r" by (simp add: s2_def prefix_length_le [OF int_part_prefix])
  have d3: "drop (length f) (s2 @ r) = drop (length f) s2 @ r" by (simp add: prefix_length_le [OF fraction_prefix [OF parts(2)]])
  show ?thesis
    unfolding number_front_def Let_def sign [symmetric] d1 int_part_append [OF assms(1)] d2 fraction_append [OF assms(1)] parts(2)
    using parts by (simp only: d3 exponent_append [OF assms(1)] if_False option.case)
qed

definition number_literal :: "string \<Rightarrow> bool" where
  "number_literal lit \<longleftrightarrow> number_front lit = Some lit"

lemma number_literal_start: "number_literal lit \<Longrightarrow> lit \<noteq> [] \<and> (is_digit (hd lit) \<or> hd lit = CHR ''-'')"
  by (cases lit) (auto simp: number_literal_def number_front_def Let_def int_part_def is_digit_def takeWhile_eq_Nil_iff
      split: if_splits option.splits)

subsection \<open>Tokens\<close>

lemma next_token_punctuation:
  "map_of punctuation c = Some t \<Longrightarrow> next_token (c # r) = Some (t, r)"
  by (auto simp: next_token_def punctuation_def json_space_def split: if_splits)

lemma next_token_string: "next_token (quote s @ r) = Some (TkLeaf (TStr (sanitize s)), r)"
  by (simp add: next_token_def quote_def json_space_def unquote_quote)

lemma next_token_word:
  "next_token (''null'' @ r) = Some (TkLeaf TNull, r)" "next_token (''true'' @ r) = Some (TkLeaf (TBool True), r)"
  "next_token (''false'' @ r) = Some (TkLeaf (TBool False), r)"
  by (simp_all add: next_token_def json_space_def punctuation_def word_token_def)

lemma next_token_number:
  assumes "number_literal lit" and "number_end r"
  shows "next_token (lit @ r) = Some (TkLeaf (TNum lit), r)"
proof -
  obtain c cs where lit: "lit = c # cs" "is_digit c \<or> c = CHR ''-''" using number_literal_start [OF assms(1)] by (cases lit) auto
  then have "\<not> json_space c" "c \<noteq> CHR 0x22" "map_of punctuation c = None"
    "c \<notin> {CHR ''n'', CHR ''t'', CHR ''f''}"
    by (auto simp: json_space_def punctuation_def is_digit_def)
  moreover have "number_front (c # cs @ r) = Some (c # cs)"
    using number_front_append [OF assms(2), of lit lit] assms(1) lit by (simp add: number_literal_def)
  ultimately show ?thesis using lit by (auto simp: next_token_def word_token_def)
qed

subsection \<open>Round trip\<close>

text \<open>What can be written and read again: numbers are literals, and the nesting is at most \<open>n\<close> levels.\<close>

fun writable :: "int \<Rightarrow> jtree \<Rightarrow> bool" where
  "writable n (TNum lit) = number_literal lit"
| "writable n (TArr vs) = (0 < n \<and> list_all (writable (n - 1)) vs)"
| "writable n (TObj kvs) = (0 < n \<and> list_all (\<lambda>kv. writable (n - 1) (snd kv)) kvs)"
| "writable n _ = True"

fun sanitize_tree :: "jtree \<Rightarrow> jtree" where
  "sanitize_tree (TStr s) = TStr (sanitize s)"
| "sanitize_tree (TArr vs) = TArr (map sanitize_tree vs)"
| "sanitize_tree (TObj kvs) = TObj (map (\<lambda>(k, v). (sanitize k, sanitize_tree v)) kvs)"
| "sanitize_tree t = t"

definition continue :: "reader \<Rightarrow> string \<Rightarrow> (jtree \<times> string) option" where
  "continue rd r = (case rd of Finished v \<Rightarrow> Some (v, r) | Open st m \<Rightarrow> read_loop st m r)"

lemma continue_Open [simp]: "continue (Open st m) r = read_loop st m r"
  by (simp add: continue_def)

lemma read_loop_step:
  "next_token s = Some (t, r) \<Longrightarrow> read_step m t st = Some rd \<Longrightarrow> read_loop st m s = continue rd r"
  by (subst read_loop.simps) (simp add: continue_def split: reader.split)

definition value_mode :: "mode \<Rightarrow> bool" where
  "value_mode m \<longleftrightarrow> m = BeginValue \<or> m = BeginValueOrEmpty"

lemma read_leaf:
  assumes "next_token s = Some (TkLeaf v, r)" and "value_mode m"
  shows "read_loop st m s = continue (end_value v st) r"
  using assms by (intro read_loop_step) (auto simp: value_mode_def begin_value_def)

lemma join_Cons: "join sep (x # xs) = x @ concat (map (\<lambda>y. sep @ y) xs)"
  by (induction xs arbitrary: x) auto

definition reads_back :: "int \<Rightarrow> jtree \<Rightarrow> bool" where
  "reads_back n v \<longleftrightarrow> (\<forall>st m r. int (length st) + n \<le> max_nesting \<and> value_mode m \<and> number_end r \<longrightarrow>
     read_loop st m (print_json v @ r) = continue (end_value (sanitize_tree v) st) r)"

lemma number_end_punctuation [simp]: "c \<in> {CHR '','', CHR '']'', CHR ''}''} \<Longrightarrow> number_end (c # r)"
  by (auto simp: number_end_def is_digit_def)

lemma read_elements:
  assumes "list_all (reads_back n) vs" and "int (length st) + n + 1 \<le> max_nesting"
  shows "read_loop (CArr acc # st) EndValue (concat (map (\<lambda>v. '','' @ print_json v) vs) @ '']'' @ r) =
    continue (end_value (TArr (rev acc @ map sanitize_tree vs)) st) r"
  using assms(1)
proof (induction vs arbitrary: acc)
  case Nil
  have "next_token ('']'' @ r) = Some (TkRBrack, r)" by (simp add: next_token_punctuation punctuation_def)
  then show ?case by (simp add: read_loop_step close_def)
next
  case (Cons v vs)
  let ?rest = "concat (map (\<lambda>v. '','' @ print_json v) vs) @ '']'' @ r"
  have tok: "next_token ('','' @ print_json v @ ?rest) = Some (TkComma, print_json v @ ?rest)"
    by (simp add: next_token_punctuation punctuation_def)
  have "number_end ?rest" by (cases vs) simp_all
  then have "read_loop (CArr acc # st) BeginValue (print_json v @ ?rest) = read_loop (CArr (sanitize_tree v # acc) # st) EndValue ?rest"
    using Cons.prems assms(2) by (simp add: reads_back_def value_mode_def end_value_def)
  with Cons.IH [of "sanitize_tree v # acc"] Cons.prems tok show ?case by (simp add: read_loop_step)
qed

definition print_member :: "string \<times> jtree \<Rightarrow> string" where
  "print_member kv = quote (fst kv) @ '':'' @ print_json (snd kv)"

lemma print_TObj: "print_json (TObj kvs) = ''{'' @ join '','' (map print_member kvs) @ ''}''"
  by (simp add: print_member_def [abs_def] case_prod_beta')

lemma read_member:
  assumes "reads_back n (snd kv)" and "int (length st) + n + 1 \<le> max_nesting" and "m \<in> {BeginString, BeginStringOrEmpty}" and "number_end r"
  shows "read_loop (CObj acc # st) m (print_member kv @ r) =
    read_loop (CObj ((sanitize (fst kv), sanitize_tree (snd kv)) # acc) # st) EndValue r"
proof -
  let ?k = "sanitize (fst kv)" and ?v = "print_json (snd kv) @ r"
  have "next_token (print_member kv @ r) = Some (TkLeaf (TStr ?k), '':'' @ ?v)"
    by (simp add: print_member_def next_token_string)
  moreover have "read_step m (TkLeaf (TStr ?k)) (CObj acc # st) = Some (Open (CField acc ?k # st) BeginColon)"
    using assms(3) by (auto simp: begin_key_def)
  moreover have "next_token ('':'' @ ?v) = Some (TkColon, ?v)" by (simp add: next_token_punctuation punctuation_def)
  ultimately show ?thesis
    using assms(1,2,4) by (simp add: read_loop_step reads_back_def value_mode_def end_value_def)
qed

lemma read_members:
  assumes "list_all (\<lambda>kv. reads_back n (snd kv)) kvs" and "int (length st) + n + 1 \<le> max_nesting"
  shows "read_loop (CObj acc # st) EndValue (concat (map (\<lambda>kv. '','' @ print_member kv) kvs) @ ''}'' @ r) =
    continue (end_value (TObj (rev acc @ map (\<lambda>(k, v). (sanitize k, sanitize_tree v)) kvs)) st) r"
  using assms(1)
proof (induction kvs arbitrary: acc)
  case Nil
  have "next_token (''}'' @ r) = Some (TkRBrace, r)" by (simp add: next_token_punctuation punctuation_def)
  then show ?case by (simp add: read_loop_step close_def)
next
  case (Cons kv kvs)
  let ?rest = "concat (map (\<lambda>kv. '','' @ print_member kv) kvs) @ ''}'' @ r"
  have tok: "next_token ('','' @ print_member kv @ ?rest) = Some (TkComma, print_member kv @ ?rest)"
    by (simp add: next_token_punctuation punctuation_def)
  have "number_end ?rest" by (cases kvs) simp_all
  then have "read_loop (CObj acc # st) BeginString (print_member kv @ ?rest) =
      read_loop (CObj ((sanitize (fst kv), sanitize_tree (snd kv)) # acc) # st) EndValue ?rest"
    using Cons.prems assms(2) by (intro read_member) auto
  with Cons.IH [of "(sanitize (fst kv), sanitize_tree (snd kv)) # acc"] Cons.prems tok show ?case
    by (simp add: read_loop_step case_prod_beta')
qed

lemma read_opening:
  assumes "value_mode m" and "int (length st) < max_nesting"
  shows "read_loop st m (''['' @ s) = read_loop (CArr [] # st) BeginValueOrEmpty s"
    "read_loop st m (''{'' @ s) = read_loop (CObj [] # st) BeginStringOrEmpty s"
proof -
  have "next_token (''['' @ s) = Some (TkLBrack, s)" "next_token (''{'' @ s) = Some (TkLBrace, s)"
    by (simp_all add: next_token_punctuation punctuation_def)
  with assms show "read_loop st m (''['' @ s) = read_loop (CArr [] # st) BeginValueOrEmpty s"
    "read_loop st m (''{'' @ s) = read_loop (CObj [] # st) BeginStringOrEmpty s"
    by (auto simp: read_loop_step value_mode_def begin_value_def push_def)
qed

lemma read_array:
  assumes "list_all (reads_back (n - 1)) vs" and "0 < n"
  shows "reads_back n (TArr vs)"
  unfolding reads_back_def
proof (intro allI impI, elim conjE)
  fix st :: "container list" and m r
  assume st: "int (length st) + n \<le> max_nesting" and m: "value_mode m" and "number_end r"
  have op: "read_loop st m (print_json (TArr vs) @ r) =
      read_loop (CArr [] # st) BeginValueOrEmpty (join '','' (map print_json vs) @ '']'' @ r)"
    using read_opening(1) [OF m, of st "join '','' (map print_json vs) @ '']'' @ r"] st assms(2) by simp
  show "read_loop st m (print_json (TArr vs) @ r) = continue (end_value (sanitize_tree (TArr vs)) st) r"
  proof (cases vs)
    case Nil
    have "next_token ('']'' @ r) = Some (TkRBrack, r)" by (simp add: next_token_punctuation punctuation_def)
    with op Nil show ?thesis by (simp add: read_loop_step close_def)
  next
    case (Cons v ws)
    let ?rest = "concat (map (\<lambda>v. '','' @ print_json v) ws) @ '']'' @ r"
    have "number_end ?rest" by (cases ws) simp_all
    then have "read_loop (CArr [] # st) BeginValueOrEmpty (print_json v @ ?rest) = read_loop (CArr [sanitize_tree v] # st) EndValue ?rest"
      using assms st Cons by (simp add: reads_back_def value_mode_def end_value_def)
    with op Cons assms st read_elements [of "n - 1" ws st "[sanitize_tree v]" r] show ?thesis by (simp add: join_Cons comp_def)
  qed
qed

lemma read_object:
  assumes "list_all (\<lambda>kv. reads_back (n - 1) (snd kv)) kvs" and "0 < n"
  shows "reads_back n (TObj kvs)"
  unfolding reads_back_def
proof (intro allI impI, elim conjE)
  fix st :: "container list" and m r
  assume st: "int (length st) + n \<le> max_nesting" and m: "value_mode m" and "number_end r"
  have op: "read_loop st m (print_json (TObj kvs) @ r) =
      read_loop (CObj [] # st) BeginStringOrEmpty (join '','' (map print_member kvs) @ ''}'' @ r)"
    unfolding print_TObj using read_opening(2) [OF m, of st "join '','' (map print_member kvs) @ ''}'' @ r"] st assms(2) by simp
  show "read_loop st m (print_json (TObj kvs) @ r) = continue (end_value (sanitize_tree (TObj kvs)) st) r"
  proof (cases kvs)
    case Nil
    have "next_token (''}'' @ r) = Some (TkRBrace, r)" by (simp add: next_token_punctuation punctuation_def)
    with op Nil show ?thesis by (simp add: read_loop_step close_def)
  next
    case (Cons kv ws)
    let ?rest = "concat (map (\<lambda>v. '','' @ print_member v) ws) @ ''}'' @ r"
    have "number_end ?rest" by (cases ws) simp_all
    then have "read_loop (CObj [] # st) BeginStringOrEmpty (print_member kv @ ?rest) =
        read_loop (CObj [(sanitize (fst kv), sanitize_tree (snd kv))] # st) EndValue ?rest"
      using assms st Cons by (intro read_member) auto
    with op Cons assms st read_members [of "n - 1" ws st "[(sanitize (fst kv), sanitize_tree (snd kv))]" r]
    show ?thesis by (simp add: join_Cons comp_def case_prod_beta')
  qed
qed

lemma read_word: "reads_back n TNull" "reads_back n (TBool x)"
  using next_token_word by (simp_all add: reads_back_def read_leaf)

lemma reads_back_writable: "writable n v \<Longrightarrow> reads_back n v"
proof (induction n v rule: writable.induct)
  case (2 n vs)
  then show ?case by (intro read_array) (auto simp: list_all_iff)
next
  case (3 n kvs)
  then show ?case by (intro read_object) (auto simp: list_all_iff)
qed (simp_all add: read_word, auto simp: reads_back_def intro!: read_leaf next_token_number next_token_string)

text \<open>A text that was written is read as the value that was written, with the strings made valid.\<close>

lemma parse_print:
  assumes "writable max_nesting v" and "number_end r"
  shows "read_loop [] BeginValue (print_json v @ r) = Some (sanitize_tree v, r)"
  using reads_back_writable [OF assms(1)] assms(2) by (simp add: reads_back_def value_mode_def end_value_def continue_def)

lemma tree_print:
  assumes "writable max_nesting v"
  shows "decoder_tree (print_json v) = Some (sanitize_tree v)" "unmarshal_tree (print_json v) = Some (sanitize_tree v)"
  using parse_print [OF assms, of "[]"] by (simp_all add: decoder_tree_def unmarshal_tree_def number_end_def)

end
