(* ===== verification/ArgDecode.thy ===== *)
theory ArgDecode
  imports Json Executor "HOL-Library.Monad_Syntax"
begin

text \<open>
  How the arguments of a tool are decoded (\<^verbatim>\<open>decodeArgs\<close> of \<^verbatim>\<open>internal/executor/executor.go\<close>): the first JSON value of the
  text is stored into the struct of the tool by the rules of \<^verbatim>\<open>encoding/json\<close>, with unknown fields refused.
  A key names the field with that name, or else the first one that it matches under case folding; a
  value that is repeated is stored again, and \<^verbatim>\<open>null\<close> leaves a field as it is. \<open>go_decoders\<close> is the
  collection of decoders that the executor uses; the theorems on the executor hold for any.
\<close>

section \<open>Definitions\<close>

subsection \<open>Fields\<close>

definition field_for :: "string list \<Rightarrow> string \<Rightarrow> string option" where
  "field_for names k = (if k \<in> set names then Some k else List.find (equal_fold k) names)"

text \<open>The fields that an object sets, in its order; \<open>strict\<close> is \<^verbatim>\<open>DisallowUnknownFields\<close>.\<close>

definition object_fields :: "bool \<Rightarrow> string list \<Rightarrow> jtree \<Rightarrow> (string \<times> jtree) list option" where
  "object_fields strict names t =
     (case t of
        TNull \<Rightarrow> Some []
      | TObj kvs \<Rightarrow>
          if strict \<and> \<not> list_all (\<lambda>kv. field_for names (fst kv) \<noteq> None) kvs then None
          else Some (List.map_filter (\<lambda>kv. map_option (\<lambda>f. (f, snd kv)) (field_for names (fst kv))) kvs)
      | _ \<Rightarrow> None)"

definition values_of :: "(string \<times> jtree) list \<Rightarrow> string \<Rightarrow> jtree list" where
  "values_of fvs f = map snd (filter (\<lambda>fv. fst fv = f) fvs)"

fun store_all :: "('a \<Rightarrow> jtree \<Rightarrow> 'a option) \<Rightarrow> 'a \<Rightarrow> jtree list \<Rightarrow> 'a option" where
  "store_all g a [] = Some a"
| "store_all g a (v # vs) = Option.bind (g a v) (\<lambda>a'. store_all g a' vs)"

fun store_string :: "string \<Rightarrow> jtree \<Rightarrow> string option" where
  "store_string a TNull = Some a"
| "store_string a (TStr s) = Some s"
| "store_string a _ = None"

fun store_bool :: "bool \<Rightarrow> jtree \<Rightarrow> bool option" where
  "store_bool a TNull = Some a"
| "store_bool a (TBool b) = Some b"
| "store_bool a _ = None"

fun store_int :: "int \<Rightarrow> jtree \<Rightarrow> int option" where
  "store_int a TNull = Some a"
| "store_int a (TNum lit) = parse_int64 lit"
| "store_int a _ = None"

fun store_uint32 :: "32 word \<Rightarrow> jtree \<Rightarrow> 32 word option" where
  "store_uint32 a TNull = Some a"
| "store_uint32 a (TNum lit) =
     (if lit = [] \<or> \<not> list_all is_digit lit \<or> int (digits_val lit) \<ge> 2 ^ 32 then None
      else Some (word_of_int (int (digits_val lit))))"
| "store_uint32 a _ = None"

text \<open>
  A slice keeps its backing array: an element of a second array is stored over the one that is there,
  so the value of a slice field is the array with the number of elements in use.
\<close>

fun store_elements :: "string list \<Rightarrow> jtree list \<Rightarrow> string list option" where
  "store_elements backing [] = Some backing"
| "store_elements backing (v # vs) =
     Option.bind (store_string (if backing = [] then [] else hd backing) v) (\<lambda>x.
     Option.bind (store_elements (tl backing) vs) (\<lambda>xs. Some (x # xs)))"

fun store_strings :: "string list \<times> nat \<Rightarrow> jtree \<Rightarrow> (string list \<times> nat) option" where
  "store_strings a TNull = Some ([], 0)"
| "store_strings a (TArr vs) =
     (if vs = [] then Some ([], 0) else map_option (\<lambda>xs. (xs, length vs)) (store_elements (fst a) vs))"
| "store_strings a _ = None"

fun store_members :: "(string \<times> string) list \<Rightarrow> (string \<times> jtree) list \<Rightarrow> (string \<times> string) list option" where
  "store_members m [] = Some m"
| "store_members m ((k, v) # kvs) = Option.bind (store_string [] v) (\<lambda>x. store_members (AList.update k x m) kvs)"

fun store_map :: "(string \<times> string) list \<Rightarrow> jtree \<Rightarrow> (string \<times> string) list option" where
  "store_map a TNull = Some []"
| "store_map a (TObj kvs) = store_members a kvs"
| "store_map a _ = None"

definition get_string :: "(string \<times> jtree) list \<Rightarrow> string \<Rightarrow> string option" where
  "get_string m f = store_all store_string [] (values_of m f)"

definition get_bool :: "(string \<times> jtree) list \<Rightarrow> string \<Rightarrow> bool option" where
  "get_bool m f = store_all store_bool False (values_of m f)"

definition get_int :: "(string \<times> jtree) list \<Rightarrow> string \<Rightarrow> int option" where
  "get_int m f = store_all store_int 0 (values_of m f)"

definition get_uint32 :: "(string \<times> jtree) list \<Rightarrow> string \<Rightarrow> 32 word option" where
  "get_uint32 m f = store_all store_uint32 0 (values_of m f)"

definition get_strings :: "(string \<times> jtree) list \<Rightarrow> string \<Rightarrow> string list option" where
  "get_strings m f = map_option (\<lambda>(backing, n). take n backing) (store_all store_strings ([], 0) (values_of m f))"

definition get_map :: "(string \<times> jtree) list \<Rightarrow> string \<Rightarrow> (string \<times> string) list option" where
  "get_map m f = store_all store_map [] (values_of m f)"

subsection \<open>The arguments of the tools\<close>

definition decode_struct :: "string list \<Rightarrow> string \<Rightarrow> (string \<times> jtree) list option" where
  "decode_struct names raw = Option.bind (decoder_tree raw) (object_fields True names)"

definition read_fields :: "string list" where "read_fields = [''path'', ''offset'', ''max_bytes'']"
definition write_fields :: "string list" where "write_fields = [''Path'', ''Content'', ''Encoding'', ''mode'']"
definition multi_fields :: "string list" where "multi_fields = [''paths'', ''max_bytes_per_file'']"
definition edit_fields :: "string list" where "edit_fields = [''file_path'', ''old_string'', ''new_string'', ''expected_replacements'']"
definition path_fields :: "string list" where "path_fields = [''path'']"
definition mkdir_fields :: "string list" where "mkdir_fields = [''path'', ''mode'']"
definition move_fields :: "string list" where "move_fields = [''source'', ''destination'', ''overwrite'']"
definition start_fields :: "string list" where "start_fields = [''argv'', ''command'', ''cwd'', ''env'']"
definition output_fields :: "string list" where "output_fields = [''process_id'', ''cursor'', ''max_bytes'']"
definition input_fields :: "string list" where "input_fields = [''process_id'', ''data'', ''encoding'']"
definition process_fields :: "string list" where "process_fields = [''process_id'']"
definition query_fields :: "string list" where
  "query_fields = [''path'', ''pattern'', ''search_type'', ''regex'', ''case_sensitive'', ''include_hidden'', ''max_results'', ''max_file_bytes'']"
definition more_fields :: "string list" where "more_fields = [''session_id'', ''max_results'']"
definition session_fields :: "string list" where "session_fields = [''session_id'']"
definition max_fields :: "string list" where "max_fields = [''max_results'']"
definition pid_fields :: "string list" where "pid_fields = [''pid'']"

definition decode_read :: "string \<Rightarrow> read_args option" where
  "decode_read raw = do {
     m \<leftarrow> decode_struct read_fields raw;
     path \<leftarrow> get_string m ''path'';
     offset \<leftarrow> get_int m ''offset'';
     maxBytes \<leftarrow> get_int m ''max_bytes'';
     Some \<lparr>ra_path = path, ra_offset = offset, ra_max_bytes = maxBytes\<rparr> }"

definition decode_write :: "string \<Rightarrow> write_args option" where
  "decode_write raw = do {
     m \<leftarrow> decode_struct write_fields raw;
     path \<leftarrow> get_string m ''Path'';
     content \<leftarrow> get_string m ''Content'';
     encoding \<leftarrow> get_string m ''Encoding'';
     mode \<leftarrow> get_uint32 m ''mode'';
     Some \<lparr>wa_path = path, wa_content = content, wa_encoding = encoding, wa_mode = mode\<rparr> }"

definition decode_multi :: "string \<Rightarrow> (string list \<times> int) option" where
  "decode_multi raw = do {
     m \<leftarrow> decode_struct multi_fields raw;
     paths \<leftarrow> get_strings m ''paths'';
     n \<leftarrow> get_int m ''max_bytes_per_file'';
     Some (paths, n) }"

definition decode_edit :: "string \<Rightarrow> edit_args option" where
  "decode_edit raw = do {
     m \<leftarrow> decode_struct edit_fields raw;
     path \<leftarrow> get_string m ''file_path'';
     old \<leftarrow> get_string m ''old_string'';
     new \<leftarrow> get_string m ''new_string'';
     n \<leftarrow> get_int m ''expected_replacements'';
     Some \<lparr>ea_file_path = path, ea_old_string = old, ea_new_string = new, ea_expected = n\<rparr> }"

definition decode_path :: "string \<Rightarrow> string option" where
  "decode_path raw = do {
     m \<leftarrow> decode_struct path_fields raw;
     get_string m ''path'' }"

definition decode_mkdir :: "string \<Rightarrow> (string \<times> 32 word) option" where
  "decode_mkdir raw = do {
     m \<leftarrow> decode_struct mkdir_fields raw;
     path \<leftarrow> get_string m ''path'';
     mode \<leftarrow> get_uint32 m ''mode'';
     Some (path, mode) }"

definition decode_move :: "string \<Rightarrow> move_args option" where
  "decode_move raw = do {
     m \<leftarrow> decode_struct move_fields raw;
     src \<leftarrow> get_string m ''source'';
     dst \<leftarrow> get_string m ''destination'';
     over \<leftarrow> get_bool m ''overwrite'';
     Some \<lparr>ma_source = src, ma_destination = dst, ma_overwrite = over\<rparr> }"

definition decode_start :: "string \<Rightarrow> start_request option" where
  "decode_start raw = do {
     m \<leftarrow> decode_struct start_fields raw;
     av \<leftarrow> get_strings m ''argv'';
     c \<leftarrow> get_string m ''command'';
     dir \<leftarrow> get_string m ''cwd'';
     ev \<leftarrow> get_map m ''env'';
     Some \<lparr>argv = av, command = c, sr_cwd = dir, envs = ev\<rparr> }"

definition decode_output :: "string \<Rightarrow> (string \<times> int \<times> int) option" where
  "decode_output raw = do {
     m \<leftarrow> decode_struct output_fields raw;
     sid \<leftarrow> get_string m ''process_id'';
     cursor \<leftarrow> get_int m ''cursor'';
     maxBytes \<leftarrow> get_int m ''max_bytes'';
     Some (sid, cursor, maxBytes) }"

definition decode_input :: "string \<Rightarrow> input_args option" where
  "decode_input raw = do {
     m \<leftarrow> decode_struct input_fields raw;
     sid \<leftarrow> get_string m ''process_id'';
     data \<leftarrow> get_string m ''data'';
     encoding \<leftarrow> get_string m ''encoding'';
     Some \<lparr>ia_process_id = sid, ia_data = data, ia_encoding = encoding\<rparr> }"

definition decode_process :: "string \<Rightarrow> string option" where
  "decode_process raw = do {
     m \<leftarrow> decode_struct process_fields raw;
     get_string m ''process_id'' }"

definition decode_query :: "string \<Rightarrow> query option" where
  "decode_query raw = do {
     m \<leftarrow> decode_struct query_fields raw;
     path \<leftarrow> get_string m ''path'';
     pattern \<leftarrow> get_string m ''pattern'';
     kind \<leftarrow> get_string m ''search_type'';
     regex \<leftarrow> get_bool m ''regex'';
     sensitive \<leftarrow> get_bool m ''case_sensitive'';
     hidden \<leftarrow> get_bool m ''include_hidden'';
     maxResults \<leftarrow> get_int m ''max_results'';
     maxFile \<leftarrow> get_int m ''max_file_bytes'';
     Some \<lparr>q_path = path, q_pattern = pattern, q_type = kind, q_regex = regex, q_case = sensitive, q_hidden = hidden,
           q_max_results = maxResults, q_max_file = maxFile\<rparr> }"

definition decode_more :: "string \<Rightarrow> (string \<times> int) option" where
  "decode_more raw = do {
     m \<leftarrow> decode_struct more_fields raw;
     sid \<leftarrow> get_string m ''session_id'';
     n \<leftarrow> get_int m ''max_results'';
     Some (sid, n) }"

definition decode_session :: "string \<Rightarrow> string option" where
  "decode_session raw = do {
     m \<leftarrow> decode_struct session_fields raw;
     get_string m ''session_id'' }"

definition decode_max :: "string \<Rightarrow> int option" where
  "decode_max raw = do {
     m \<leftarrow> decode_struct max_fields raw;
     get_int m ''max_results'' }"

definition decode_pid :: "string \<Rightarrow> int option" where
  "decode_pid raw = do {
     m \<leftarrow> decode_struct pid_fields raw;
     get_int m ''pid'' }"

definition go_decoders :: decoders where
  "go_decoders =
     \<lparr>dec_read = decode_read, dec_write = decode_write, dec_multi = decode_multi, dec_edit = decode_edit, dec_path = decode_path,
      dec_mkdir = decode_mkdir, dec_move = decode_move, dec_start = decode_start, dec_output = decode_output, dec_input = decode_input,
      dec_process = decode_process, dec_query = decode_query, dec_more = decode_more, dec_session = decode_session,
      dec_max = decode_max, dec_pid = decode_pid\<rparr>"

end
