(* ===== verification/Credentials.thy ===== *)
theory Credentials
  imports AgentMain ArgDecode AtomicWrite
begin

text \<open>
  How the agent keeps its credentials (\<^verbatim>\<open>credentialsPath\<close>, \<^verbatim>\<open>loadCredentials\<close> and \<^verbatim>\<open>saveCredentials\<close> of \<^verbatim>\<open>cmd/orc-agent/main.go\<close>), and
  the start of the program, which uses them. The file is written under another name first and then
  renamed; the system calls are those of the file tools, with \<^verbatim>\<open>os.WriteFile\<close> and \<^verbatim>\<open>os.Chmod\<close> added. As there, an operation returns
  the states that the file system goes through.
\<close>

section \<open>Definitions\<close>

subsection \<open>System calls\<close>

text \<open>
  Where \<^verbatim>\<open>O_CREAT\<close> makes a file: at the entry, or at the end of a chain of symbolic links that starts there.
\<close>

fun create_at :: "nat \<Rightarrow> fsys \<Rightarrow> string \<Rightarrow> oserr + loc" where
  "create_at n fs path =
     bindE (dir_entry fs path) (\<lambda>q.
       case nodes fs q of
         Some (Link m t) \<Rightarrow>
           (case n of 0 \<Rightarrow> Inl ELOOP | Suc k \<Rightarrow> create_at k fs (if is_abs t then t else path_of (butlast q) @ ''/'' @ t))
       | _ \<Rightarrow> Inr q)"

declare create_at.simps [simp del]

definition open_trunc :: "env \<Rightarrow> fsys \<Rightarrow> string \<Rightarrow> 32 word \<Rightarrow> oserr + (loc \<times> fsys)" where
  "open_trunc e fs path mode =
     (case create_fault e of
        Some err \<Rightarrow> Inl err
      | None \<Rightarrow>
        (case walk fs True (max_links fs) [] (split_on CHR ''/'' path) of
           Inr (q, _) \<Rightarrow>
             (case nodes fs q of
                Some (File m d) \<Rightarrow> Inr (q, with_node fs q (File (m\<lparr>mtime := now e\<rparr>) []))
              | Some (Directory _) \<Rightarrow> Inl EISDIR
              | Some _ \<Rightarrow> Inr (q, fs)
              | None \<Rightarrow> Inl ENOENT)
         | Inl err \<Rightarrow>
             if err \<noteq> ENOENT then Inl err
             else bindE (create_at (max_links fs) fs path) (\<lambda>q.
                    if nodes fs q \<noteq> None then Inl ENOENT else Inr (q, with_node fs q (File \<lparr>perm = mode, mtime = now e\<rparr> [])))))"

definition put_bytes :: "fsys \<Rightarrow> loc \<Rightarrow> bytes \<Rightarrow> fsys" where
  "put_bytes fs q data = (case nodes fs q of Some (File m d) \<Rightarrow> with_node fs q (File m data) | _ \<Rightarrow> fs)"

text \<open>\<^verbatim>\<open>os.WriteFile\<close>.\<close>

definition os_write_file :: "env \<Rightarrow> fsys \<Rightarrow> string \<Rightarrow> bytes \<Rightarrow> 32 word \<Rightarrow> (goerror + unit) \<times> fsys list" where
  "os_write_file e fs path data mode =
     (case open_trunc e fs path mode of
        Inl err \<Rightarrow> (Inl (ErrOS err), [fs])
      | Inr (q, fs1) \<Rightarrow>
        (case write_fault e of
           Some (n, err) \<Rightarrow> (Inl (ErrOS err), [fs, fs1, put_bytes fs1 q (take n data)])
         | None \<Rightarrow>
           (case close_fault e of
              Some err \<Rightarrow> (Inl (ErrOS err), [fs, fs1, put_bytes fs1 q data])
            | None \<Rightarrow> (Inr (), [fs, fs1, put_bytes fs1 q data]))))"

definition with_perm :: "32 word \<Rightarrow> node \<Rightarrow> node" where
  "with_perm p nd =
     (case nd of
        File m d \<Rightarrow> File (m\<lparr>perm := p\<rparr>) d
      | Directory m \<Rightarrow> Directory (m\<lparr>perm := p\<rparr>)
      | Link m t \<Rightarrow> Link (m\<lparr>perm := p\<rparr>) t
      | Special m \<Rightarrow> Special (m\<lparr>perm := p\<rparr>))"

definition os_chmod :: "env \<Rightarrow> fsys \<Rightarrow> string \<Rightarrow> 32 word \<Rightarrow> oserr + fsys" where
  "os_chmod e fs path mode =
     (case chmod_fault e of
        Some err \<Rightarrow> Inl err
      | None \<Rightarrow>
        bindE (walk fs True (max_links fs) [] (split_on CHR ''/'' path)) (\<lambda>(q, _).
        bindE (node_at fs q) (\<lambda>nd. Inr (with_node fs q (with_perm mode nd)))))"

subsection \<open>The credential file\<close>

definition filepath_join :: "string list \<Rightarrow> string" where
  "filepath_join es = (let r = dropWhile (\<lambda>x. x = []) es in if r = [] then [] else clean (join ''/'' r))"

text \<open>\<open>win_join\<close> is \<^verbatim>\<open>filepath.Join\<close> on Windows. \<^verbatim>\<open>main\<close> ignores the error and goes on with an empty path.\<close>

definition credentials_path :: "(string list \<Rightarrow> string) \<Rightarrow> system \<Rightarrow> goerror + string" where
  "credentials_path win_join sy =
     (if on_windows sy then
        (let base = getenv sy ''APPDATA''
         in if base = [] then Inl (ErrMsg ''APPDATA is not set'')
            else Inr (win_join [base, ''OpenRemoteCommander'', ''device.json'']))
      else (case home_dir sy of
              None \<Rightarrow> Inl (ErrMsg ''home directory'')
            | Some home \<Rightarrow> Inr (filepath_join [home, ''.config'', ''open-remote-commander'', ''device.json''])))"

text \<open>\<^verbatim>\<open>json.MarshalIndent\<close> of the credentials, and \<^verbatim>\<open>json.Unmarshal\<close> into them.\<close>

definition credentials_text :: "credentials \<Rightarrow> string" where
  "credentials_text c =
     ''{'' @ [CHR 0x0A] @ ''  '' @ quote ''device_id'' @ '': '' @ quote (cred_device c) @ '','' @ [CHR 0x0A] @
     ''  '' @ quote ''token'' @ '': '' @ quote (cred_token c) @ [CHR 0x0A] @ ''}''"

definition decode_credentials :: "string \<Rightarrow> credentials option" where
  "decode_credentials s = do {
     t \<leftarrow> unmarshal_tree s;
     m \<leftarrow> object_fields False [''device_id'', ''token''] t;
     d \<leftarrow> get_string m ''device_id'';
     k \<leftarrow> get_string m ''token'';
     Some \<lparr>cred_device = d, cred_token = k\<rparr> }"

definition load_credentials_file :: "env \<Rightarrow> fsys \<Rightarrow> string \<Rightarrow> goerror + credentials" where
  "load_credentials_file e fs path =
     bindE (open_read e fs path) (\<lambda>b.
       load_credentials (case decode_credentials (string_of_bytes b) of None \<Rightarrow> Inl (ErrMsg ''json'') | Some c \<Rightarrow> Inr c))"

definition publish :: "env \<Rightarrow> string \<Rightarrow> string \<Rightarrow> fsys list \<Rightarrow> (goerror + unit) \<times> fsys list" where
  "publish e tmp path trace =
     (case os_chmod e (last trace) tmp 0x180 of
        Inl err \<Rightarrow>
          (Inl (ErrOS err),
           trace @ [case remove_fault e of
                      Some _ \<Rightarrow> last trace
                    | None \<Rightarrow> (case sys_remove (last trace) tmp of Inl _ \<Rightarrow> last trace | Inr fs \<Rightarrow> fs)])
      | Inr fs1 \<Rightarrow>
          (case (case rename_fault e of Some err \<Rightarrow> Inl err | None \<Rightarrow> os_rename fs1 tmp path) of
             Inl err \<Rightarrow> (Inl (ErrOS err), trace @ [fs1])
           | Inr fs2 \<Rightarrow> (Inr (), trace @ [fs1, fs2])))"

definition save_credentials :: "env \<Rightarrow> fsys \<Rightarrow> string \<Rightarrow> credentials \<Rightarrow> (goerror + unit) \<times> fsys list" where
  "save_credentials e fs path c =
     (if path = [] then (Inl (ErrMsg ''credential path unavailable''), [fs])
      else (case mkdir_all fs \<lparr>perm = 0x1C0, mtime = now e\<rparr> (comps (path_dir path)) of
              (Inl err, tr) \<Rightarrow> (Inl (ErrOS err), tr)
            | (Inr _, tr) \<Rightarrow>
              (case os_write_file e (last tr) (path @ ''.tmp'') (bytes_of_string (credentials_text c)) 0x180 of
                 (Inl err, tr1) \<Rightarrow> (Inl err, tr @ tl tr1)
               | (Inr _, tr1) \<Rightarrow> publish e (path @ ''.tmp'') path (tr @ tl tr1))))"

subsection \<open>The start of the program\<close>

text \<open>
  \<^verbatim>\<open>main\<close> up to its reconnection loop: the exit status, or the credentials and the executor it goes on with.
  \<open>paired\<close> is what \<^verbatim>\<open>pair\<close> would return; a failure to save the credentials is only logged.
\<close>

definition start_credentials ::
  "env \<Rightarrow> string \<Rightarrow> agent_config \<Rightarrow> goerror + credentials \<Rightarrow> fsys \<Rightarrow> (goerror + credentials) \<times> fsys" where
  "start_credentials e path cfg paired fs =
     (let saved = (case load_credentials_file e fs path of Inl _ \<Rightarrow> None | Inr c \<Rightarrow> Some c)
      in case choose_credentials cfg saved (Inl (ErrMsg ''unpaired'')) of
           Inr c \<Rightarrow> (Inr c, fs)
         | Inl _ \<Rightarrow>
           (case paired of
              Inl err \<Rightarrow> (Inl err, fs)
            | Inr c \<Rightarrow> (Inr c, last (snd (save_credentials e fs path c)))))"

definition agent_main ::
  "(string list \<Rightarrow> string) \<Rightarrow> system \<Rightarrow> env \<Rightarrow> goerror + credentials \<Rightarrow> fsys \<Rightarrow> (nat + (credentials \<times> executor \<times> agent_state)) \<times> fsys" where
  "agent_main win_join sy e paired fs =
     (case load_agent sy fs of
        Inl _ \<Rightarrow> (Inl 2, fs)
      | Inr cfg \<Rightarrow>
        (case start_credentials e (case credentials_path win_join sy of Inl _ \<Rightarrow> [] | Inr p \<Rightarrow> p) cfg paired fs of
           (Inl _, fs1) \<Rightarrow> (Inl 1, fs1)
         | (Inr c, fs1) \<Rightarrow>
           (case start_executor fs1 cfg of
              Inl _ \<Rightarrow> (Inl 2, fs1)
            | Inr (ex, st) \<Rightarrow> (Inr (c, ex, st), fs1))))"

text \<open>
  The keep-alive goroutine of a connection: on each tick it writes a ping, and it reports the first write that fails.
  The events are ticks, with the failure of the write if it fails, and the end of the program.
\<close>

datatype keep_event = KeepTick "goerror option" | KeepDone

fun keep_alive :: "keep_event list \<Rightarrow> frame list \<times> goerror option" where
  "keep_alive [] = ([], None)"
| "keep_alive (KeepDone # evs) = ([], None)"
| "keep_alive (KeepTick (Some err) # evs) = ([empty_frame TypePing], Some err)"
| "keep_alive (KeepTick None # evs) = (case keep_alive evs of (fs, r) \<Rightarrow> (empty_frame TypePing # fs, r))"

text \<open>
  The reconnection loop. One turn is a connection that ended and the wait after it; the flags say whether the program was
  told to stop before the turn, during the connection, or during the wait. The value is the list of waits that were started.
\<close>

record attempt =
  at_stopped :: bool
  at_stopped_serving :: bool
  at_stopped_waiting :: bool

fun reconnect_loop :: "duration \<Rightarrow> attempt list \<Rightarrow> duration list" where
  "reconnect_loop backoff [] = []"
| "reconnect_loop backoff (a # as) =
     (if at_stopped a \<or> at_stopped_serving a then []
      else backoff # (if at_stopped_waiting a then [] else reconnect_loop (next_backoff backoff) as))"

section \<open>Lemmas\<close>

subsection \<open>The text\<close>

lemma next_token_space: "json_space c \<Longrightarrow> next_token (c # s) = next_token s"
  by (simp add: next_token_def)

lemma next_token_spaced [simp]:
  "next_token (CHR 0x20 # s) = next_token s" "next_token (CHR 0x0A # s) = next_token s"
  by (simp_all add: next_token_space json_space_def)

lemma next_token_marks [simp]:
  "next_token (CHR ''{'' # s) = Some (TkLBrace, s)" "next_token (CHR ''}'' # s) = Some (TkRBrace, s)"
  "next_token (CHR '':'' # s) = Some (TkColon, s)" "next_token (CHR '','' # s) = Some (TkComma, s)"
  by (simp_all add: next_token_punctuation punctuation_def)

lemma sanitize_keys [simp]: "sanitize ''device_id'' = ''device_id''" "sanitize ''token'' = ''token''"
  by code_simp+

lemma credentials_tree:
  "unmarshal_tree (credentials_text c) =
     Some (TObj [(''device_id'', TStr (sanitize (cred_device c))), (''token'', TStr (sanitize (cred_token c)))])"
proof -
  have "read_loop [] BeginValue (credentials_text c) =
      Some (TObj [(''device_id'', TStr (sanitize (cred_device c))), (''token'', TStr (sanitize (cred_token c)))], [])"
    unfolding credentials_text_def
    by (simp add: read_loop_step next_token_string begin_value_def push_def max_nesting_def begin_key_def end_value_def close_def continue_def)
  then show ?thesis by (simp add: unmarshal_tree_def)
qed

lemma credentials_decoded:
  assumes "utf8_valid (bytes_of_string (cred_device c))" and "utf8_valid (bytes_of_string (cred_token c))"
  shows "decode_credentials (credentials_text c) = Some c"
  using assms by (simp add: decode_credentials_def credentials_tree object_fields_def field_for_def get_string_def values_of_def sanitize_valid
      List.map_filter_def)

subsection \<open>The temporary file\<close>

text \<open>A place for the temporary file: a directory, and in it nothing or an old file of that name.\<close>

definition spare :: "fsys \<Rightarrow> loc \<Rightarrow> bool" where
  "spare fs t \<longleftrightarrow> (case nodes fs t of None \<Rightarrow> True | Some (File _ _) \<Rightarrow> True | _ \<Rightarrow> False)"

definition slot :: "fsys \<Rightarrow> loc \<Rightarrow> bool" where
  "slot fs t \<longleftrightarrow> wf_fs fs \<and> canonical t \<and> t \<noteq> [] \<and> link_free fs (butlast t) \<and> is_dir_at fs (butlast t) \<and> spare fs t"

lemma link_free_entry: "link_free fs (butlast t) \<Longrightarrow> \<not> is_link_at fs t \<Longrightarrow> link_free fs t"
  unfolding link_free_iff by (cases t rule: rev_cases) auto

lemma spare_leaf: "spare fs t \<Longrightarrow> \<not> is_link_at fs t \<and> \<not> is_dir_at fs t"
  by (auto simp: spare_def is_link_at_def is_dir_at_def split: option.splits node.splits)

definition holds_file :: "fsys \<Rightarrow> loc \<Rightarrow> meta \<Rightarrow> bytes \<Rightarrow> fsys \<Rightarrow> bool" where
  "holds_file fs t m d s \<longleftrightarrow> same_os fs s \<and> nodes s = (nodes fs)(t \<mapsto> File m d)"

definition staged :: "fsys \<Rightarrow> loc \<Rightarrow> fsys \<Rightarrow> bool" where
  "staged fs t s \<longleftrightarrow> (\<exists>m d. holds_file fs t m d s)"

lemma stagedI: "holds_file fs t m d s \<Longrightarrow> staged fs t s"
  by (auto simp: staged_def)

lemma holds_file_with: "holds_file fs t m d s \<Longrightarrow> holds_file fs t m' d' (with_node s t (File m' d'))"
  "holds_file fs t m d (with_node fs t (File m d))"
  by (auto simp: holds_file_def)

lemma holds_file_slot:
  assumes "slot fs t" and "holds_file fs t m d s"
  shows "wf_fs s" "link_free s t" "dir_entry s (path_of t) = Inr q \<Longrightarrow> q = t"
proof -
  let ?w = "with_node fs t (File m d)"
  have n: "nodes s = nodes ?w" and os: "same_os ?w s" using assms(2) by (simp_all add: holds_file_def same_os_def)
  have t: "t = butlast t @ [last t]" "name_ok (last t)"
    using assms(1) by (auto simp: slot_def canonical_def list_all_iff)
  have "wf_fs (with_node fs (butlast t @ [last t]) (File m d))"
    using assms(1) t spare_leaf by (intro wf_with) (auto simp: slot_def)
  then have "wf_fs ?w" using t by simp
  then show "wf_fs s" by (rule wf_same_nodes [OF _ os n])
  have "link_free fs t" using assms(1) spare_leaf link_free_entry by (auto simp: slot_def)
  then have "link_free ?w t" by (simp add: link_free_with)
  then show lf: "link_free s t" by (simp add: link_free_same_nodes [OF n])
  then show "dir_entry s (path_of t) = Inr q \<Longrightarrow> q = t"
    using dir_entry_link_free(1) [OF _ _ link_free_butlast [OF lf]] assms(1) by (auto simp: slot_def)
qed

lemma walk_slot:
  assumes "slot fs t" and "holds_file fs t m d s" and "walk s fol n [] (split_on CHR ''/'' (path_of t)) = Inr (q, k)"
  shows "q = t"
  using walk_link_free [of s fol n "[]" t q k] assms holds_file_slot(2) [OF assms(1,2)] by (simp add: slot_def walk_root_path)

lemma open_trunc_slot:
  assumes "slot fs t" and "open_trunc e fs (path_of t) mode = Inr (q, s)"
  shows "q = t \<and> (\<exists>m. mtime m = now e \<and> holds_file fs t m [] s)"
proof -
  have can: "canonical t" and lf: "link_free fs t" and sp: "spare fs t"
    using assms(1) spare_leaf link_free_entry by (auto simp: slot_def)
  show ?thesis
  proof (cases "walk fs True (max_links fs) [] (split_on CHR ''/'' (path_of t))")
    case (Inr qk)
    then obtain k where w: "walk fs True (max_links fs) [] (split_on CHR ''/'' (path_of t)) = Inr (t, k)"
      using walk_link_free [of fs True "max_links fs" "[]" t] can lf by (cases qk) (fastforce simp: walk_root_path)
    with assms(2) sp obtain m d where "nodes fs t = Some (File m d)" "q = t" "s = with_node fs t (File (m\<lparr>mtime := now e\<rparr>) [])"
      by (auto simp: open_trunc_def spare_def split: option.splits node.splits)
    then show ?thesis by (intro conjI exI [of _ "m\<lparr>mtime := now e\<rparr>"]) (simp_all add: holds_file_def)
  next
    case (Inl err)
    then have c: "create_at (max_links fs) fs (path_of t) = Inr q" "nodes fs q = None"
        "s = with_node fs q (File \<lparr>perm = mode, mtime = now e\<rparr> [])"
      using assms(2) by (auto simp: open_trunc_def err_simps split: option.splits if_splits)
    obtain q' where q': "dir_entry fs (path_of t) = Inr q'" using c(1) by (subst (asm) create_at.simps) (auto simp: err_simps)
    then have "q' = t" using dir_entry_link_free(1) [OF _ can link_free_butlast [OF lf]] by simp
    then have "q = t"
      using c(1) q' sp by (subst (asm) create_at.simps) (auto simp: spare_def split: option.splits node.splits)
    with c show ?thesis by (intro conjI exI [of _ "\<lparr>perm = mode, mtime = now e\<rparr>"]) (simp_all add: holds_file_def)
  qed
qed

lemma os_write_file_slot:
  assumes "slot fs t" and "os_write_file e fs (path_of t) data mode = (r, tr)"
  shows "tr \<noteq> [] \<and> hd tr = fs \<and> (\<forall>s\<in>set (tl tr). staged fs t s) \<and>
    (r = Inr () \<longrightarrow> tl tr \<noteq> [] \<and> (\<exists>m. mtime m = now e \<and> holds_file fs t m data (last tr)))"
proof (cases "open_trunc e fs (path_of t) mode")
  case (Inr qs)
  then obtain m s where s: "open_trunc e fs (path_of t) mode = Inr (t, s)" "mtime m = now e" "holds_file fs t m [] s"
    using open_trunc_slot [OF assms(1)] by (cases qs) blast
  then have put: "put_bytes s t d = with_node s t (File m d)" for d by (simp add: put_bytes_def holds_file_def)
  have h: "holds_file fs t m x (with_node s t (File m x))" for x using s(3) by (rule holds_file_with)
  have st: "staged fs t s" "staged fs t (with_node s t (File m x))" for x
    using s(3) h by (auto intro: stagedI)
  have "\<exists>m'. mtime m' = now e \<and> holds_file fs t m' data (with_node s t (File m data))" using h s(2) by blast
  then show ?thesis
    using assms(2) st unfolding os_write_file_def s(1)
    by (cases "write_fault e"; cases "close_fault e") (auto simp: put split: prod.splits)
qed (use assms(2) in \<open>auto simp: os_write_file_def\<close>)

lemma remove_slot:
  assumes "slot fs t" and "holds_file fs t m d s" and "cs \<noteq> t"
  shows "nodes (case sys_remove s (path_of t) of Inl _ \<Rightarrow> s | Inr s' \<Rightarrow> s') cs = nodes fs cs"
proof (cases "sys_remove s (path_of t)")
  case (Inr s')
  then obtain q where "dir_entry s (path_of t) = Inr q" "s' = without_node s q" by (auto simp: sys_remove_def err_simps split: if_splits)
  with holds_file_slot(3) [OF assms(1,2)] Inr assms(2,3) show ?thesis by (simp add: holds_file_def)
qed (use assms in \<open>simp add: holds_file_def\<close>)

lemma chmod_slot:
  assumes "slot fs t" and "holds_file fs t m d s" and "os_chmod e s (path_of t) p = Inr s'"
  shows "holds_file fs t (m\<lparr>perm := p\<rparr>) d s'"
proof -
  obtain q k nd where w: "walk s True (max_links s) [] (split_on CHR ''/'' (path_of t)) = Inr (q, k)"
      "node_at s q = Inr nd" "s' = with_node s q (with_perm p nd)"
    using assms(3) by (auto simp: os_chmod_def err_simps split: option.splits)
  then have "q = t" using walk_slot [OF assms(1,2)] by blast
  moreover have "nodes s t = Some (File m d)" using assms(2) by (simp add: holds_file_def)
  ultimately have "s' = with_node s t (File (m\<lparr>perm := p\<rparr>) d)" using w by (auto simp: node_at_def with_perm_def)
  then show ?thesis using holds_file_with(1) [OF assms(2)] by simp
qed

lemma rename_slot:
  assumes "slot fs t" and "holds_file fs t m d s" and "canonical cs" and "cs \<noteq> []" and "butlast cs = butlast t" and "cs \<noteq> t"
    and "os_rename s (path_of t) (path_of cs) = Inr s'"
  shows "nodes s' cs = Some (File m d)" "wf_fs s'" "clear s' cs"
proof -
  note S = holds_file_slot [OF assms(1,2)]
  have lf: "link_free s (butlast cs)" using link_free_butlast [OF S(2)] assms(5) by simp
  have t: "nodes s t = Some (File m d)" using assms(2) by (simp add: holds_file_def)
  from os_renameD [OF assms(7)] have "dir_entry s (path_of cs) = Inr cs \<and> s' = move_tree s t cs \<and> \<not> prefix t cs"
  proof (cases rule: sys_rename_cases)
    case (same a)
    then show ?thesis using S(3) dir_entry_link_free(1) [OF _ assms(3) lf] assms(6) by auto
  next
    case (moved a b)
    then show ?thesis using S(3) dir_entry_link_free(1) [OF _ assms(3) lf] by auto
  qed
  then have e: "dir_entry s (path_of cs) = Inr cs" "s' = move_tree s t cs" "\<not> prefix t cs" by blast+
  show "nodes s' cs = Some (File m d)" using e t by (simp add: nodes_move)
  show "wf_fs s'" using sys_rename_wf [OF S(1) os_renameD [OF assms(7)]] .
  have "clear s cs" using e(1) dir_entry_iff [OF S(1) assms(3,4) lf] by simp
  then show "clear s' cs" by (simp add: e(2) clear_def)
qed

lemma publish_slot:
  assumes "slot fs t" and "holds_file fs t m d (last tr)" and "canonical cs" and "cs \<noteq> []" and "butlast cs = butlast t" and "cs \<noteq> t"
    and "publish e (path_of t) (path_of cs) tr = (r, trace)"
  shows "\<exists>mid s. trace = tr @ mid @ [s] \<and> (\<forall>x\<in>set mid. nodes x cs = nodes fs cs) \<and>
    (if r = Inr () then nodes s cs = Some (File (m\<lparr>perm := 0x180\<rparr>) d) \<and> wf_fs s \<and> clear s cs else nodes s cs = nodes fs cs)"
proof (cases "os_chmod e (last tr) (path_of t) 0x180")
  case (Inl err)
  let ?s = "case remove_fault e of Some _ \<Rightarrow> last tr | None \<Rightarrow> (case sys_remove (last tr) (path_of t) of Inl _ \<Rightarrow> last tr | Inr fs \<Rightarrow> fs)"
  have "nodes ?s cs = nodes fs cs"
    using remove_slot [OF assms(1,2,6)] assms(2,6) by (auto simp: holds_file_def split: option.splits)
  moreover have "r = Inl (ErrOS err)" "trace = tr @ [] @ [?s]" using assms(7) Inl by (simp_all add: publish_def)
  ultimately show ?thesis by (intro exI [of _ "[]"] exI [of _ ?s]) simp
next
  case (Inr s1)
  note H = chmod_slot [OF assms(1,2) Inr]
  have keep: "nodes s1 cs = nodes fs cs" using H assms(6) by (simp add: holds_file_def)
  show ?thesis
  proof (cases "case rename_fault e of Some err \<Rightarrow> Inl err | None \<Rightarrow> os_rename s1 (path_of t) (path_of cs)")
    case (Inl err)
    then have "r = Inl (ErrOS err)" "trace = tr @ [] @ [s1]" using assms(7) Inr by (simp_all add: publish_def)
    with keep show ?thesis by (intro exI [of _ "[]"] exI [of _ s1]) simp
  next
    case (Inr s2)
    then have "os_rename s1 (path_of t) (path_of cs) = Inr s2" by (simp split: option.splits)
    note R = rename_slot [OF assms(1) H assms(3-6) this]
    have "r = Inr ()" "trace = tr @ [s1] @ [s2]"
      using assms(7) Inr \<open>os_chmod e (last tr) (path_of t) 0x180 = Inr s1\<close> by (simp_all add: publish_def)
    with R keep show ?thesis by (intro exI [of _ "[s1]"] exI [of _ s2]) simp
  qed
qed

subsection \<open>Saving\<close>

definition tmp_loc :: "loc \<Rightarrow> loc" where
  "tmp_loc cs = butlast cs @ [last cs @ ''.tmp'']"

lemma tmp_loc_facts:
  assumes "canonical cs" and "cs \<noteq> []"
  shows "canonical (tmp_loc cs)" "tmp_loc cs \<noteq> []" "butlast (tmp_loc cs) = butlast cs" "cs \<noteq> tmp_loc cs" "path_of cs @ ''.tmp'' = path_of (tmp_loc cs)"
    "\<not> prefix cs (butlast cs)" "\<not> prefix (tmp_loc cs) (butlast cs)"
proof -
  obtain d c where cs: "cs = d @ [c]" using assms(2) by (cases cs rule: rev_cases) auto
  with assms(1) have "name_ok (c @ ''.tmp'')" "canonical d" by (auto simp: name_ok_def canonical_def)
  then show "canonical (tmp_loc cs)" by (simp add: tmp_loc_def cs)
  show "path_of cs @ ''.tmp'' = path_of (tmp_loc cs)"
    by (cases "d = []") (auto simp: tmp_loc_def cs path_of_snoc path_of_def [of "[_]"])
  show "tmp_loc cs \<noteq> []" "butlast (tmp_loc cs) = butlast cs" "cs \<noteq> tmp_loc cs" by (simp_all add: tmp_loc_def cs)
  show "\<not> prefix cs (butlast cs)" "\<not> prefix (tmp_loc cs) (butlast cs)" by (auto simp: tmp_loc_def cs dest: prefix_length_le)
qed

text \<open>\<open>published cs fs tr r data\<close>: the file at \<open>cs\<close> is as before in all states but the last one, where it is replaced if the operation succeeded.\<close>

definition published :: "loc \<Rightarrow> fsys \<Rightarrow> fsys list \<Rightarrow> goerror + unit \<Rightarrow> bytes \<Rightarrow> bool" where
  "published cs fs tr r data \<longleftrightarrow> (\<exists>mid s. tr = mid @ [s] \<and> (\<forall>x\<in>set mid. nodes x cs = nodes fs cs) \<and>
     (if r = Inr () then (\<exists>m. perm m = 0x180 \<and> nodes s cs = Some (File m data)) \<and> wf_fs s \<and> clear s cs else nodes s cs = nodes fs cs))"

lemma published_kept:
  assumes "tr \<noteq> []" and "\<forall>x\<in>set tr. nodes x cs = nodes fs cs" and "r \<noteq> Inr ()"
  shows "published cs fs tr r data"
  unfolding published_def using assms by (intro exI [of _ "butlast tr"] exI [of _ "last tr"]) (auto dest: in_set_butlastD)

lemma publish_published:
  assumes "slot f t" "holds_file f t m b (last tr)" "canonical cs" "cs \<noteq> []" "butlast cs = butlast t" "cs \<noteq> t"
    and "publish e (path_of t) (path_of cs) tr = (r, tr')" and "\<forall>x\<in>set tr. nodes x cs = nodes fs cs" "nodes f cs = nodes fs cs"
  shows "published cs fs tr' r b"
proof -
  obtain mid s where ms: "tr' = tr @ mid @ [s]" "\<forall>x\<in>set mid. nodes x cs = nodes f cs"
    "if r = Inr () then nodes s cs = Some (File (m\<lparr>perm := 0x180\<rparr>) b) \<and> wf_fs s \<and> clear s cs else nodes s cs = nodes f cs"
    using publish_slot [OF assms(1-7)] by blast
  have "tr' = (tr @ mid) @ [s]" using ms(1) by simp
  moreover have "\<forall>x\<in>set (tr @ mid). nodes x cs = nodes fs cs" using assms(8,9) ms(2) by auto
  moreover have "\<exists>m'. perm m' = 0x180 \<and> nodes s cs = Some (File m' b)" if "r = Inr ()"
    using ms(3) that by (intro exI [of _ "m\<lparr>perm := 0x180\<rparr>"]) simp
  ultimately show ?thesis
    unfolding published_def using ms(3) assms(9)
    by (intro exI [of _ "tr @ mid"] exI [of _ s] conjI) (simp_all split: if_splits)
qed

lemma save_credentials_published:
  assumes "wf_fs fs" and "canonical cs" and "cs \<noteq> []" and "link_free fs (butlast cs)" and "spare fs (tmp_loc cs)"
    and "save_credentials e fs (path_of cs) c = (r, tr)"
  shows "published cs fs tr r (bytes_of_string (credentials_text c))"
proof -
  let ?t = "tmp_loc cs" and ?m = "\<lparr>perm = 0x1C0, mtime = now e\<rparr>" and ?b = "bytes_of_string (credentials_text c)"
  note T = tmp_loc_facts [OF assms(2,3)]
  obtain r0 tr0 where mk: "mkdir_all fs ?m (butlast cs) = (r0, tr0)" by fastforce
  note G = mkdir_all_grown [OF assms(1) canonical_butlast [OF assms(2)] assms(4) mk]
  have keep: "nodes x cs = nodes fs cs" "nodes x ?t = nodes fs ?t" if "grown ?m (butlast cs) fs x" for x
    using that T(6,7) unfolding grown_def by blast+
  have path: "path_of cs \<noteq> []" "comps (path_dir (path_of cs)) = butlast cs"
    using assms(2) by (simp_all add: path_of_def canonical_butlast flip: path_of_def)
  note run = assms(6) [unfolded save_credentials_def path(2) mk T(5) if_not_P [OF path(1)]]
  show ?thesis
  proof (cases r0)
    case (Inl err)
    then have "r = Inl (ErrOS err)" "tr = tr0" using run by simp_all
    with G keep show ?thesis by (intro published_kept) auto
  next
    case (Inr u)
    let ?f = "last tr0"
    obtain r1 tr1 where wr: "os_write_file e ?f (path_of ?t) ?b 0x180 = (r1, tr1)" by fastforce
    have f: "grown ?m (butlast cs) fs ?f" "is_dir_at ?f (butlast cs)" using G Inr by auto
    then have sl: "slot ?f ?t"
      using T grown_link_free [OF f(1) assms(4)] keep(2) [OF f(1)] assms(5) by (simp add: slot_def spare_def grown_def)
    note W = os_write_file_slot [OF sl wr]
    have kept: "nodes x cs = nodes fs cs" if "x \<in> set (tr0 @ tl tr1)" for x
    proof (cases "x \<in> set tr0")
      case True
      then show ?thesis using G keep(1) by blast
    next
      case False
      with that W have "staged ?f ?t x" by auto
      then show ?thesis using T(4) keep(1) [OF f(1)] by (auto simp: staged_def holds_file_def)
    qed
    show ?thesis
    proof (cases r1)
      case (Inl err)
      then have "r = Inl err" "tr = tr0 @ tl tr1" using run \<open>r0 = Inr u\<close> wr by simp_all
      with kept G show ?thesis by (intro published_kept) auto
    next
      case (Inr u1)
      then obtain m where m0: "holds_file ?f ?t m ?b (last tr1)" and ne: "tl tr1 \<noteq> []" using W by auto
      then have m: "holds_file ?f ?t m ?b (last (tr0 @ tl tr1))" by (simp add: last_tl)
      have "publish e (path_of ?t) (path_of cs) (tr0 @ tl tr1) = (r, tr)" using run \<open>r0 = Inr u\<close> Inr wr by simp
      then show ?thesis
        using publish_published [OF sl m assms(2,3) T(3) [symmetric] T(4)] kept keep(1) [OF f(1)] by blast
    qed
  qed
qed

subsection \<open>Reconnecting\<close>

lemma reconnect_nth: "i < length (reconnect_loop b as) \<Longrightarrow> reconnect_loop b as ! i = (next_backoff ^^ i) b"
proof (induction as arbitrary: b i)
  case (Cons a as)
  show ?case
  proof (cases i)
    case 0
    with Cons.prems show ?thesis by (simp split: if_splits)
  next
    case (Suc j)
    with Cons.prems Cons.IH [of j "next_backoff b"] show ?thesis by (simp add: funpow_swap1 split: if_splits)
  qed
qed simp

lemma keep_alive_pings: "set (fst (keep_alive evs)) \<subseteq> {empty_frame TypePing}" "validate (empty_frame TypePing) = Inr ()"
  by (induction evs rule: keep_alive.induct) (auto simp: validate_def empty_frame_def split: prod.splits)

lemma keep_alive_reports: "snd (keep_alive evs) = Some err \<Longrightarrow> KeepTick (Some err) \<in> set evs"
  by (induction evs rule: keep_alive.induct) (auto split: prod.splits)

section \<open>Properties\<close>

text \<open>
  C28. Credentials survive a restart, and a crash. Let the agent save complete credentials with valid strings to a path without symbolic links on the
  way, where the name of the temporary file is free or taken by an old file. In every state that the
  file system goes through, the credential file is what it was before, until the last step, which replaces it
  as a whole and only when the operation succeeds; then the file has permissions 0600, reading it gives the credentials back, and an agent that is
  started without configured credentials uses them without pairing again.
\<close>

theorem credentials_survive:
  assumes "wf_fs fs" and "canonical cs" and "cs \<noteq> []" and "link_free fs (butlast cs)" and "spare fs (tmp_loc cs)"
    and "save_credentials e fs (path_of cs) c = (r, tr)" and "complete c"
    and "utf8_valid (bytes_of_string (cred_device c))" and "utf8_valid (bytes_of_string (cred_token c))"
    and "open_fault e' cs = None" and "read_fault e' cs = None"
  shows "(\<forall>s\<in>set tr. nodes s cs = nodes fs cs \<or> r = Inr () \<and> s = last tr) \<and>
    (r = Inr () \<longrightarrow>
       (\<exists>m d. nodes (last tr) cs = Some (File m d) \<and> perm m = 0x180) \<and> load_credentials_file e' (last tr) (path_of cs) = Inr c \<and>
       (\<forall>cfg paired. ac_device_id cfg = [] \<or> agent_token cfg = [] \<longrightarrow>
          start_credentials e' (path_of cs) cfg paired (last tr) = (Inr c, last tr)))"
proof -
  obtain mid s where ms: "tr = mid @ [s]" "\<forall>x\<in>set mid. nodes x cs = nodes fs cs"
    "if r = Inr () then (\<exists>m. perm m = 0x180 \<and> nodes s cs = Some (File m (bytes_of_string (credentials_text c)))) \<and> wf_fs s \<and> clear s cs
     else nodes s cs = nodes fs cs"
    using save_credentials_published [OF assms(1-6)] by (auto simp: published_def)
  have "(\<exists>m d. nodes s cs = Some (File m d) \<and> perm m = 0x180) \<and> load_credentials_file e' s (path_of cs) = Inr c" if "r = Inr ()"
  proof -
    from that ms(3) obtain m where m: "perm m = 0x180" "nodes s cs = Some (File m (bytes_of_string (credentials_text c)))" "wf_fs s" "clear s cs"
      by auto
    have "open_read e' s (path_of cs) = Inr (bytes_of_string (credentials_text c))"
      using m(2-4) assms(10,11) by (intro open_read_location)
    with m assms(7) credentials_decoded [OF assms(8,9)] show ?thesis
      by (auto simp: load_credentials_file_def load_credentials_def)
  qed
  with ms assms(7) show ?thesis by (auto simp: start_credentials_def choose_credentials_def complete_def Let_def split: if_splits)
qed

definition demo_creds :: credentials where
  "demo_creds = \<lparr>cred_device = ''dev'', cred_token = ''tok''\<rparr>"

definition demo_cred_loc :: loc where
  "demo_cred_loc = [''r'', ''c'', ''device.json'']"

theorem credentials_survive_witness:
  "\<not> isl (fst (save_credentials demo_file_env demo_fs (path_of demo_cred_loc) demo_creds)) \<and>
   load_credentials_file demo_file_env (last (snd (save_credentials demo_file_env demo_fs (path_of demo_cred_loc) demo_creds)))
     (path_of demo_cred_loc) = Inr demo_creds"
proof -
  let ?run = "save_credentials demo_file_env demo_fs (path_of demo_cred_loc) demo_creds"
  obtain r tr where run: "?run = (r, tr)" by fastforce
  have ok: "\<not> isl (fst ?run)" by code_simp
  then have r: "r = Inr ()" by (cases r) (auto simp: run)
  have "canonical demo_cred_loc" "demo_cred_loc \<noteq> []" "link_free demo_fs (butlast demo_cred_loc)" "spare demo_fs (tmp_loc demo_cred_loc)"
    "complete demo_creds" "utf8_valid (bytes_of_string (cred_device demo_creds))" "utf8_valid (bytes_of_string (cred_token demo_creds))"
    "open_fault demo_file_env demo_cred_loc = None" "read_fault demo_file_env demo_cred_loc = None"
    by code_simp+
  from credentials_survive [OF wf_demo_fs this(1-4) run this(5-9)] r ok show ?thesis by (simp add: run)
qed

end
