(* ===== verification/WireTypes.thy ===== *)
theory WireTypes
  imports ArgDecode McpTools
begin

text \<open>
  The shared wire types (\<^verbatim>\<open>pkg/api/v1/types.go\<close>) and what the agent sends. A struct of the package is
  described by the names of its JSON members, whether a member may be missing, and the types of the
  members; \<open>conforms\<close> says when a JSON value is one that such a struct can be written as.
  \<open>encode_value\<close> is what \<^verbatim>\<open>json.Marshal\<close> writes for the value a handler of the executor returned.

  The lemmas relate the three descriptions of the arguments of a tool: the struct of the package, the schema
  that the MCP endpoint publishes, and the struct that the handler of the agent decodes into.
\<close>

section \<open>Definitions\<close>

datatype wtype =
    WString
  | WInt
  | WUint32
  | WBool
  | WTime
  | WAny
  | WStrings
  | WList wtype
  | WStruct "(string \<times> bool \<times> wtype) list"

text \<open>A member that is always there, and one that may be left out (\<^verbatim>\<open>omitempty\<close>).\<close>

definition req :: "string \<Rightarrow> wtype \<Rightarrow> string \<times> bool \<times> wtype" where "req name t = (name, True, t)"
definition opt :: "string \<Rightarrow> wtype \<Rightarrow> string \<times> bool \<times> wtype" where "opt name t = (name, False, t)"

definition integer_literal :: "string \<Rightarrow> bool" where
  "integer_literal lit \<longleftrightarrow>
     (let ds = (if lit \<noteq> [] \<and> hd lit = CHR ''-'' then tl lit else lit) in ds \<noteq> [] \<and> list_all is_digit ds)"

definition is_string :: "jtree \<Rightarrow> bool" where
  "is_string v = (case v of TStr _ \<Rightarrow> True | _ \<Rightarrow> False)"

text \<open>A nil slice is written as \<^verbatim>\<open>null\<close>.\<close>

fun conforms :: "wtype \<Rightarrow> jtree \<Rightarrow> bool" where
  "conforms WString v = is_string v"
| "conforms WInt v = (case v of TNum lit \<Rightarrow> integer_literal lit | _ \<Rightarrow> False)"
| "conforms WUint32 v = (case v of TNum lit \<Rightarrow> integer_literal lit \<and> hd lit \<noteq> CHR ''-'' | _ \<Rightarrow> False)"
| "conforms WBool v = (case v of TBool _ \<Rightarrow> True | _ \<Rightarrow> False)"
| "conforms WTime v = (case v of TStr s \<Rightarrow> is_ascii s \<and> s \<noteq> [] \<and> last s = CHR ''Z'' | _ \<Rightarrow> False)"
| "conforms WAny v = True"
| "conforms WStrings v =
     (case v of TObj kvs \<Rightarrow> list_all (\<lambda>kv. is_string (snd kv)) kvs | TNull \<Rightarrow> True | _ \<Rightarrow> False)"
| "conforms (WList t) v = (case v of TArr vs \<Rightarrow> list_all (conforms t) vs | TNull \<Rightarrow> True | _ \<Rightarrow> False)"
| "conforms (WStruct ms) v =
     (case v of
        TObj kvs \<Rightarrow>
          distinct (map fst kvs) \<and> set (map fst kvs) \<subseteq> set (map fst ms) \<and>
          list_all (\<lambda>m. case map_of kvs (fst m) of None \<Rightarrow> \<not> fst (snd m) | Some x \<Rightarrow> conforms (snd (snd m)) x) ms
      | _ \<Rightarrow> False)"

subsection \<open>The types of the package\<close>

definition DeviceCapabilities :: wtype where
  "DeviceCapabilities = WStruct [req ''filesystem'' WBool, req ''processes'' WBool, req ''shell'' WBool, req ''search'' WBool]"

definition RemoteError :: wtype where
  "RemoteError = WStruct [req ''code'' WString, req ''message'' WString]"

definition Device_v1 :: wtype where
  "Device_v1 = WStruct [req ''id'' WString, req ''name'' WString, req ''online'' WBool, opt ''last_seen_at'' WTime,
     req ''created_at'' WTime, req ''capabilities'' DeviceCapabilities]"

definition PairingStartRequest :: wtype where
  "PairingStartRequest = WStruct [req ''device_name'' WString]"

definition PairingStartResponse :: wtype where
  "PairingStartResponse = WStruct [req ''device_code'' WString, req ''user_code'' WString, req ''verification_uri'' WString,
     req ''verification_uri_complete'' WString, req ''expires_in'' WInt, req ''interval'' WInt]"

definition PairingApproveRequest :: wtype where
  "PairingApproveRequest = WStruct [req ''user_code'' WString]"

definition PairingTokenRequest :: wtype where
  "PairingTokenRequest = WStruct [req ''device_code'' WString]"

definition PairingTokenResponse :: wtype where
  "PairingTokenResponse = WStruct [req ''device_id'' WString, req ''access_token'' WString, req ''token_type'' WString]"

definition RemoteCall :: wtype where
  "RemoteCall = WStruct [req ''call_id'' WString, req ''device_id'' WString, req ''tool'' WString, req ''arguments'' WAny]"

definition RemoteResult :: wtype where
  "RemoteResult = WStruct [req ''call_id'' WString, req ''ok'' WBool, opt ''result'' WAny, opt ''error'' RemoteError]"

definition ListDevicesArgs :: wtype where
  "ListDevicesArgs = WStruct []"

definition DeviceArgs :: wtype where
  "DeviceArgs = WStruct [req ''device_id'' WString]"

definition PathArgs :: wtype where
  "PathArgs = WStruct [req ''device_id'' WString, req ''path'' WString]"

definition ReadFileArgs :: wtype where
  "ReadFileArgs = WStruct [req ''device_id'' WString, req ''path'' WString, opt ''offset'' WInt, opt ''max_bytes'' WInt]"

definition ReadFileResult :: wtype where
  "ReadFileResult = WStruct [req ''path'' WString, req ''encoding'' WString, req ''content'' WString, req ''offset'' WInt,
     req ''next_offset'' WInt, req ''truncated'' WBool]"

definition WriteFileArgs :: wtype where
  "WriteFileArgs = WStruct [req ''device_id'' WString, req ''path'' WString, req ''content'' WString, opt ''encoding'' WString,
     opt ''mode'' WUint32]"

definition WriteFileResult :: wtype where
  "WriteFileResult = WStruct [req ''path'' WString, req ''bytes_written'' WInt]"

definition DirectoryEntry :: wtype where
  "DirectoryEntry = WStruct [req ''name'' WString, req ''type'' WString, req ''size'' WInt, req ''modified_at'' WTime]"

definition ListDirectoryResult :: wtype where
  "ListDirectoryResult = WStruct [req ''path'' WString, req ''entries'' (WList DirectoryEntry), req ''truncated'' WBool]"

definition CreateDirectoryArgs :: wtype where
  "CreateDirectoryArgs = WStruct [req ''device_id'' WString, req ''path'' WString, opt ''mode'' WUint32]"

definition MoveFileArgs :: wtype where
  "MoveFileArgs = WStruct [req ''device_id'' WString, req ''source'' WString, req ''destination'' WString]"

definition FileInfoResult :: wtype where
  "FileInfoResult = WStruct [req ''path'' WString, req ''name'' WString, req ''size'' WInt, req ''mode'' WString,
     req ''modified_at'' WTime, req ''is_dir'' WBool]"

definition StartProcessArgs :: wtype where
  "StartProcessArgs = WStruct [req ''device_id'' WString, opt ''argv'' (WList WString), opt ''command'' WString, opt ''cwd'' WString,
     opt ''env'' WStrings]"

definition StartProcessResult :: wtype where
  "StartProcessResult = WStruct [req ''process_id'' WString, req ''pid'' WInt]"

definition ReadProcessOutputArgs :: wtype where
  "ReadProcessOutputArgs = WStruct [req ''device_id'' WString, req ''process_id'' WString, opt ''cursor'' WInt, opt ''max_bytes'' WInt]"

definition ReadProcessOutputResult :: wtype where
  "ReadProcessOutputResult = WStruct [req ''data'' WString, req ''next_cursor'' WInt, req ''truncated'' WBool, req ''exited'' WBool,
     opt ''exit_code'' WInt]"

definition InteractWithProcessArgs :: wtype where
  "InteractWithProcessArgs = WStruct [req ''device_id'' WString, req ''process_id'' WString, req ''data'' WString, opt ''encoding'' WString]"

definition ForceTerminateArgs :: wtype where
  "ForceTerminateArgs = WStruct [req ''device_id'' WString, req ''process_id'' WString]"

definition ReadMultipleFilesArgs :: wtype where
  "ReadMultipleFilesArgs = WStruct [req ''device_id'' WString, req ''paths'' (WList WString), opt ''max_bytes_per_file'' WInt]"

definition MultiFileRead :: wtype where
  "MultiFileRead = WStruct [req ''path'' WString, opt ''encoding'' WString, opt ''content'' WString, opt ''truncated'' WBool,
     opt ''error'' WString]"

definition ReadMultipleFilesResult :: wtype where
  "ReadMultipleFilesResult = WStruct [req ''files'' (WList MultiFileRead)]"

definition EditBlockArgs :: wtype where
  "EditBlockArgs = WStruct [req ''device_id'' WString, req ''file_path'' WString, req ''old_string'' WString,
     req ''new_string'' WString, opt ''expected_replacements'' WInt]"

definition EditBlockResult :: wtype where
  "EditBlockResult = WStruct [req ''path'' WString, req ''replacements'' WInt, req ''bytes_written'' WInt]"

definition StartSearchArgs :: wtype where
  "StartSearchArgs = WStruct [req ''device_id'' WString, req ''path'' WString, req ''pattern'' WString, opt ''search_type'' WString,
     opt ''regex'' WBool, opt ''case_sensitive'' WBool, opt ''include_hidden'' WBool, opt ''max_results'' WInt,
     opt ''max_file_bytes'' WInt]"

definition StartSearchResult :: wtype where
  "StartSearchResult = WStruct [req ''session_id'' WString]"

definition SearchMatch :: wtype where
  "SearchMatch = WStruct [req ''path'' WString, opt ''line'' WInt, opt ''column'' WInt, opt ''preview'' WString,
     req ''kind'' WString]"

definition GetMoreSearchResultsArgs :: wtype where
  "GetMoreSearchResultsArgs = WStruct [req ''device_id'' WString, req ''session_id'' WString, opt ''max_results'' WInt]"

definition SearchResults :: wtype where
  "SearchResults = WStruct [req ''results'' (WList SearchMatch), req ''done'' WBool, opt ''error'' WString, req ''total_found'' WInt]"

definition StopSearchArgs :: wtype where
  "StopSearchArgs = WStruct [req ''device_id'' WString, req ''session_id'' WString]"

definition ListSearchesArgs :: wtype where
  "ListSearchesArgs = WStruct [req ''device_id'' WString]"

definition SearchSummary :: wtype where
  "SearchSummary = WStruct [req ''session_id'' WString, req ''done'' WBool, req ''buffered'' WInt, req ''returned'' WInt,
     req ''total_found'' WInt]"

definition ListSessionsArgs :: wtype where
  "ListSessionsArgs = WStruct [req ''device_id'' WString]"

definition ListProcessesArgs :: wtype where
  "ListProcessesArgs = WStruct [req ''device_id'' WString, opt ''max_results'' WInt]"

definition KillProcessArgs :: wtype where
  "KillProcessArgs = WStruct [req ''device_id'' WString, req ''pid'' WInt]"

definition GetConfigArgs :: wtype where
  "GetConfigArgs = WStruct [req ''device_id'' WString]"

subsection \<open>Times, durations and modes as text\<close>

text \<open>A number with \<open>w\<close> decimal digits, and a fraction of that many digits without the zeros at its end.\<close>

definition pad_digits :: "nat \<Rightarrow> int \<Rightarrow> string" where
  "pad_digits w n = map (\<lambda>i. char_of (48 + n div 10 ^ i mod 10)) (rev [0..<w])"

definition fraction_text :: "nat \<Rightarrow> int \<Rightarrow> string" where
  "fraction_text w n =
     (let ds = rev (dropWhile (\<lambda>c. c = CHR ''0'') (rev (pad_digits w n))) in if ds = [] then [] else CHR ''.'' # ds)"

text \<open>The date of a day counted from 1 January of year 1, in the proleptic Gregorian calendar.\<close>

definition leap_year :: "int \<Rightarrow> bool" where
  "leap_year y \<longleftrightarrow> y mod 4 = 0 \<and> (y mod 100 \<noteq> 0 \<or> y mod 400 = 0)"

fun month_day :: "int list \<Rightarrow> int \<Rightarrow> int \<Rightarrow> int \<times> int" where
  "month_day [] m d = (m, d + 1)"
| "month_day (len # lens) m d = (if d < len then (m, d + 1) else month_day lens (m + 1) (d - len))"

definition civil_date :: "int \<Rightarrow> int \<times> int \<times> int" where
  "civil_date days =
     (let d400 = days mod 146097;
          c = min 3 (d400 div 36524); d100 = d400 - c * 36524;
          q = d100 div 1461; d4 = d100 mod 1461;
          y = min 3 (d4 div 365); yday = d4 - y * 365;
          year = (days div 146097) * 400 + c * 100 + q * 4 + y + 1;
          (m, d) = month_day [31, if leap_year year then 29 else 28, 31, 30, 31, 30, 31, 31, 30, 31, 30] 1 yday
      in (year, m, d))"

text \<open>\<^verbatim>\<open>Time.MarshalJSON\<close> of a UTC time, which fails when the year does not have four digits.\<close>

definition time_text :: "time \<Rightarrow> string option" where
  "time_text t =
     (let secs = t div second; (year, m, d) = civil_date (secs div 86400); sod = secs mod 86400
      in if year < 0 \<or> year > 9999 then None
         else Some (pad_digits 4 year @ ''-'' @ pad_digits 2 m @ ''-'' @ pad_digits 2 d @ ''T'' @
                    pad_digits 2 (sod div 3600) @ '':'' @ pad_digits 2 (sod div 60 mod 60) @ '':'' @ pad_digits 2 (sod mod 60) @
                    fraction_text 9 (t mod second) @ ''Z''))"

text \<open>\<^verbatim>\<open>Duration.String\<close>.\<close>

definition duration_text :: "duration \<Rightarrow> string" where
  "duration_text d =
     (let u = \<bar>d\<bar>; secs = u div second;
          txt = (if u = 0 then ''0s''
                 else if u < 1000 then show_int u @ ''ns''
                 else if u < 1000000 then show_int (u div 1000) @ fraction_text 3 (u mod 1000) @ [CHR 0xC2, CHR 0xB5, CHR ''s'']
                 else if u < second then show_int (u div 1000000) @ fraction_text 6 (u mod 1000000) @ ''ms''
                 else (if secs \<ge> 3600 then show_int (secs div 3600) @ ''h'' else []) @
                      (if secs \<ge> 60 then show_int (secs div 60 mod 60) @ ''m'' else []) @
                      show_int (secs mod 60) @ fraction_text 9 (u mod second) @ ''s'')
      in if d < 0 then CHR ''-'' # txt else txt)"

text \<open>\<^verbatim>\<open>FileMode.String\<close>: the letters of the type (\<^verbatim>\<open>-\<close> for none), and the permission bits.\<close>

definition perm_text :: "32 word \<Rightarrow> string" where
  "perm_text p = map (\<lambda>(i, c). if bit p i then c else CHR ''-'')
     [(8, CHR ''r''), (7, CHR ''w''), (6, CHR ''x''), (5, CHR ''r''), (4, CHR ''w''), (3, CHR ''x''), (2, CHR ''r''), (1, CHR ''w''), (0, CHR ''x'')]"

definition mode_text :: "string \<Rightarrow> meta \<Rightarrow> string" where
  "mode_text letters m = (if letters = [] then ''-'' else letters) @ perm_text (perm m)"

subsection \<open>What the agent sends\<close>

text \<open>
  What is decided outside: the texts of errors, the letters for the type of a special file, and the order in which
  the processes of the manager are enumerated.
\<close>

record encoding_env =
  en_text :: "goerror \<Rightarrow> string"
  en_letters :: "string \<Rightarrow> string"
  en_order :: "string list"

definition jint :: "int \<Rightarrow> jtree" where "jint i = TNum (show_int i)"
definition jnat :: "nat \<Rightarrow> jtree" where "jnat n = jint (int n)"

text \<open>The members of a Go map are written in the order of their keys.\<close>

definition jmap :: "(string \<times> jtree) list \<Rightarrow> jtree" where
  "jmap kvs = TObj (sort_key fst kvs)"

definition omit :: "bool \<Rightarrow> (string \<times> jtree) \<Rightarrow> (string \<times> jtree) list" where
  "omit missing kv = (if missing then [] else [kv])"

definition slice :: "('a \<Rightarrow> jtree) \<Rightarrow> 'a list \<Rightarrow> jtree" where
  "slice f xs = (if xs = [] then TNull else TArr (map f xs))"

definition encode_item :: "dir_item \<Rightarrow> jtree option" where
  "encode_item i = map_option (\<lambda>t.
     jmap [(''name'', TStr (di_name i)), (''type'', TStr (di_type i)), (''size'', jnat (di_size i)), (''modified_at'', TStr t)])
     (time_text (di_modified_at i))"

definition encode_entry :: "encoding_env \<Rightarrow> multi_entry \<Rightarrow> jtree" where
  "encode_entry en e =
     (case e of
        EntryError p err \<Rightarrow> jmap [(''path'', TStr p), (''error'', TStr (en_text en err))]
      | EntryContent p trunc enc content \<Rightarrow>
          jmap [(''path'', TStr p), (''truncated'', TBool trunc), (''encoding'', TStr enc), (''content'', TStr content)])"

definition exit_member :: "int option \<Rightarrow> (string \<times> jtree) list" where
  "exit_member x = (case x of None \<Rightarrow> [] | Some c \<Rightarrow> [(''exit_code'', jint c)])"

definition encode_session :: "session_summary \<Rightarrow> jtree" where
  "encode_session s =
     TObj ([(''process_id'', TStr (sum_id s)), (''pid'', jint (sum_pid s)), (''exited'', TBool (sum_exited s))] @ exit_member (sum_exit s))"

definition encode_match :: "found \<Rightarrow> jtree" where
  "encode_match m =
     TObj ([(''path'', TStr (f_path m))] @ omit (f_line m = 0) (''line'', jint (f_line m)) @ omit (f_column m = 0) (''column'', jint (f_column m)) @
           omit (f_preview m = []) (''preview'', TStr (f_preview m)) @ [(''kind'', TStr (f_kind m))])"

definition encode_search :: "search_summary \<Rightarrow> jtree" where
  "encode_search s =
     TObj [(''session_id'', TStr (ss_id s)), (''done'', TBool (ss_done s)), (''buffered'', jint (ss_buffered s)),
           (''returned'', jnat (ss_returned s)), (''total_found'', jnat (ss_total s))]"

definition encode_process :: "os_process \<Rightarrow> jtree" where
  "encode_process p =
     TObj ([(''pid'', jint (op_pid p))] @ omit (op_ppid p = 0) (''ppid'', jint (op_ppid p)) @ [(''command'', TStr (op_command p))] @
           omit (op_args p = []) (''args'', TStr (op_args p)))"

text \<open>\<^verbatim>\<open>Config\<close> of the process manager.\<close>

definition encode_process_config :: "config_view \<Rightarrow> jtree" where
  "encode_process_config c =
     jmap [(''max_processes'', jint (cv_max_procs c)), (''max_buffer_bytes'', jint (cv_max_buffer c)),
           (''max_runtime'', TStr (duration_text (cv_max_runtime c))), (''shell_enabled'', TBool (cv_shell c))]"

definition manager_text :: "manager \<Rightarrow> string" where
  "manager_text m = ''process manager ('' @ show_int (max_procs m) @ '' max)''"

definition encode_config :: "config_view \<Rightarrow> jtree" where
  "encode_config c =
     jmap [(''allowed_directories'', slice TStr (cv_roots c)),
           (''system_info'', jmap [(''os'', TStr (cv_os c)), (''arch'', TStr (cv_arch c))]),
           (''process'', encode_process_config c), (''kill_process_enabled'', TBool (cv_kill c)),
           (''search'', jmap [(''max_sessions'', jint (cv_search_sessions c)), (''max_results'', jint (cv_search_results c))])]"

definition encode_value :: "encoding_env \<Rightarrow> tool_value \<Rightarrow> jtree option" where
  "encode_value en v =
     (case v of
        VOk \<Rightarrow> Some (jmap [(''ok'', TBool True)])
      | VFile c \<Rightarrow> Some (jmap [(''path'', TStr (fc_path c)), (''encoding'', TStr (fc_encoding c)), (''content'', TStr (fc_content c)),
          (''offset'', jint (fc_offset c)), (''next_offset'', jint (fc_next_offset c)), (''truncated'', TBool (fc_truncated c))])
      | VWritten p n \<Rightarrow> Some (jmap [(''path'', TStr p), (''bytes_written'', jnat n)])
      | VFiles es \<Rightarrow> Some (jmap [(''files'', TArr (map (encode_entry en) es))])
      | VEdited p n len \<Rightarrow> Some (jmap [(''path'', TStr p), (''replacements'', jnat n), (''bytes_written'', jnat len)])
      | VEntries p es trunc \<Rightarrow> map_option (\<lambda>items.
          jmap [(''path'', TStr p), (''entries'', TArr items), (''truncated'', TBool trunc)]) (those (map encode_item es))
      | VPath p \<Rightarrow> Some (jmap [(''path'', TStr p)])
      | VMoved src dst \<Rightarrow> Some (jmap [(''source'', TStr src), (''destination'', TStr dst)])
      | VInfo p name len m dir \<Rightarrow> map_option (\<lambda>t.
          jmap [(''path'', TStr p), (''name'', TStr name), (''size'', jnat len),
                (''mode'', TStr (mode_text (if dir then ''d'' else en_letters en p) m)), (''modified_at'', TStr t), (''is_dir'', TBool dir)])
          (time_text (mtime m))
      | VStarted sid n \<Rightarrow> Some (TObj [(''process_id'', TStr sid), (''pid'', jint n)])
      | VOutput r \<Rightarrow> Some (TObj ([(''data'', TStr (string_of_bytes (res_data r))), (''next_cursor'', jint (next_cursor r)),
          (''truncated'', TBool (truncated r)), (''exited'', TBool (exited r))] @ exit_member (res_exit r)))
      | VInput n \<Rightarrow> Some (jmap [(''written'', jnat n)])
      | VTerminated \<Rightarrow> Some (jmap [(''terminated'', TBool True)])
      | VSessions ss \<Rightarrow> Some (jmap [(''sessions'', TArr (map encode_session (List.map_filter ss (en_order en))))])
      | VSearch sid \<Rightarrow> Some (jmap [(''session_id'', TStr sid)])
      | VMore r \<Rightarrow> Some (TObj ([(''results'', slice encode_match (mr_results r)), (''done'', TBool (mr_done r))] @
          omit (mr_error r = []) (''error'', TStr (mr_error r)) @ [(''total_found'', jnat (mr_total r))]))
      | VStopped \<Rightarrow> Some (jmap [(''stopped'', TBool True)])
      | VSearches ss \<Rightarrow> Some (jmap [(''searches'', TArr (map encode_search ss))])
      | VProcesses ps \<Rightarrow> Some (jmap [(''processes'', slice encode_process ps)])
      | VKilled n \<Rightarrow> Some (jmap [(''pid'', jint n), (''signal'', TStr ''terminate'')])
      | VConfig c \<Rightarrow> Some (encode_config c))"

text \<open>The structs of the package that describe what a tool returns.\<close>

definition result_types :: "(string \<times> wtype) list" where
  "result_types =
     [(''read_file'', ReadFileResult), (''write_file'', WriteFileResult), (''list_directory'', ListDirectoryResult),
      (''get_file_info'', FileInfoResult), (''read_multiple_files'', ReadMultipleFilesResult), (''edit_block'', EditBlockResult),
      (''start_process'', StartProcessResult), (''read_process_output'', ReadProcessOutputResult), (''start_search'', StartSearchResult),
      (''get_more_search_results'', SearchResults), (''list_searches'', WStruct [req ''searches'' (WList SearchSummary)])]"

section \<open>Lemmas\<close>

subsection \<open>Numbers\<close>

lemma is_digit_char_of: "n < 10 \<Longrightarrow> is_digit (char_of (48 + n :: nat))"
  by (simp add: is_digit_def)

lemma show_nat_digits: "list_all is_digit (show_nat n) \<and> show_nat n \<noteq> []"
proof (induction n rule: show_nat.induct)
  case (1 n)
  then show ?case by (subst (1 2) show_nat.simps) (simp add: is_digit_char_of)
qed

lemma show_int_literal [simp]: "integer_literal (show_int i)"
  using show_nat_digits [of "nat i"] show_nat_digits [of "nat (- i)"]
  by (cases "show_nat (nat i)") (auto simp: integer_literal_def show_int_def Let_def is_digit_def)

lemma conforms_jint [simp]: "conforms WInt (jint i)" "conforms WInt (jnat n)"
  by (simp_all add: jint_def jnat_def)

subsection \<open>Objects\<close>

lemma is_string_simps [simp]: "is_string (TStr s)" "is_string (sanitize_tree v) = is_string v"
  by (simp_all add: is_string_def split: jtree.split)

lemma conforms_object:
  "conforms (WStruct ms) (TObj kvs) \<longleftrightarrow> distinct (map fst kvs) \<and> set (map fst kvs) \<subseteq> set (map fst ms) \<and>
     list_all (\<lambda>m. case map_of kvs (fst m) of None \<Rightarrow> \<not> fst (snd m) | Some x \<Rightarrow> conforms (snd (snd m)) x) ms"
  by simp

declare conforms.simps(2,5,9) [simp del]

lemma conforms_jmap:
  assumes "distinct (map fst kvs)"
  shows "conforms (WStruct ms) (jmap kvs) \<longleftrightarrow> conforms (WStruct ms) (TObj kvs)"
proof -
  have "distinct (map fst (sort_key fst kvs))"
    using assms by (simp add: distinct_map)
  moreover from this assms have "map_of (sort_key fst kvs) = map_of kvs"
    by (simp add: map_of_inject_set)
  ultimately show ?thesis using assms by (simp add: jmap_def conforms_object)
qed

lemma ascii_digits: "is_ascii (pad_digits w n)" "is_ascii (fraction_text w n)"
proof -
  have "(of_char (char_of (48 + i :: int)) :: nat) < 128" if "0 \<le> i" "i < 10" for i
  proof -
    have "(of_char (char_of (48 + i)) :: int) < 128" using that by simp
    then show ?thesis by (metis of_nat_of_char of_nat_less_iff of_nat_numeral)
  qed
  then show pad: "is_ascii (pad_digits w n)" by (simp add: is_ascii_def pad_digits_def list_all_iff)
  then show "is_ascii (fraction_text w n)"
    by (auto simp: is_ascii_def fraction_text_def Let_def list_all_iff dest!: set_dropWhileD)
qed

lemma time_text_Z: "time_text t = Some s \<Longrightarrow> conforms WTime (TStr s)"
  using ascii_digits by (auto simp: time_text_def Let_def conforms.simps(5) is_ascii_def split: prod.splits if_splits)

lemmas wire_members = conforms_jmap conforms_object req_def opt_def omit_def exit_member_def slice_def list_all_iff

subsection \<open>The results of the tools\<close>

lemma conforms_item: "encode_item i = Some t \<Longrightarrow> conforms DirectoryEntry t"
  by (auto simp: encode_item_def DirectoryEntry_def wire_members intro: time_text_Z)

lemma conforms_entry: "conforms MultiFileRead (encode_entry en e)"
  by (cases e) (simp_all add: encode_entry_def MultiFileRead_def wire_members)

lemma conforms_match: "conforms SearchMatch (encode_match m)"
  by (simp add: encode_match_def SearchMatch_def wire_members)

lemma conforms_search: "conforms SearchSummary (encode_search s)"
  by (simp add: encode_search_def SearchSummary_def wire_members)

lemma those_conforms: "those (map f xs) = Some ys \<Longrightarrow> (\<And>x y. f x = Some y \<Longrightarrow> P y) \<Longrightarrow> list_all P ys"
  by (induction xs arbitrary: ys) (auto split: option.splits)

lemma conforms_entries:
  "encode_value en (VEntries p es trunc) = Some t \<Longrightarrow> conforms ListDirectoryResult t"
  using those_conforms [of encode_item es _ "conforms DirectoryEntry"] conforms_item
  by (fastforce simp: encode_value_def ListDirectoryResult_def wire_members)

lemma conforms_file: "encode_value en (VFile c) = Some t \<Longrightarrow> conforms ReadFileResult t"
  by (auto simp: encode_value_def ReadFileResult_def wire_members)

lemma conforms_written: "encode_value en (VWritten p n) = Some t \<Longrightarrow> conforms WriteFileResult t"
  by (auto simp: encode_value_def WriteFileResult_def wire_members)

lemma conforms_files: "encode_value en (VFiles es) = Some t \<Longrightarrow> conforms ReadMultipleFilesResult t"
  by (auto simp: encode_value_def ReadMultipleFilesResult_def wire_members conforms_entry)

lemma conforms_edited: "encode_value en (VEdited p n len) = Some t \<Longrightarrow> conforms EditBlockResult t"
  by (auto simp: encode_value_def EditBlockResult_def wire_members)

lemma conforms_info: "encode_value en (VInfo p name len m dir) = Some t \<Longrightarrow> conforms FileInfoResult t"
  by (auto simp: encode_value_def FileInfoResult_def wire_members intro: time_text_Z)

lemma conforms_started: "encode_value en (VStarted sid n) = Some t \<Longrightarrow> conforms StartProcessResult t"
  by (auto simp: encode_value_def StartProcessResult_def wire_members)

lemma conforms_output: "encode_value en (VOutput r) = Some t \<Longrightarrow> conforms ReadProcessOutputResult t"
  by (cases "res_exit r") (auto simp: encode_value_def ReadProcessOutputResult_def wire_members)

lemma conforms_session_id: "encode_value en (VSearch sid) = Some t \<Longrightarrow> conforms StartSearchResult t"
  by (auto simp: encode_value_def StartSearchResult_def wire_members)

lemma conforms_more: "encode_value en (VMore r) = Some t \<Longrightarrow> conforms SearchResults t"
  by (auto simp: encode_value_def SearchResults_def wire_members conforms_match)

lemma conforms_searches: "encode_value en (VSearches ss) = Some t \<Longrightarrow> conforms (WStruct [req ''searches'' (WList SearchSummary)]) t"
  by (auto simp: encode_value_def wire_members conforms_search)

text \<open>What is left of a value when it has been written and read again.\<close>

lemma show_nat_head: "0 < n \<Longrightarrow> hd (show_nat n) \<noteq> CHR ''0''"
proof (induction n rule: show_nat.induct)
  case (1 n)
  show ?case
  proof (cases "n < 10")
    case True
    then have "(of_char (char_of (48 + n) :: char) :: nat) = 48 + n" by simp
    moreover have "(of_char CHR ''0'' :: nat) = 48" by simp
    ultimately have "char_of (48 + n) \<noteq> CHR ''0''" using 1(2) by (metis add_cancel_right_right neq0_conv)
    with True show ?thesis by (subst show_nat.simps) simp
  next
    case False
    then have "0 < n div 10" by (simp add: div_greater_zero_iff)
    with False 1(1) show_nat_digits [of "n div 10"] show ?thesis by (subst show_nat.simps) (simp add: hd_append)
  qed
qed

lemma show_nat_number: "number_literal (show_nat n)" "number_literal (CHR ''-'' # show_nat n)"
proof -
  have whole: "int_part (show_nat n) = show_nat n"
  proof (cases "n = 0")
    case False
    then show ?thesis using show_nat_head [of n] show_nat_digits [of n] by (simp add: int_part_def list_all_iff)
  next
    case True
    have "show_nat 0 = ''0''" by code_simp
    with True show ?thesis by (simp add: int_part_def)
  qed
  have "hd (show_nat n) \<noteq> CHR ''-''"
    using show_nat_digits [of n] by (cases "show_nat n") (auto simp: is_digit_def)
  with whole show "number_literal (show_nat n)" "number_literal (CHR ''-'' # show_nat n)"
    using show_nat_digits [of n] by (simp_all add: number_literal_def number_front_def Let_def fraction_def exponent_def)
qed

lemma show_int_number [simp]: "number_literal (show_int i)"
  by (simp add: show_int_def show_nat_number)

lemma utf8_valid_ascii: "is_ascii s \<Longrightarrow> utf8_valid (bytes_of_string s)"
  by (induction s) (auto simp: is_ascii_def bytes_of_string_def utf8_valid.simps(2) byte_of_char_def word_less_nat_alt unat_of_nat)

lemma sanitize_ascii [simp]: "is_ascii s \<Longrightarrow> sanitize s = s"
  by (rule sanitize_valid [OF utf8_valid_ascii])

fun ascii_type :: "wtype \<Rightarrow> bool" where
  "ascii_type (WList t) = ascii_type t"
| "ascii_type (WStruct ms) = list_all (\<lambda>m. is_ascii (fst m) \<and> ascii_type (snd (snd m))) ms"
| "ascii_type _ = True"

lemma map_of_sanitized:
  "distinct (map fst kvs) \<Longrightarrow> list_all (\<lambda>kv. is_ascii (fst kv)) kvs \<Longrightarrow>
     map_of (map (\<lambda>(k, v). (sanitize k, sanitize_tree v)) kvs) k = map_option sanitize_tree (map_of kvs k)"
  by (induction kvs) auto

lemma conforms_sanitized: "conforms ty t \<Longrightarrow> ascii_type ty \<Longrightarrow> conforms ty (sanitize_tree t)"
proof (induction ty t rule: conforms.induct)
  case (9 ms v)
  from 9(2) obtain kvs where v: "v = TObj kvs" by (cases v) (auto simp: conforms.simps(9))
  have c: "distinct (map fst kvs)" "set (map fst kvs) \<subseteq> set (map fst ms)"
    "list_all (\<lambda>m. case map_of kvs (fst m) of None \<Rightarrow> \<not> fst (snd m) | Some x \<Rightarrow> conforms (snd (snd m)) x) ms"
    using 9(2) by (simp_all add: v conforms_object)
  have "\<forall>k\<in>set (map fst ms). is_ascii k" using 9(3) by (auto simp: list_all_iff)
  then have ascii: "list_all (\<lambda>kv. is_ascii (fst kv)) kvs" using c(2) unfolding list_all_iff by (metis image_eqI list.set_map subsetD)
  then have keys: "map fst (map (\<lambda>(k, v). (sanitize k, sanitize_tree v)) kvs) = map fst kvs" by (auto simp: list_all_iff)
  have "conforms (snd (snd m)) (sanitize_tree x)" if "m \<in> set ms" "map_of kvs (fst m) = Some x" for m x
    using 9(1) [OF v that] c(3) 9(3) that by (auto simp: list_all_iff)
  then have "list_all (\<lambda>m. case map_of (map (\<lambda>(k, v). (sanitize k, sanitize_tree v)) kvs) (fst m) of
      None \<Rightarrow> \<not> fst (snd m) | Some x \<Rightarrow> conforms (snd (snd m)) x) ms"
    using c(3) by (auto simp: list_all_iff map_of_sanitized [OF c(1) ascii] split: option.splits)
  then show ?case using c(1,2) unfolding v sanitize_tree.simps conforms_object keys by simp
qed (auto simp: conforms.simps(2,5) list_all_iff split: jtree.splits)

lemma writable_leaf [simp]: "writable n (jint i)" "writable n (jnat k)"
  by (simp_all add: jint_def jnat_def)

lemma writable_jmap: "writable n (jmap kvs) \<longleftrightarrow> 0 < n \<and> list_all (\<lambda>kv. writable (n - 1) (snd kv)) kvs"
  by (simp add: jmap_def list_all_iff)

lemma writable_items: "those (map encode_item es) = Some ts \<Longrightarrow> 2 \<le> n \<Longrightarrow> list_all (writable n) ts"
  by (rule those_conforms) (auto simp: encode_item_def writable_jmap)

lemma encode_value_shallow: "encode_value en v = Some t \<Longrightarrow> 4 \<le> n \<Longrightarrow> writable n t"
  by (cases v) (auto simp: encode_value_def writable_jmap list_all_iff slice_def encode_entry_def encode_session_def
      exit_member_def encode_match_def omit_def encode_search_def encode_process_def encode_config_def encode_process_config_def
      split: multi_entry.splits option.splits dest!: writable_items [where n = "n - 2"])

lemma encode_value_writable: "encode_value en v = Some t \<Longrightarrow> writable max_nesting t"
  by (rule encode_value_shallow) (simp_all add: max_nesting_def)

subsection \<open>The values of the handlers\<close>

lemma map_ok_Inr [err_simps]: "map_ok f r = Inr v \<longleftrightarrow> (\<exists>x. r = Inr x \<and> v = f x)"
  by (cases r) (auto simp: map_ok_def)

text \<open>The values that carry times, whose encoding can fail.\<close>

definition dated :: "tool_value \<Rightarrow> bool" where
  "dated v \<longleftrightarrow> (case v of VEntries _ _ _ \<Rightarrow> True | VInfo _ _ _ _ _ \<Rightarrow> True | _ \<Rightarrow> False)"

lemma encode_value_total: "\<not> dated v \<Longrightarrow> encode_value en v \<noteq> None"
  by (cases v) (simp_all add: encode_value_def dated_def)

lemma encode_value_object: "encode_value en v = Some t \<Longrightarrow> \<exists>kvs. t = TObj kvs"
  by (cases v) (auto simp: encode_value_def jmap_def encode_config_def)

definition returns :: "string \<Rightarrow> tool_value \<Rightarrow> bool" where
  "returns name v \<longleftrightarrow>
     (dated v \<longrightarrow> name \<in> {''list_directory'', ''get_file_info''}) \<and>
     (\<forall>en t ty. encode_value en v = Some t \<and> map_of result_types name = Some ty \<longrightarrow> conforms ty t)"

lemma returns_typed:
  "returns ''read_file'' (VFile c)" "returns ''write_file'' (VWritten p n)" "returns ''list_directory'' (VEntries p es trunc)"
  "returns ''get_file_info'' (VInfo p name len m dir)" "returns ''read_multiple_files'' (VFiles fs)"
  "returns ''edit_block'' (VEdited p n len)" "returns ''start_process'' (VStarted sid i)" "returns ''read_process_output'' (VOutput r)"
  "returns ''start_search'' (VSearch sid)" "returns ''get_more_search_results'' (VMore q)" "returns ''list_searches'' (VSearches ss)"
  unfolding returns_def result_types_def
  by (auto simp: dated_def intro: conforms_file conforms_written conforms_entries conforms_info conforms_files conforms_edited
      conforms_started conforms_output conforms_session_id conforms_more conforms_searches)

lemma returns_other:
  "returns ''ping'' VOk" "returns ''create_directory'' (VPath p)" "returns ''move_file'' (VMoved p q)" "returns ''interact_with_process'' (VInput n)"
  "returns ''force_terminate'' VTerminated" "returns ''list_sessions'' (VSessions f)" "returns ''stop_search'' VStopped"
  "returns ''list_processes'' (VProcesses ps)" "returns ''kill_process'' (VKilled i)" "returns ''get_config'' (VConfig c)"
  by (simp_all add: returns_def result_types_def dated_def)

lemma handlers_return:
  "list_all (\<lambda>(name, h). \<forall>ex d w raw s v. fst (h ex d w raw s) = Inr v \<longrightarrow> returns name v) tool_handlers"
  unfolding tool_handlers_def list.pred_inject prod.case
  by (intro conjI allI impI TrueI)
    (auto simp: reading_def changing_def err_simps returns_typed returns_other start_process_def read_process_def write_process_def
      terminate_process_def start_search_tool_def get_more_search_def stop_search_tool_def list_processes_tool_def kill_process_def
      split: sum.splits prod.splits if_splits)

lemma execute_returns: "execute ex d w tool raw s = (Inr v, s') \<Longrightarrow> returns tool v"
proof (cases "map_of tool_handlers tool")
  case (Some h)
  assume "execute ex d w tool raw s = (Inr v, s')"
  then have "fst (h ex d w raw s) = Inr v" by (simp add: execute_def Some)
  then show ?thesis using handlers_return map_of_SomeD [OF Some] by (auto simp: list_all_iff)
qed (simp add: execute_def)

section \<open>Properties\<close>

text \<open>
  C26. What the agent answers has the type that the package declares for it. When the executor returns
  a value, JSON can write it (only listings and file information can fail, for a time whose year does not have four
  digits); the text that is written is read back as a JSON object, and if the package has a struct for the results of the
  tool, the object that is read is one of that struct: it has all members that are not optional, no others, and their
  values have the types of the members.
\<close>

theorem results_conform:
  assumes "execute ex d w tool raw s = (Inr v, s')"
  shows "(tool \<notin> {''list_directory'', ''get_file_info''} \<longrightarrow> encode_value en v \<noteq> None) \<and>
    (\<forall>t. encode_value en v = Some t \<longrightarrow>
       (\<exists>kvs. unmarshal_tree (print_json t) = Some (TObj kvs) \<and>
          (\<forall>ty. map_of result_types tool = Some ty \<longrightarrow> conforms ty (TObj kvs))))"
proof (intro conjI impI allI)
  have ret: "returns tool v" using assms by (rule execute_returns)
  then show "encode_value en v \<noteq> None" if "tool \<notin> {''list_directory'', ''get_file_info''}"
    using that encode_value_total by (auto simp: returns_def)
  fix t
  assume t: "encode_value en v = Some t"
  then obtain kvs where kvs: "sanitize_tree t = TObj kvs" using encode_value_object by fastforce
  have "conforms ty (TObj kvs)" if ty: "map_of result_types tool = Some ty" for ty
  proof -
    have "list_all (\<lambda>nt. ascii_type (snd nt)) result_types" by code_simp
    then have "ascii_type ty" using map_of_SomeD [OF ty] by (auto simp: list_all_iff)
    moreover have "conforms ty t" using ret t ty by (simp add: returns_def)
    ultimately show ?thesis using conforms_sanitized kvs by metis
  qed
  then show "\<exists>kvs. unmarshal_tree (print_json t) = Some (TObj kvs) \<and> (\<forall>ty. map_of result_types tool = Some ty \<longrightarrow> conforms ty (TObj kvs))"
    using tree_print(2) [OF encode_value_writable [OF t]] kvs by auto
qed

definition demo_encoding :: encoding_env where
  "demo_encoding = \<lparr>en_text = (\<lambda>_. ''failed''), en_letters = (\<lambda>_. []), en_order = []\<rparr>"

definition demo_write_text :: string where
  "demo_write_text = print_json (TObj [(''path'', TStr ''/r/b''), (''content'', TStr ''<hi>''), (''mode'', TNum ''384'')])"

theorem results_conform_witness:
  "case execute (new_executor demo_policy False) go_decoders demo_world ''write_file'' demo_write_text
      (new_agent_state demo_fs (new_manager 2 64 0 False)) of
     (Inr v, s') \<Rightarrow> (case encode_value demo_encoding v of
        Some t \<Rightarrow> (case unmarshal_tree (print_json t) of Some u \<Rightarrow> conforms WriteFileResult u | None \<Rightarrow> False) | None \<Rightarrow> False)
   | _ \<Rightarrow> False"
proof -
  let ?run = "execute (new_executor demo_policy False) go_decoders demo_world ''write_file'' demo_write_text
      (new_agent_state demo_fs (new_manager 2 64 0 False))"
  have "\<not> isl (fst ?run)" by code_simp
  then obtain v s' where run: "?run = (Inr v, s')" by (cases ?run; cases "fst ?run") auto
  have ty: "map_of result_types ''write_file'' = Some WriteFileResult" by (simp add: result_types_def)
  have "encode_value demo_encoding v \<noteq> None" using results_conform [OF run, of demo_encoding] by simp
  then obtain t where "encode_value demo_encoding v = Some t" by blast
  with results_conform [OF run, of demo_encoding] ty show ?thesis by (auto simp: run)
qed

end
