(* ===== verification/HttpMessages.thy ===== *)
theory HttpMessages
  imports Credentials WireTypes
begin

text \<open>
  The texts of the requests and replies of the HTTP interface: reading a JSON body within its limit (\<^verbatim>\<open>decodeJSON\<close>), query strings and
  forms, the pairing page, the JSON replies (\<^verbatim>\<open>writeJSON\<close>) with their headers, all of \<^verbatim>\<open>internal/controlplane/http.go\<close>, and the
  messages of the agent's \<^verbatim>\<open>pair\<close> (\<^verbatim>\<open>cmd/orc-agent/main.go\<close>). The lemmas show that the two programs understand each other.
\<close>

section \<open>Definitions\<close>

subsection \<open>JSON bodies\<close>

definition max_json_body :: int where "max_json_body = 65536"

text \<open>
  The first value of a stream. A stream that is \<open>broken\<close> fails after the text that is given instead of
  ending: then a value that is not closed by itself needs another byte after it.
\<close>

definition closed_value :: "jtree \<Rightarrow> bool" where
  "closed_value v = (case v of TArr _ \<Rightarrow> True | TObj _ \<Rightarrow> True | _ \<Rightarrow> False)"

definition stream_tree :: "bool \<Rightarrow> string \<Rightarrow> jtree option" where
  "stream_tree broken s =
     (case read_loop [] BeginValue s of
        None \<Rightarrow> None
      | Some (v, r) \<Rightarrow> if broken \<and> r = [] \<and> \<not> closed_value v then None else Some v)"

text \<open>The three request structs have one string field each.\<close>

definition decode_json :: "string \<Rightarrow> string \<Rightarrow> string option" where
  "decode_json field content = do {
     t \<leftarrow> stream_tree (max_json_body < int (length content)) (take_upto max_json_body content);
     m \<leftarrow> object_fields True [field] t;
     get_string m field }"

subsection \<open>Query strings and forms\<close>

text \<open>\<^verbatim>\<open>url.QueryUnescape\<close>, and \<^verbatim>\<open>url.PathUnescape\<close> with \<open>pl\<close> false.\<close>

fun url_unescape :: "bool \<Rightarrow> string \<Rightarrow> string option" where
  "url_unescape pl [] = Some []"
| "url_unescape pl (c # r) =
     (if c = CHR ''%'' then
        (case r of
           a # b # r' \<Rightarrow>
             (case (hex_val a, hex_val b) of
                (Some x, Some y) \<Rightarrow> map_option (Cons (char_of (nat (16 * x + y)))) (url_unescape pl r')
              | _ \<Rightarrow> None)
         | _ \<Rightarrow> None)
      else map_option (Cons (if pl \<and> c = CHR ''+'' then CHR '' '' else c)) (url_unescape pl r))"

text \<open>One setting of a query: whether it is well formed, and what it sets.\<close>

definition query_setting :: "string \<Rightarrow> bool \<times> (string \<times> string) list" where
  "query_setting part =
     (if CHR '';'' \<in> set part then (False, [])
      else if part = [] then (True, [])
      else (case (url_unescape True (takeWhile (\<lambda>c. c \<noteq> CHR ''='') part),
                  url_unescape True (drop 1 (dropWhile (\<lambda>c. c \<noteq> CHR ''='') part))) of
              (Some k, Some v) \<Rightarrow> (True, [(k, v)])
            | _ \<Rightarrow> (False, [])))"

definition parse_query :: "string \<Rightarrow> bool \<times> (string \<times> string) list" where
  "parse_query q =
     (let ps = map query_setting (split_on CHR ''&'' q) in (list_all fst ps, concat (map snd ps)))"

definition values_get :: "(string \<times> string) list \<Rightarrow> string \<Rightarrow> string" where
  "values_get vs k = (case map_of vs k of None \<Rightarrow> [] | Some v \<Rightarrow> v)"

definition query_get :: "string \<Rightarrow> string \<Rightarrow> string" where
  "query_get q k = values_get (snd (parse_query q)) k"

definition max_form_size :: int where "max_form_size = 10485760"

text \<open>
  \<^verbatim>\<open>Request.ParseForm\<close> of a \<^verbatim>\<open>POST\<close> request: the settings of the body come before those of the query. \<open>media\<close> is
  \<^verbatim>\<open>mime.ParseMediaType\<close>.
\<close>

definition parse_form :: "(string \<Rightarrow> string option) \<Rightarrow> string \<Rightarrow> string \<Rightarrow> string \<Rightarrow> (string \<times> string) list option" where
  "parse_form media contentType content q =
     (let post =
        (if contentType = [] then Some (True, [])
         else (case media contentType of
                 None \<Rightarrow> None
               | Some ct \<Rightarrow>
                 if ct \<noteq> ''application/x-www-form-urlencoded'' then Some (True, [])
                 else if max_form_size < int (length content) then None
                 else Some (parse_query content)))
      in case (post, parse_query q) of
           (Some (True, vs), (True, ws)) \<Rightarrow> Some (vs @ ws)
         | _ \<Rightarrow> None)"

subsection \<open>The pairing page\<close>

text \<open>How \<^verbatim>\<open>html/template\<close> writes a string inside a quoted attribute.\<close>

definition html_table :: "(char \<times> string) list" where
  "html_table =
     [(CHR 0x00, replacement), (CHR 0x22, ''&#34;''), (CHR ''&'', ''&amp;''), (CHR 0x27, ''&#39;''), (CHR ''+'', ''&#43;''),
      (CHR ''<'', ''&lt;''), (CHR ''>'', ''&gt;'')]"

definition html_escape :: "string \<Rightarrow> string" where
  "html_escape s = concat (map (\<lambda>c. case map_of html_table c of None \<Rightarrow> [c] | Some x \<Rightarrow> x) s)"

text \<open>The template up to the value of the code, and from there on, with back quotes for double quotes.\<close>

definition double_quotes :: "string \<Rightarrow> string" where
  "double_quotes s = map (\<lambda>c. if c = CHR 0x60 then CHR 0x22 else c) s"

definition page_before :: string where
  "page_before = double_quotes (''<!doctype html><html><head><meta charset=`utf-8`>'' @
     ''<meta name=`viewport` content=`width=device-width,initial-scale=1`><meta name=`referrer` content=`no-referrer`>'' @
     ''<title>Pair device '' @ [CHR 0xC2, CHR 0xB7] @ '' Open Remote Commander</title>'' @
     ''<style>body{font:16px system-ui;max-width:520px;margin:8vh auto;padding:24px;color:#171717}'' @
     ''label{display:block;margin:16px 0 6px}'' @
     ''input{width:100%;box-sizing:border-box;padding:12px;border:1px solid #aaa;border-radius:8px}'' @
     ''button{margin-top:18px;padding:11px 16px;border:0;border-radius:8px;background:#111;color:#fff;font-weight:650}'' @
     ''.note{color:#666;font-size:14px}</style></head><body><h1>Pair a device</h1>'' @
     ''<p>Confirm the code printed by <code>orc-agent</code>. The access token is submitted once over HTTPS and is never stored by this page.</p>'' @
     ''<form method=`post` action=`/pair/approve`><label>Pairing code</label><input name=`user_code` value=`'')"

definition page_after :: string where
  "page_after = double_quotes (''` autocomplete=`one-time-code` required><label>Access token</label>'' @
     ''<input name=`access_token` type=`password` autocomplete=`off` required><button>Approve device</button></form>'' @
     ''<p class=`note`>The token needs the <code>orc:tools</code> scope.</p></body></html>'')"

definition pair_page_text :: "string \<Rightarrow> string" where
  "pair_page_text code = page_before @ html_escape code @ page_after"

subsection \<open>Replies\<close>

type_synonym header_list = "(string \<times> string) list"

record wire_reply =
  wp_status :: nat
  wp_headers :: header_list
  wp_text :: string

definition encode_device :: "api_device \<Rightarrow> jtree option" where
  "encode_device d = do {
     created \<leftarrow> time_text (ad_created_at d);
     seen \<leftarrow> (case ad_last_seen_at d of None \<Rightarrow> Some [] | Some t \<Rightarrow> map_option (\<lambda>x. [(''last_seen_at'', TStr x)]) (time_text t));
     Some (TObj ([(''id'', TStr (ad_id d)), (''name'', TStr (ad_name d)), (''online'', TBool (ad_online d))] @ seen @
       [(''created_at'', TStr created),
        (''capabilities'', TObj [(''filesystem'', TBool True), (''processes'', TBool True), (''shell'', TBool False), (''search'', TBool False)])])) }"

definition encode_started :: "pairing_started \<Rightarrow> jtree" where
  "encode_started p =
     TObj [(''device_code'', TStr (ps_device_code p)), (''user_code'', TStr (ps_user_code p)), (''verification_uri'', TStr (ps_verification_uri p)),
           (''verification_uri_complete'', TStr (ps_verification_uri_complete p)), (''expires_in'', jint (ps_expires_in p)),
           (''interval'', jint (ps_interval p))]"

definition encode_body :: "body \<Rightarrow> jtree option" where
  "encode_body b =
     (case b of
        ErrorBody code msg \<Rightarrow> Some (jmap [(''error'', jmap [(''code'', TStr code), (''message'', TStr msg)])])
      | PairingStarted p \<Rightarrow> Some (encode_started p)
      | Approved \<Rightarrow> Some (jmap [(''approved'', TBool True)])
      | TokenIssued did tok \<Rightarrow> Some (TObj [(''device_id'', TStr did), (''access_token'', TStr tok), (''token_type'', TStr ''Bearer'')])
      | Devices ds \<Rightarrow> map_option (\<lambda>ts. jmap [(''devices'', TArr ts)]) (those (map encode_device ds))
      | _ \<Rightarrow> None)"

text \<open>\<^verbatim>\<open>writeJSON\<close>: a value that cannot be written leaves the body empty, the status has been sent before.\<close>

definition write_json :: "nat \<Rightarrow> jtree option \<Rightarrow> wire_reply" where
  "write_json st v =
     \<lparr>wp_status = st, wp_headers = [(''Content-Type'', ''application/json'')],
      wp_text = (case v of None \<Rightarrow> [] | Some t \<Rightarrow> print_json t @ [CHR 0x0A])\<rparr>"

definition write_plain :: "nat \<Rightarrow> string \<Rightarrow> wire_reply" where
  "write_plain st msg =
     \<lparr>wp_status = st, wp_headers = [(''Content-Type'', ''text/plain; charset=utf-8''), (''X-Content-Type-Options'', ''nosniff'')],
      wp_text = msg @ [CHR 0x0A]\<rparr>"

definition html_reply :: "header_list \<Rightarrow> string \<Rightarrow> wire_reply" where
  "html_reply hs page =
     \<lparr>wp_status = 200, wp_headers = hs @ [(''Cache-Control'', ''no-store''), (''Content-Type'', ''text/html; charset=utf-8'')], wp_text = page\<rparr>"

definition page_policy :: string where
  "page_policy = ''default-src 'none'; style-src 'unsafe-inline'; form-action 'self'; base-uri 'none'; frame-ancestors 'none'' @ [CHR 0x27]"

definition pair_page :: "string \<Rightarrow> wire_reply" where
  "pair_page q = html_reply [(''Content-Security-Policy'', page_policy)] (pair_page_text (query_get q ''user_code''))"

text \<open>
  The reply of a handler with its headers. Status 429 comes with the seconds to wait. A text with status
  200 is the page after an approval, any other one is written by \<^verbatim>\<open>http.Error\<close>.
\<close>

definition retry_after :: "reply \<Rightarrow> header_list" where
  "retry_after r =
     (if status r \<noteq> 429 then []
      else (case body r of
              ErrorBody code msg \<Rightarrow> [(''Retry-After'', if code = ''slow_down'' then ''3'' else ''5'')]
            | _ \<Rightarrow> [(''Retry-After'', ''5'')]))"

definition render :: "reply \<Rightarrow> wire_reply" where
  "render r =
     (let out = (case body r of
                   NoBody \<Rightarrow> \<lparr>wp_status = status r, wp_headers = [], wp_text = []\<rparr>
                 | Upgraded text \<Rightarrow> \<lparr>wp_status = status r, wp_headers = [], wp_text = text\<rparr>
                 | PlainText text \<Rightarrow> if status r = 200 then html_reply [] text else write_plain (status r) text
                 | b \<Rightarrow> write_json (status r) (encode_body b))
      in out\<lparr>wp_headers := retry_after r @ wp_headers out\<rparr>)"

text \<open>The types of the package for what the handlers return.\<close>

definition reply_type :: "body \<Rightarrow> wtype" where
  "reply_type b =
     (case b of
        ErrorBody _ _ \<Rightarrow> WStruct [req ''error'' RemoteError]
      | PairingStarted _ \<Rightarrow> PairingStartResponse
      | Approved \<Rightarrow> WStruct [req ''approved'' WBool]
      | TokenIssued _ _ \<Rightarrow> PairingTokenResponse
      | Devices _ \<Rightarrow> WStruct [req ''devices'' (WList Device_v1)]
      | _ \<Rightarrow> WAny)"

subsection \<open>The agent's side\<close>

definition start_request_text :: "string \<Rightarrow> string" where
  "start_request_text deviceName = print_json (TObj [(''device_name'', TStr deviceName)])"

definition token_request_text :: "string \<Rightarrow> string" where
  "token_request_text deviceCode = print_json (TObj [(''device_code'', TStr deviceCode)])"

definition decode_started :: "string \<Rightarrow> pairing_started option" where
  "decode_started text = do {
     t \<leftarrow> decoder_tree text;
     m \<leftarrow> object_fields False [''device_code'', ''user_code'', ''verification_uri'', ''verification_uri_complete'', ''expires_in'', ''interval''] t;
     deviceCode \<leftarrow> get_string m ''device_code'';
     userCode \<leftarrow> get_string m ''user_code'';
     uri \<leftarrow> get_string m ''verification_uri'';
     complete \<leftarrow> get_string m ''verification_uri_complete'';
     expires \<leftarrow> get_int m ''expires_in'';
     interval \<leftarrow> get_int m ''interval'';
     Some \<lparr>ps_device_code = deviceCode, ps_user_code = userCode, ps_verification_uri = uri, ps_verification_uri_complete = complete,
           ps_expires_in = expires, ps_interval = interval\<rparr> }"

definition decode_token :: "string \<Rightarrow> credentials option" where
  "decode_token text = do {
     t \<leftarrow> decoder_tree text;
     m \<leftarrow> object_fields False [''device_id'', ''access_token'', ''token_type''] t;
     deviceID \<leftarrow> get_string m ''device_id'';
     accessToken \<leftarrow> get_string m ''access_token'';
     tokenType \<leftarrow> get_string m ''token_type'';
     Some \<lparr>cred_device = deviceID, cred_token = accessToken\<rparr> }"

text \<open>\<^verbatim>\<open>url.Values.Encode\<close> of the query of the connection, when the server URL has none.\<close>

definition device_query :: "string \<Rightarrow> string" where
  "device_query deviceID = ''device_id='' @ query_escape deviceID"

section \<open>Lemmas\<close>

subsection \<open>Escaping\<close>

lemma hex_val_upper: "n < 16 \<Longrightarrow> hex_val (upper_hex ! n) = Some (int n)"
proof -
  have "list_all (\<lambda>n. hex_val (upper_hex ! n) = Some (int n)) [0..<16]" by code_simp
  then show "n < 16 \<Longrightarrow> hex_val (upper_hex ! n) = Some (int n)" by (simp add: list_all_iff)
qed

lemma upper_hex_unreserved: "n < 16 \<Longrightarrow> unreserved (upper_hex ! n)"
proof -
  have "list_all (\<lambda>n. unreserved (upper_hex ! n)) [0..<16]" by code_simp
  then show "n < 16 \<Longrightarrow> unreserved (upper_hex ! n)" by (simp add: list_all_iff)
qed

lemma query_escape_Cons:
  "query_escape (c # s) =
     (if unreserved c then [c] else if c = CHR '' '' then ''+''
      else [CHR ''%'', upper_hex ! (of_char c div 16), upper_hex ! (of_char c mod 16)]) @ query_escape s"
  by (simp add: query_escape_def)

lemma unreserved_marks: "\<not> unreserved CHR ''%''" "\<not> unreserved CHR ''+''" "\<not> unreserved CHR '';''" "\<not> unreserved CHR ''&''"
  "\<not> unreserved CHR ''=''"
  by (simp_all add: unreserved_def)

lemma char_halves: "char_of (nat (16 * int (of_char c div 16) + int (of_char c mod 16))) = (c :: char)"
proof -
  have "16 * int (of_char c div 16) + int (of_char c mod 16) = int (of_char c)" by presburger
  then show ?thesis by simp
qed

lemma unescape_escape: "url_unescape True (query_escape s) = Some s"
proof (induction s)
  case (Cons c s)
  have "of_char c div 16 < (16 :: nat)" using of_char_lt_256 [of c] less_mult_imp_div_less [of "of_char c" 16 16] by simp
  then have hex: "hex_val (upper_hex ! (of_char c div 16)) = Some (int (of_char c div 16))"
    "hex_val (upper_hex ! (of_char c mod 16)) = Some (int (of_char c mod 16))"
    by (simp_all add: hex_val_upper)
  consider "unreserved c" "c \<noteq> CHR ''%''" "c \<noteq> CHR ''+''" | "\<not> unreserved c" "c = CHR '' ''" | "\<not> unreserved c" "c \<noteq> CHR '' ''"
    using unreserved_marks by blast
  then show ?case
    by cases (simp_all only: query_escape_Cons append.simps url_unescape.simps if_True if_False if_not_P refl list.case hex option.case
        prod.case char_halves Cons.IH option.map simp_thms char.inject)
qed (simp add: query_escape_def)

lemma query_escape_chars: "c \<in> set (query_escape s) \<Longrightarrow> unreserved c \<or> c = CHR ''+'' \<or> c = CHR ''%''"
proof (induction s)
  case (Cons x s)
  have "of_char x div 16 < (16 :: nat)" using of_char_lt_256 [of x] less_mult_imp_div_less [of "of_char x" 16 16] by simp
  with Cons upper_hex_unreserved show ?case by (auto simp: query_escape_Cons split: if_splits)
qed (simp add: query_escape_def)

lemma query_escape_plain:
  "CHR '';'' \<notin> set (query_escape s)" "CHR ''&'' \<notin> set (query_escape s)" "CHR ''='' \<notin> set (query_escape s)"
  using query_escape_chars [of _ s] unreserved_marks by fastforce+

text \<open>A query that sets one name to an escaped value gives that value.\<close>

lemma query_get_single:
  assumes "list_all unreserved k" and "k \<noteq> []"
  shows "query_get (k @ CHR ''='' # query_escape v) k = v"
proof -
  have k: "CHR ''='' \<notin> set k" "CHR ''&'' \<notin> set k" "CHR '';'' \<notin> set k" "CHR ''%'' \<notin> set k" "CHR ''+'' \<notin> set k"
    using assms(1) unreserved_marks by (auto simp: list_all_iff)
  have "url_unescape True x = Some x" if "CHR ''%'' \<notin> set x" "CHR ''+'' \<notin> set x" for x
    using that by (induction x) auto
  then have "url_unescape True k = Some k" using k by simp
  moreover have "takeWhile (\<lambda>c. c \<noteq> CHR ''='') (k @ CHR ''='' # query_escape v) = k"
    "dropWhile (\<lambda>c. c \<noteq> CHR ''='') (k @ CHR ''='' # query_escape v) = CHR ''='' # query_escape v"
    using k(1) by (auto simp: takeWhile_append dropWhile_append)
  ultimately have "query_setting (k @ CHR ''='' # query_escape v) = (True, [(k, v)])"
    using k(3) query_escape_plain(1) by (auto simp: query_setting_def unescape_escape)
  moreover have "split_on CHR ''&'' (k @ CHR ''='' # query_escape v) = [k @ CHR ''='' # query_escape v]"
    using k(2) query_escape_plain(2) by (intro split_on_no_sep) auto
  ultimately show ?thesis by (simp add: query_get_def parse_query_def values_get_def)
qed

definition breaks_attribute :: "char \<Rightarrow> bool" where
  "breaks_attribute c \<longleftrightarrow> c = CHR 0x22 \<or> c = CHR 0x27 \<or> c = CHR ''<'' \<or> c = CHR ''>''"

lemma html_escape_safe: "c \<in> set (html_escape s) \<Longrightarrow> \<not> breaks_attribute c"
proof -
  have t: "list_all (\<lambda>(k, x). list_all (\<lambda>c. \<not> breaks_attribute c) x) html_table" by code_simp
  have n: "\<not> breaks_attribute c" if "map_of html_table c = None" for c
    using that by (auto simp: breaks_attribute_def html_table_def)
  assume "c \<in> set (html_escape s)"
  then obtain d where "c \<in> set (case map_of html_table d of None \<Rightarrow> [d] | Some x \<Rightarrow> x)"
    by (auto simp: html_escape_def)
  then show ?thesis
  proof (cases "map_of html_table d")
    case (Some x)
    with t have "list_all (\<lambda>c. \<not> breaks_attribute c) x" by (auto simp: list_all_iff dest: map_of_SomeD)
    with Some \<open>c \<in> set (case map_of html_table d of None \<Rightarrow> [d] | Some x \<Rightarrow> x)\<close> show ?thesis by (simp add: list_all_iff)
  qed (use n in simp)
qed

lemma html_escape_id: "list_all unreserved s \<Longrightarrow> html_escape s = s"
proof (induction s)
  case (Cons c s)
  have "list_all (\<lambda>(k, x). \<not> unreserved k) html_table" by code_simp
  then have "map_of html_table c = None"
    using Cons.prems by (cases "map_of html_table c") (auto simp: list_all_iff dest: map_of_SomeD)
  with Cons show ?case by (simp add: html_escape_def)
qed (simp add: html_escape_def)

subsection \<open>Request bodies\<close>

lemma length_quote_body: "length (quote_body s) \<le> 6 * length s"
proof (induction s rule: quote_body.induct)
  case (1 s)
  have r: "length (escape_rune x) \<le> 6 * length x" if "x \<noteq> []" for x
    using that by (cases x) (auto simp: escape_rune_def escape_char_def Let_def)
  consider "s = []" | "s \<noteq> []" "front_rune s = 0" | "s \<noteq> []" "front_rune s \<noteq> 0" by blast
  then show ?case
  proof cases
    case 2
    with "1.IH"(1) show ?thesis by (subst quote_body.simps) (cases s, auto)
  next
    case 3
    then have "length (escape_rune (take (front_rune s) s)) \<le> 6 * length (take (front_rune s) s)" by (intro r) simp
    moreover have "length (quote_body (drop (front_rune s) s)) \<le> 6 * length (drop (front_rune s) s)" using "1.IH"(2) 3 by simp
    moreover have "length s = length (take (front_rune s) s) + length (drop (front_rune s) s)"
      by (metis append_take_drop_id length_append)
    moreover have "length (quote_body s) = length (escape_rune (take (front_rune s) s)) + length (quote_body (drop (front_rune s) s))"
      using 3 by (subst quote_body.simps) (simp only: if_False length_append)
    ultimately show ?thesis by linarith
  qed (simp add: quote_body.simps)
qed

text \<open>A request with one short field is read as it was written.\<close>

lemma decode_json_request:
  assumes "is_ascii f" and "length f \<le> 100" and "utf8_valid (bytes_of_string x)" and "length x \<le> 10000"
  shows "decode_json f (print_json (TObj [(f, TStr x)])) = Some x"
proof -
  let ?t = "TObj [(f, TStr x)]"
  have "int (length (print_json ?t)) \<le> max_json_body"
    using length_quote_body [of f] length_quote_body [of x] assms(2,4) by (simp add: quote_def max_json_body_def join_Cons)
  moreover have "read_loop [] BeginValue (print_json ?t) = Some (TObj [(f, TStr x)], [])"
    using parse_print [of ?t "[]"] assms(1,3) by (simp add: max_nesting_def number_end_def sanitize_valid)
  ultimately show ?thesis
    by (simp add: decode_json_def stream_tree_def take_upto_take object_fields_def field_for_def get_string_def values_of_def
        List.map_filter_def closed_value_def)
qed

subsection \<open>Replies\<close>

lemma decoder_tree_line:
  assumes "writable max_nesting v"
  shows "decoder_tree (print_json v @ [CHR 0x0A]) = Some (sanitize_tree v)"
  using parse_print [OF assms, of "[CHR 0x0A]"] by (simp add: decoder_tree_def number_end_def is_digit_def)

lemma decode_started_text:
  assumes "is_ascii (ps_device_code p)" "is_ascii (ps_user_code p)" "is_ascii (ps_verification_uri p)"
    and "is_ascii (ps_verification_uri_complete p)" and "ps_expires_in p = 600" and "ps_interval p = 3"
  shows "decode_started (print_json (encode_started p) @ [CHR 0x0A]) = Some p"
proof -
  have n: "parse_int64 (show_int 600) = Some 600" "parse_int64 (show_int 3) = Some 3" by code_simp+
  have k: "sanitize ''device_code'' = ''device_code''" "sanitize ''user_code'' = ''user_code''" "sanitize ''verification_uri'' = ''verification_uri''"
    "sanitize ''verification_uri_complete'' = ''verification_uri_complete''" "sanitize ''expires_in'' = ''expires_in''" "sanitize ''interval'' = ''interval''"
    by (simp_all add: is_ascii_def)
  have "decoder_tree (print_json (encode_started p) @ [CHR 0x0A]) = Some (encode_started p)"
    using decoder_tree_line [of "encode_started p"] assms(1-4) by (simp add: encode_started_def max_nesting_def k jint_def)
  then show ?thesis
    using assms(5,6)
    by (simp add: decode_started_def encode_started_def object_fields_def field_for_def get_string_def get_int_def values_of_def
        List.map_filter_def jint_def n)
qed

lemma decode_token_text:
  assumes "is_ascii did" and "is_ascii tok"
  shows "decode_token (wp_text (render \<lparr>status = 200, body = TokenIssued did tok\<rparr>)) = Some \<lparr>cred_device = did, cred_token = tok\<rparr>"
proof -
  let ?t = "TObj [(''device_id'', TStr did), (''access_token'', TStr tok), (''token_type'', TStr ''Bearer'')]"
  have k: "sanitize ''access_token'' = ''access_token''" "sanitize ''token_type'' = ''token_type''" "sanitize ''Bearer'' = ''Bearer''"
    by (simp_all add: is_ascii_def)
  have "decoder_tree (print_json ?t @ [CHR 0x0A]) = Some ?t"
    using decoder_tree_line [of ?t] assms by (simp add: max_nesting_def k)
  then show ?thesis
    by (simp add: render_def encode_body_def write_json_def Let_def retry_after_def decode_token_def object_fields_def field_for_def
        get_string_def values_of_def List.map_filter_def del: print_json.simps)
qed

text \<open>Every JSON reply has the shape of its type.\<close>

lemma conforms_device: "encode_device d = Some t \<Longrightarrow> conforms Device_v1 t"
  by (auto simp: encode_device_def Device_v1_def DeviceCapabilities_def wire_members is_string_def dest: time_text_Z
      split: option.splits bind_splits)

lemma conforms_reply: "encode_body b = Some t \<Longrightarrow> conforms (reply_type b) t"
proof (cases b)
  case (Devices ds)
  assume "encode_body b = Some t"
  with Devices obtain ts where ts: "those (map encode_device ds) = Some ts" "t = jmap [(''devices'', TArr ts)]"
    by (auto simp: encode_body_def)
  from those_conforms [OF ts(1), of "conforms Device_v1"] conforms_device have "list_all (conforms Device_v1) ts" by blast
  with Devices ts(2) show ?thesis by (simp add: reply_type_def wire_members)
qed (auto simp: encode_body_def reply_type_def encode_started_def PairingStartResponse_def PairingTokenResponse_def RemoteError_def
    wire_members is_string_def)

lemma ascii_b64url: "is_ascii (b64url_encode bs)"
proof -
  have "list_all (\<lambda>c. of_char c < (128 :: nat)) url_alphabet" by code_simp
  then show ?thesis using b64url_chars [of bs] by (auto simp: is_ascii_def list_all_iff)
qed

lemma hex_encode_chars: "set (hex_encode bs) \<subseteq> set hex_digits"
proof -
  have "unat b div 16 < 16" for b :: byte
    using unsigned_less [of b, where ?'a = nat] less_mult_imp_div_less [of "unat b" 16 16] by simp
  moreover have "length hex_digits = 16" by code_simp
  ultimately show ?thesis by (auto simp: hex_encode_def)
qed

lemma device_id_text:
  "is_ascii (''dev_'' @ hex_encode bs)" "trim_space (''dev_'' @ hex_encode bs) = ''dev_'' @ hex_encode bs"
proof -
  have h: "list_all (\<lambda>c. of_char c < (128 :: nat) \<and> visible c) (''dev_'' @ hex_digits)" by code_simp
  then show "is_ascii (''dev_'' @ hex_encode bs)"
    using hex_encode_chars [of bs] by (auto simp: is_ascii_def list_all_iff)
  have "visible c" if "c \<in> set (''dev_'' @ hex_encode bs)" for c
    using h that hex_encode_chars [of bs] by (auto simp: list_all_iff)
  moreover have "''dev_'' @ hex_encode bs \<noteq> []" by simp
  ultimately show "trim_space (''dev_'' @ hex_encode bs) = ''dev_'' @ hex_encode bs"
    by (intro trim_space_id) (use hd_in_set last_in_set in blast)+
qed

lemma code_unreserved:
  assumes "human_code (Some r8) = Some code"
  shows "list_all unreserved code" "is_ascii code"
proof -
  have "list_all unreserved (CHR ''-'' # code_alphabet)" "list_all (\<lambda>c. of_char c < (128 :: nat)) (CHR ''-'' # code_alphabet)" by code_simp+
  moreover have "set code \<subseteq> set (CHR ''-'' # code_alphabet)"
    using assms code_alphabet_facts(1) by (auto simp: human_code_def Let_def dest!: in_set_takeD in_set_dropD)
  ultimately show "list_all unreserved code" "is_ascii code" by (auto simp: list_all_iff is_ascii_def)
qed

lemma query_escape_id: "list_all unreserved s \<Longrightarrow> query_escape s = s"
  by (induction s) (simp_all add: query_escape_Cons, simp add: query_escape_def)

lemma consume_handler_issued:
  assumes "consume_handler sha256 clk remote code (Some rid) (Some rtok) s = (rep, s')" and "status rep = 200"
  obtains d where "rep = \<lparr>status = 200, body = TokenIssued (''dev_'' @ hex_encode rid) (b64url_encode rtok)\<rparr>"
    and "authenticate_device sha256 (cp_store s') (''dev_'' @ hex_encode rid) (b64url_encode rtok) = Inr d"
proof -
  from assms obtain h d m where c: "consume_pairing sha256 (clk 1) h (new_device (''dev_'' @ hex_encode rid)) (b64url_encode rtok) (cp_store s) = (Inr d, m)"
    and m: "cp_store s' = m" and rep: "rep = \<lparr>status = 200, body = TokenIssued (dev_id d) (b64url_encode rtok)\<rparr>"
    by (auto simp: consume_handler_def write_error_def Let_def random_device_id_def random_secret_def
        split: prod.splits bool.splits option.splits sum.splits if_splits)
  have "authenticate_device sha256 m (''dev_'' @ hex_encode rid) (b64url_encode rtok) = Inr d"
    using mem.consume_auth [OF c] by (simp add: new_device_def)
  moreover have "dev_id d = ''dev_'' @ hex_encode rid"
    using c by (auto simp: consume_pairing_def new_device_def Let_def split: option.splits if_splits)
  ultimately show ?thesis using rep m that by simp
qed

lemma issued_credentials:
  assumes "consume_handler sha256 clk remote code (Some rid) (Some rtok) s = (rep, s')" and "status rep = 200"
  shows "\<exists>c d. decode_token (wp_text (render rep)) = Some c \<and> trim_space (query_get (device_query (cred_device c)) ''device_id'') = cred_device c \<and>
    authenticate_device sha256 (cp_store s') (cred_device c) (cred_token c) = Inr d"
proof -
  obtain d where d: "rep = \<lparr>status = 200, body = TokenIssued (''dev_'' @ hex_encode rid) (b64url_encode rtok)\<rparr>"
    "authenticate_device sha256 (cp_store s') (''dev_'' @ hex_encode rid) (b64url_encode rtok) = Inr d"
    by (rule consume_handler_issued [OF assms])
  let ?c = "\<lparr>cred_device = ''dev_'' @ hex_encode rid, cred_token = b64url_encode rtok\<rparr>"
  have "decode_token (wp_text (render rep)) = Some ?c"
    unfolding d(1) by (rule decode_token_text [OF device_id_text(1) ascii_b64url])
  moreover have "query_get (device_query (cred_device ?c)) ''device_id'' = cred_device ?c"
    using query_get_single [of "''device_id''" "cred_device ?c"] by (simp add: unreserved_def device_query_def)
  ultimately show ?thesis using d(2) device_id_text(2) [of rid]
    by (intro exI [of _ ?c] exI [of _ d]) simp
qed

lemma start_pairing_answer:
  assumes "start_pairing sha256 mac uni clk remote (Some name) (Some r32) (Some r8) s0 = (rep, s1)" and "status rep = 201"
  obtains ps p where "rep = \<lparr>status = 201, body = PairingStarted ps\<rparr>" "create_pairing p (cp_store s0) = (Inr (), cp_store s1)"
    "device_name p = trim_space name" "device_code_hash p = hash_secret sha256 (ps_device_code ps)"
    "user_code_hash p = hash_user_code mac uni (pairing_secret s0) (ps_user_code ps)"
    "human_code (Some r8) = Some (ps_user_code ps)" "ps_device_code ps = b64url_encode r32"
    "ps_verification_uri ps = base_url s0 @ ''/pair''" "ps_expires_in ps = 600" "ps_interval ps = 3"
    "ps_verification_uri_complete ps = base_url s0 @ ''/pair?user_code='' @ query_escape (ps_user_code ps)"
proof -
  let ?ps = "\<lambda>code. \<lparr>ps_device_code = b64url_encode r32, ps_user_code = code, ps_verification_uri = base_url s0 @ ''/pair'',
      ps_verification_uri_complete = base_url s0 @ ''/pair?user_code='' @ query_escape code, ps_expires_in = 600, ps_interval = 3\<rparr>"
  let ?p = "\<lambda>code. \<lparr>device_code_hash = hash_secret sha256 (b64url_encode r32), user_code_hash = hash_user_code mac uni (pairing_secret s0) code,
      device_name = trim_space name, expires_at = clk 1 + 600 * second, pair_owner = [], approved_at = None, consumed_at = None\<rparr>"
  obtain code where "human_code (Some r8) = Some code" "create_pairing (?p code) (cp_store s0) = (Inr (), cp_store s1)"
    "rep = \<lparr>status = 201, body = PairingStarted (?ps code)\<rparr>"
    using assms by (auto simp: start_pairing_def write_error_def random_secret_def Let_def split: prod.splits bool.splits
        option.splits sum.splits if_splits)
  then show ?thesis by (intro that [of "?ps code" "?p code"]) simp_all
qed

lemma is_ascii_parts:
  "is_ascii []" "is_ascii (c # s) \<longleftrightarrow> of_char c < (128 :: nat) \<and> is_ascii s" "is_ascii (a @ b) \<longleftrightarrow> is_ascii a \<and> is_ascii b"
  by (simp_all add: is_ascii_def)

section \<open>Properties\<close>

text \<open>
  C14. The agent and the server understand each other while they pair. The text in which the agent names its
  device is read by the server as that name. The text of the answer is read by the agent as the codes
  of the pairing that was created; the address it shows opens the pairing page with exactly the user
  code filled in; its polling requests are read as the device code; and when one is answered with
  credentials, the agent reads from the text the device id and the token that the store accepts, and
  the query it connects with carries that id.
\<close>

theorem pairing_messages_understood:
  assumes "start_pairing sha256 mac uni clk remote (decode_json ''device_name'' (start_request_text name)) (Some r32) (Some r8) s0 = (rep, s1)"
    and "status rep = 201" and "utf8_valid (bytes_of_string name)" and "length name \<le> 160" and "is_ascii (base_url s0)" and "length r32 = 32"
  shows "\<exists>ps p q. decode_started (wp_text (render rep)) = Some ps \<and>
    create_pairing p (cp_store s0) = (Inr (), cp_store s1) \<and> device_name p = trim_space name \<and>
    device_code_hash p = hash_secret sha256 (ps_device_code ps) \<and>
    user_code_hash p = hash_user_code mac uni (pairing_secret s0) (ps_user_code ps) \<and>
    ps_verification_uri_complete ps = base_url s0 @ ''/pair?'' @ q \<and> query_get q ''user_code'' = ps_user_code ps \<and>
    wp_text (pair_page q) = page_before @ ps_user_code ps @ page_after \<and>
    decode_json ''device_code'' (token_request_text (ps_device_code ps)) = Some (ps_device_code ps) \<and>
    (\<forall>clk' remote' rid rtok s2 rep' s3.
       consume_handler sha256 clk' remote' (decode_json ''device_code'' (token_request_text (ps_device_code ps))) (Some rid) (Some rtok) s2 = (rep', s3) \<and>
       status rep' = 200 \<longrightarrow>
       (\<exists>c d. decode_token (wp_text (render rep')) = Some c \<and> trim_space (query_get (device_query (cred_device c)) ''device_id'') = cred_device c \<and>
          authenticate_device sha256 (cp_store s3) (cred_device c) (cred_token c) = Inr d))"
proof -
  have name: "decode_json ''device_name'' (start_request_text name) = Some name"
    unfolding start_request_text_def using assms(3,4) by (intro decode_json_request) (simp_all add: is_ascii_def)
  obtain ps p where rep: "rep = \<lparr>status = 201, body = PairingStarted ps\<rparr>" and p: "create_pairing p (cp_store s0) = (Inr (), cp_store s1)"
      "device_name p = trim_space name" "device_code_hash p = hash_secret sha256 (ps_device_code ps)"
      "user_code_hash p = hash_user_code mac uni (pairing_secret s0) (ps_user_code ps)"
    and code: "human_code (Some r8) = Some (ps_user_code ps)" "ps_device_code ps = b64url_encode r32"
    and ps: "ps_verification_uri ps = base_url s0 @ ''/pair''" "ps_expires_in ps = 600" "ps_interval ps = 3"
      "ps_verification_uri_complete ps = base_url s0 @ ''/pair?user_code='' @ query_escape (ps_user_code ps)"
    using assms(1,2) unfolding name by (rule start_pairing_answer)
  note cu = code_unreserved [OF code(1)]
  let ?q = "''user_code='' @ query_escape (ps_user_code ps)"
  have q: "query_get ?q ''user_code'' = ps_user_code ps"
    using query_get_single [of "''user_code''" "ps_user_code ps"] by (simp add: unreserved_def)
  have started: "decode_started (wp_text (render rep)) = Some ps"
    using decode_started_text [of ps] rep ps cu assms(5) ascii_b64url code(2)
    by (simp add: render_def Let_def encode_body_def write_json_def query_escape_id is_ascii_parts)
  have page: "wp_text (pair_page ?q) = page_before @ ps_user_code ps @ page_after"
    by (simp add: pair_page_def html_reply_def pair_page_text_def q html_escape_id [OF cu(1)] del: append.simps append_Cons)
  have dc: "decode_json ''device_code'' (token_request_text (ps_device_code ps)) = Some (ps_device_code ps)"
    unfolding token_request_text_def using ascii_b64url [of r32] code(2) assms(6)
    by (intro decode_json_request) (simp_all add: is_ascii_def utf8_valid_ascii length_b64url)
  have issued: "\<exists>c d. decode_token (wp_text (render rep')) = Some c \<and> trim_space (query_get (device_query (cred_device c)) ''device_id'') = cred_device c \<and>
      authenticate_device sha256 (cp_store s3) (cred_device c) (cred_token c) = Inr d"
    if "consume_handler sha256 clk' remote' rq (Some rid) (Some rtok) s2 = (rep', s3)" "status rep' = 200" for clk' remote' rq rid rtok s2 rep' s3
    using that by (rule issued_credentials)
  have uri: "ps_verification_uri_complete ps = base_url s0 @ ''/pair?'' @ ?q" using ps(4) by simp
  show ?thesis
    by (rule exI [of _ ps], rule exI [of _ p], rule exI [of _ ?q])
      (intro conjI started p uri q page dc allI impI, elim conjE, rule issued)
qed

definition demo_pairing_reply :: "reply \<times> control" where
  "demo_pairing_reply = start_pairing (\<lambda>b. b) (\<lambda>k b. b) (\<lambda>x. x) (\<lambda>n. 5) ''10.0.0.1:1''
     (decode_json ''device_name'' (start_request_text ''my laptop'')) (Some (replicate 32 7)) (Some [0, 1, 2, 3, 4, 5, 6, 7]) demo_control"

theorem pairing_messages_understood_witness:
  "\<exists>ps q. decode_started (wp_text (render (fst demo_pairing_reply))) = Some ps \<and>
     ps_verification_uri_complete ps = ''https://relay.example'' @ ''/pair?'' @ q \<and> query_get q ''user_code'' = ps_user_code ps"
proof -
  have run: "start_pairing (\<lambda>b. b) (\<lambda>k b. b) (\<lambda>x. x) (\<lambda>n. 5) ''10.0.0.1:1''
     (decode_json ''device_name'' (start_request_text ''my laptop'')) (Some (replicate 32 7)) (Some [0, 1, 2, 3, 4, 5, 6, 7]) demo_control =
     (fst demo_pairing_reply, snd demo_pairing_reply)"
    by (simp add: demo_pairing_reply_def)
  have st: "status (fst demo_pairing_reply) = 201" by code_simp
  have h: "utf8_valid (bytes_of_string ''my laptop'')" "length ''my laptop'' \<le> 160" "is_ascii (base_url demo_control)"
    "length (replicate 32 7 :: bytes) = 32" "base_url demo_control = ''https://relay.example''"
    by code_simp+
  from pairing_messages_understood [OF run st h(1-4)] show ?thesis unfolding h(5) by blast
qed

end
