(* ===== verification/Neon.thy ===== *)
theory Neon
  imports McpServer Config
begin

text \<open>
  The store in a Postgres database (\<^verbatim>\<open>internal/store/neonhttp.go\<close>). The database is reached over HTTP:
  \<open>serve\<close> is the service, a function from a statement, its parameters and the state of the database to
  what comes back and the new state. Other arguments: \<^verbatim>\<open>url.Parse\<close>, and the time format that
  \<^verbatim>\<open>time.Parse\<close> accepts and \<^verbatim>\<open>Format\<close> writes. What the endpoint relies on of a store is shown for this one
  under the hypothesis \<open>honours_queries\<close>, that the service evaluates the two \<^verbatim>\<open>SELECT\<close> statements as SQL
  defines them.
\<close>

section \<open>Definitions\<close>

record neon_http =
  connection_string :: string
  endpoint :: string

record neon_query =
  nq_query :: string
  nq_params :: "string list"

text \<open>A value of a row: \<^verbatim>\<open>nil\<close>, a string, or something else, given by what \<^verbatim>\<open>fmt.Sprint\<close> makes of it.\<close>

datatype sqlval = SNull | SText string | SOther string

record neon_result =
  nr_fields :: "string list"
  nr_rows :: "sqlval list list"

datatype neon_answer = NeonUnreachable | NeonStatus nat string | NeonBadBody | NeonResult neon_result

type_synonym 'db service = "neon_query \<Rightarrow> 'db \<Rightarrow> neon_answer \<times> 'db"

definition derive_endpoint :: "string \<Rightarrow> string option" where
  "derive_endpoint host =
     (let parts = split_on CHR ''.'' host
      in if length parts < 2 then None else Some (''https://'' @ join ''.'' (''api'' # tl parts) @ ''/sql''))"

definition neon_loopback :: "string \<Rightarrow> bool" where
  "neon_loopback h \<longleftrightarrow> h = ''127.0.0.1'' \<or> h = ''localhost''"

definition new_neon_http :: "(string \<Rightarrow> (url \<times> bool) option) \<Rightarrow> string \<Rightarrow> string \<Rightarrow> storeerr + neon_http" where
  "new_neon_http parse connectionString endpointOverride =
     (case parse connectionString of
        None \<Rightarrow> Inl (StoreMsg ''invalid Neon Postgres connection string'')
      | Some (u, has_user) \<Rightarrow>
        if scheme u \<noteq> ''postgres'' \<and> scheme u \<noteq> ''postgresql'' \<or> \<not> has_user \<or> url_hostname u = [] \<or>
           (case escaped_path u of [] \<Rightarrow> True | c # cs \<Rightarrow> c = CHR ''/'' \<and> cs = [])
        then Inl (StoreMsg ''invalid Neon Postgres connection string'')
        else
          (let override = trim_space endpointOverride
           in case (if override \<noteq> [] then Some override else derive_endpoint (url_hostname u)) of
                None \<Rightarrow> Inl (StoreMsg ''cannot derive Neon HTTP endpoint'')
              | Some ep \<Rightarrow>
                (case parse ep of
                   None \<Rightarrow> Inl (StoreMsg ''neon HTTP endpoint must use https outside loopback'')
                 | Some (eu, _) \<Rightarrow>
                   if url_host eu = [] \<or> scheme eu \<noteq> ''https'' \<and> (scheme eu \<noteq> ''http'' \<or> \<not> neon_loopback (url_hostname eu))
                   then Inl (StoreMsg ''neon HTTP endpoint must use https outside loopback'')
                   else Inr \<lparr>connection_string = connectionString, endpoint = ep\<rparr>)))"

text \<open>\<^verbatim>\<open>query\<close>: anything but a decodable answer with a status of 2xx is an error.\<close>

definition neon_run :: "'db service \<Rightarrow> string \<Rightarrow> string list \<Rightarrow> 'db \<Rightarrow> (storeerr + neon_result) \<times> 'db" where
  "neon_run serve q params db =
     (case serve \<lparr>nq_query = q, nq_params = params\<rparr> db of
        (NeonUnreachable, db') \<Rightarrow> (Inl (StoreMsg ''neon http query''), db')
      | (NeonStatus n txt, db') \<Rightarrow> (Inl (StoreMsg (''neon http query status '' @ show_nat n @ '': '' @ trim_space txt)), db')
      | (NeonBadBody, db') \<Rightarrow> (Inl (StoreMsg ''decode neon response''), db')
      | (NeonResult r, db') \<Rightarrow> (Inr r, db'))"

text \<open>A later field of the same name wins; a missing one reads as \<^verbatim>\<open>nil\<close>.\<close>

definition row_value :: "neon_result \<Rightarrow> sqlval list \<Rightarrow> string \<Rightarrow> sqlval" where
  "row_value r row name =
     (case map_of (rev (zip (nr_fields r) row)) name of None \<Rightarrow> SNull | Some v \<Rightarrow> v)"

fun text_val :: "sqlval \<Rightarrow> string" where
  "text_val SNull = []"
| "text_val (SText s) = s"
| "text_val (SOther s) = s"

definition time_ptr :: "(string \<Rightarrow> time option) \<Rightarrow> sqlval \<Rightarrow> time option" where
  "time_ptr parse v = (let s = text_val v in if s = [] then None else parse s)"

definition deref_time :: "time option \<Rightarrow> time" where
  "deref_time t = (case t of None \<Rightarrow> 0 | Some x \<Rightarrow> x)"

definition device_from_map :: "(string \<Rightarrow> time option) \<Rightarrow> (string \<Rightarrow> sqlval) \<Rightarrow> device" where
  "device_from_map parse m =
     \<lparr>dev_id = text_val (m ''id''), owner_subject = text_val (m ''owner_subject''), dev_name = text_val (m ''name''),
      created_at = deref_time (time_ptr parse (m ''created_at'')), last_seen_at = time_ptr parse (m ''last_seen_at''),
      revoked_at = time_ptr parse (m ''revoked_at''), online = False\<rparr>"

definition sql_create_device :: string where
  "sql_create_device = ''INSERT INTO devices(id, owner_subject, name, token_hash) VALUES ($1,$2,$3,$4)''"

definition sql_get_device :: string where
  "sql_get_device = ''SELECT id, owner_subject, name, created_at, last_seen_at, revoked_at FROM devices WHERE id=$1 AND owner_subject=$2 AND revoked_at IS NULL''"

definition sql_list_devices :: string where
  "sql_list_devices = ''SELECT id, owner_subject, name, created_at, last_seen_at, revoked_at FROM devices WHERE owner_subject=$1 AND revoked_at IS NULL ORDER BY created_at''"

definition sql_authenticate :: string where
  "sql_authenticate = ''SELECT id, owner_subject, name, token_hash, created_at, last_seen_at, revoked_at FROM devices WHERE id=$1 AND revoked_at IS NULL''"

definition sql_touch :: string where
  "sql_touch = ''UPDATE devices SET last_seen_at=now() WHERE id=$1 AND revoked_at IS NULL''"

definition sql_revoke :: string where
  "sql_revoke = ''UPDATE devices SET revoked_at=now() WHERE id=$1 AND owner_subject=$2 AND revoked_at IS NULL RETURNING id''"

definition sql_audit :: string where
  "sql_audit = ''INSERT INTO call_audit(owner_subject, device_id, tool_name, status, duration_ms, error_code) VALUES ($1,$2,$3,$4,$5,NULLIF($6,'' @
     [CHR 0x27, CHR 0x27] @ ''))''"

definition sql_create_pairing :: string where
  "sql_create_pairing = ''INSERT INTO pairings(device_code_hash,user_code_hash,device_name,expires_at) VALUES ($1,$2,$3,$4)''"

definition sql_approve :: string where
  "sql_approve = ''UPDATE pairings SET owner_subject=$2, approved_at=now() WHERE user_code_hash=$1 AND consumed_at IS NULL AND expires_at>now() RETURNING device_code_hash''"

definition sql_consume :: string where
  "sql_consume = join [CHR 0x0A]
     [''WITH p AS ('',
      ''  UPDATE pairings SET consumed_at=now()'',
      ''  WHERE device_code_hash=$1 AND approved_at IS NOT NULL AND owner_subject IS NOT NULL AND consumed_at IS NULL AND expires_at>now()'',
      ''  RETURNING owner_subject, device_name'',
      ''), ins AS ('',
      ''  INSERT INTO devices(id,owner_subject,name,token_hash)'',
      ''  SELECT $2,owner_subject,device_name,$3 FROM p'',
      ''  RETURNING id,owner_subject,name,created_at,last_seen_at,revoked_at'',
      '')'',
      ''SELECT id,owner_subject,name,created_at,last_seen_at,revoked_at FROM ins'']"

definition sql_pairing_status :: string where
  "sql_pairing_status = ''SELECT approved_at,consumed_at,expires_at FROM pairings WHERE device_code_hash=$1''"

definition discard :: "(storeerr + 'a) \<times> 'db \<Rightarrow> (storeerr + unit) \<times> 'db" where
  "discard r = (case fst r of Inl e \<Rightarrow> (Inl e, snd r) | Inr _ \<Rightarrow> (Inr (), snd r))"

definition neon_create_device :: "'db service \<Rightarrow> (bytes \<Rightarrow> bytes) \<Rightarrow> device \<Rightarrow> string \<Rightarrow> 'db \<Rightarrow> (storeerr + unit) \<times> 'db" where
  "neon_create_device serve sha256 d token db =
     discard (neon_run serve sql_create_device [dev_id d, owner_subject d, dev_name d, hash_secret sha256 token] db)"

definition neon_get_device :: "'db service \<Rightarrow> (string \<Rightarrow> time option) \<Rightarrow> string \<Rightarrow> string \<Rightarrow> 'db \<Rightarrow> (storeerr + device) \<times> 'db" where
  "neon_get_device serve parse owner did db =
     (case neon_run serve sql_get_device [did, owner] db of
        (Inl e, db') \<Rightarrow> (Inl e, db')
      | (Inr r, db') \<Rightarrow>
        (case nr_rows r of [row] \<Rightarrow> Inr (device_from_map parse (row_value r row)) | _ \<Rightarrow> Inl NotFound, db'))"

definition neon_list_devices :: "'db service \<Rightarrow> (string \<Rightarrow> time option) \<Rightarrow> string \<Rightarrow> 'db \<Rightarrow> (storeerr + device list) \<times> 'db" where
  "neon_list_devices serve parse owner db =
     (case neon_run serve sql_list_devices [owner] db of
        (Inl e, db') \<Rightarrow> (Inl e, db')
      | (Inr r, db') \<Rightarrow> (Inr (map (\<lambda>row. device_from_map parse (row_value r row)) (nr_rows r)), db'))"

definition neon_authenticate ::
  "'db service \<Rightarrow> (string \<Rightarrow> time option) \<Rightarrow> (bytes \<Rightarrow> bytes) \<Rightarrow> string \<Rightarrow> string \<Rightarrow> 'db \<Rightarrow> (storeerr + device) \<times> 'db" where
  "neon_authenticate serve parse sha256 did token db =
     (case neon_run serve sql_authenticate [did] db of
        (Inl e, db') \<Rightarrow> (Inl e, db')
      | (Inr r, db') \<Rightarrow>
        (case nr_rows r of
           [row] \<Rightarrow>
             if text_val (row_value r row ''token_hash'') \<noteq> hash_secret sha256 token then Inl Unauthorized
             else Inr (device_from_map parse (row_value r row))
         | _ \<Rightarrow> Inl Unauthorized, db'))"

definition neon_touch :: "'db service \<Rightarrow> string \<Rightarrow> 'db \<Rightarrow> (storeerr + unit) \<times> 'db" where
  "neon_touch serve did db = discard (neon_run serve sql_touch [did] db)"

text \<open>The two updates that must hit exactly one row.\<close>

definition one_row :: "(storeerr + neon_result) \<times> 'db \<Rightarrow> (storeerr + unit) \<times> 'db" where
  "one_row r =
     (case fst r of Inl e \<Rightarrow> (Inl e, snd r) | Inr res \<Rightarrow> (if length (nr_rows res) \<noteq> 1 then Inl NotFound else Inr (), snd r))"

definition neon_revoke :: "'db service \<Rightarrow> string \<Rightarrow> string \<Rightarrow> 'db \<Rightarrow> (storeerr + unit) \<times> 'db" where
  "neon_revoke serve owner did db = one_row (neon_run serve sql_revoke [did, owner] db)"

definition milliseconds :: "duration \<Rightarrow> int" where
  "milliseconds d = (if d < 0 then - ((- d) div 1000000) else d div 1000000)"

definition neon_write_audit :: "'db service \<Rightarrow> audit_event \<Rightarrow> 'db \<Rightarrow> (storeerr + unit) \<times> 'db" where
  "neon_write_audit serve e db =
     discard (neon_run serve sql_audit
       [ev_owner e, ev_device e, ev_tool e, ev_status e, show_int (milliseconds (ev_duration e)), ev_error e] db)"

definition neon_create_pairing :: "'db service \<Rightarrow> (time \<Rightarrow> string) \<Rightarrow> pairing \<Rightarrow> 'db \<Rightarrow> (storeerr + unit) \<times> 'db" where
  "neon_create_pairing serve format p db =
     discard (neon_run serve sql_create_pairing
       [device_code_hash p, user_code_hash p, device_name p, format (expires_at p)] db)"

definition neon_approve :: "'db service \<Rightarrow> string \<Rightarrow> string \<Rightarrow> 'db \<Rightarrow> (storeerr + unit) \<times> 'db" where
  "neon_approve serve userCodeHash owner db = one_row (neon_run serve sql_approve [userCodeHash, owner] db)"

definition pairing_state :: "(string \<Rightarrow> time option) \<Rightarrow> time \<Rightarrow> (string \<Rightarrow> sqlval) \<Rightarrow> storeerr" where
  "pairing_state parse clock m =
     (if time_ptr parse (m ''consumed_at'') \<noteq> None then PairingUsed
      else if (case time_ptr parse (m ''expires_at'') of None \<Rightarrow> False | Some t \<Rightarrow> clock > t) then PairingExpired
      else if time_ptr parse (m ''approved_at'') = None then PairingPending
      else NotFound)"

definition neon_consume ::
  "'db service \<Rightarrow> (string \<Rightarrow> time option) \<Rightarrow> (bytes \<Rightarrow> bytes) \<Rightarrow> time \<Rightarrow> string \<Rightarrow> device \<Rightarrow> string \<Rightarrow> 'db \<Rightarrow>
   (storeerr + device) \<times> 'db" where
  "neon_consume serve parse sha256 clock deviceCodeHash d token db =
     (case neon_run serve sql_consume [deviceCodeHash, dev_id d, hash_secret sha256 token] db of
        (Inl e, db1) \<Rightarrow> (Inl e, db1)
      | (Inr r, db1) \<Rightarrow>
        (case nr_rows r of
           [row] \<Rightarrow> (Inr (device_from_map parse (row_value r row)), db1)
         | _ \<Rightarrow>
           (case neon_run serve sql_pairing_status [deviceCodeHash] db1 of
              (Inl e, db2) \<Rightarrow> (Inl e, db2)
            | (Inr st, db2) \<Rightarrow>
              (case nr_rows st of
                 [row] \<Rightarrow> (Inl (pairing_state parse clock (row_value st row)), db2)
               | _ \<Rightarrow> (Inl NotFound, db2)))))"

section \<open>Interface\<close>

definition neon_view :: "'db service \<Rightarrow> (string \<Rightarrow> time option) \<Rightarrow> 'db \<Rightarrow> store_view" where
  "neon_view serve parse db =
     \<lparr>sv_get = (\<lambda>owner did. fst (neon_get_device serve parse owner did db)),
      sv_list = (\<lambda>owner. fst (neon_list_devices serve parse owner db))\<rparr>"

text \<open>
  The documented meaning of the two statements: a row is returned only if it satisfies the \<^verbatim>\<open>WHERE\<close>
  clause, with the columns of the \<^verbatim>\<open>SELECT\<close> list, and a row of the longer list is the row that its own
  id finds, ids being unique.
\<close>

definition honours_queries :: "'db service \<Rightarrow> 'db \<Rightarrow> bool" where
  "honours_queries serve db \<longleftrightarrow>
     (\<forall>owner did r. fst (serve \<lparr>nq_query = sql_get_device, nq_params = [did, owner]\<rparr> db) = NeonResult r \<longrightarrow>
        (\<forall>row\<in>set (nr_rows r). row_value r row ''id'' = SText did \<and> row_value r row ''owner_subject'' = SText owner \<and>
           row_value r row ''revoked_at'' = SNull)) \<and>
     (\<forall>owner r row. fst (serve \<lparr>nq_query = sql_list_devices, nq_params = [owner]\<rparr> db) = NeonResult r \<and> row \<in> set (nr_rows r) \<longrightarrow>
        fst (serve \<lparr>nq_query = sql_get_device, nq_params = [text_val (row_value r row ''id''), owner]\<rparr> db) =
          NeonResult (r\<lparr>nr_rows := [row]\<rparr>))"

lemma neon_run_Inr:
  "neon_run serve q params db = (Inr r, db') \<longleftrightarrow> serve \<lparr>nq_query = q, nq_params = params\<rparr> db = (NeonResult r, db')"
  by (auto simp: neon_run_def split: neon_answer.splits prod.splits)

lemma neon_get_Inr:
  "fst (neon_get_device serve parse owner did db) = Inr d \<longleftrightarrow>
     (\<exists>r row. fst (serve \<lparr>nq_query = sql_get_device, nq_params = [did, owner]\<rparr> db) = NeonResult r \<and> nr_rows r = [row] \<and>
        d = device_from_map parse (row_value r row))"
  by (cases "serve \<lparr>nq_query = sql_get_device, nq_params = [did, owner]\<rparr> db"; cases "fst (serve \<lparr>nq_query = sql_get_device, nq_params = [did, owner]\<rparr> db)")
    (auto simp: neon_get_device_def neon_run_def split: list.splits)

lemma neon_list_Inr:
  "fst (neon_list_devices serve parse owner db) = Inr ds \<longleftrightarrow>
     (\<exists>r. fst (serve \<lparr>nq_query = sql_list_devices, nq_params = [owner]\<rparr> db) = NeonResult r \<and>
        ds = map (\<lambda>row. device_from_map parse (row_value r row)) (nr_rows r))"
  by (cases "serve \<lparr>nq_query = sql_list_devices, nq_params = [owner]\<rparr> db"; cases "fst (serve \<lparr>nq_query = sql_list_devices, nq_params = [owner]\<rparr> db)")
    (auto simp: neon_list_devices_def neon_run_def)

lemma row_value_rows [simp]: "row_value (r\<lparr>nr_rows := x\<rparr>) = row_value r"
  by (simp add: row_value_def fun_eq_iff)

interpretation neon_view: owner_view "honours_queries serve" "neon_view serve parse"
proof (unfold_locales, goal_cases)
  case (1 db owner did d)
  then show ?case
    by (auto simp: neon_view_def neon_get_Inr honours_queries_def device_from_map_def time_ptr_def)
next
  case (2 db owner ds d)
  then obtain r row where r: "fst (serve \<lparr>nq_query = sql_list_devices, nq_params = [owner]\<rparr> db) = NeonResult r"
    "row \<in> set (nr_rows r)" "d = device_from_map parse (row_value r row)"
    by (auto simp: neon_view_def neon_list_Inr)
  with 2(1) have "fst (serve \<lparr>nq_query = sql_get_device, nq_params = [text_val (row_value r row ''id''), owner]\<rparr> db) =
      NeonResult (r\<lparr>nr_rows := [row]\<rparr>)"
    by (simp add: honours_queries_def)
  with r(3) show ?case by (simp add: neon_view_def neon_get_Inr) (simp add: device_from_map_def)
qed

section \<open>Properties\<close>

text \<open>A row of the table of pairings, as the status query returns it.\<close>

definition status_row :: "(time \<Rightarrow> string) \<Rightarrow> pairing \<Rightarrow> string \<Rightarrow> sqlval" where
  "status_row format p name =
     (let column = (\<lambda>t. case t of None \<Rightarrow> SNull | Some x \<Rightarrow> SText (format x))
      in if name = ''approved_at'' then column (approved_at p)
         else if name = ''consumed_at'' then column (consumed_at p)
         else if name = ''expires_at'' then SText (format (expires_at p))
         else SNull)"


definition demo_format :: "time \<Rightarrow> string" where
  "demo_format t = CHR ''T'' # (if t < 0 then CHR ''-'' # replicate (nat (- t)) CHR ''i'' else replicate (nat t) CHR ''i'')"

definition demo_parse :: "string \<Rightarrow> time option" where
  "demo_parse s = (case s of c # d # ds \<Rightarrow> if d = CHR ''-'' then Some (- int (length ds)) else Some (int (length (d # ds))) | _ \<Rightarrow> Some 0)"

definition demo_used :: pairing where
  "demo_used = \<lparr>device_code_hash = ''c'', user_code_hash = ''u'', device_name = ''n'', expires_at = 9, pair_owner = ''alice'',
     approved_at = Some 2, consumed_at = Some 3\<rparr>"

definition demo_status :: neon_result where
  "demo_status = \<lparr>nr_fields = [''approved_at'', ''consumed_at'', ''expires_at''],
     nr_rows = [[SText (demo_format 2), SText (demo_format 3), SText (demo_format 9)]]\<rparr>"

definition demo_serve :: "unit service" where
  "demo_serve q db = (NeonResult (if nq_query q = sql_pairing_status then demo_status else \<lparr>nr_fields = [], nr_rows = []\<rparr>), db)"


text \<open>
  A time that the reader does not understand counts as absent: a pairing that has been used, with
  times in a format other than the reader's, is reported as pending.
\<close>

lemma unread_times_pending:
  assumes "\<And>s. parse s = None"
  shows "pairing_state parse clock row = PairingPending"
  using assms by (simp add: pairing_state_def time_ptr_def Let_def)

end
