(* ===== verification/ServerMain.thy ===== *)
theory ServerMain
  imports Neon
begin

text \<open>
  The server program (\<^verbatim>\<open>cmd/orc-server/main.go\<close>) and the token program (\<^verbatim>\<open>cmd/orc-token/main.go\<close>): how the parts
  are put together. A program that stops with a message is an error value. The table of routes is in
  theory \<open>Routes\<close>. Listening, signals and the shutdown are not modelled.
\<close>

section \<open>Definitions\<close>

datatype chosen_verifier = UseHMAC hmac_verifier | UseIntrospection introspection_verifier

datatype chosen_store = UseMemory memory | UseNeon neon_http

datatype startup_error = BadConfig goerror | BadStore storeerr | BadAuth autherr

record running_server =
  rn_config :: server_config
  rn_store :: chosen_store
  rn_verifier :: chosen_verifier
  rn_trust :: "loopback_trust option"
  rn_hub :: hub
  rn_audit :: audit_writer
  rn_metadata_url :: string

definition build_store :: "(string \<Rightarrow> (url \<times> bool) option) \<Rightarrow> server_config \<Rightarrow> storeerr + chosen_store" where
  "build_store parse c =
     (if trim_space (database_url c) = [] then Inr (UseMemory new_memory)
      else bindE (new_neon_http parse (database_url c) (neon_endpoint c)) (\<lambda>n. Inr (UseNeon n)))"

definition build_verifier :: "system \<Rightarrow> server_config \<Rightarrow> autherr + chosen_verifier" where
  "build_verifier sy c =
     (if auth_mode c = ''dev'' then
        bindE (new_hmac_verifier (bytes_of_string (hmac_secret c)) (auth_audience c)) (\<lambda>v. Inr (UseHMAC v))
      else if auth_mode c = ''introspection'' then
        (case parse_url sy (introspection_url c) of
           None \<Rightarrow> Inl (AuthMsg ''parse'')
         | Some u \<Rightarrow> Inr (UseIntrospection \<lparr>endpoint_https = (scheme u = ''https''), iv_audience = auth_audience c, cache_ttl = 0, iv_cache = []\<rparr>))
      else Inl (AuthMsg ''unsupported auth mode''))"

definition build_trust :: "bytes option \<Rightarrow> time \<Rightarrow> server_config \<Rightarrow> autherr + loopback_trust option" where
  "build_trust raw century c =
     (if trust_loopback c then bindE (new_loopback_trust True (trusted_subject c) raw century) (\<lambda>t. Inr (Some t)) else Inr None)"

definition lift_error :: "('e \<Rightarrow> 'f) \<Rightarrow> 'e + 'a \<Rightarrow> 'f + 'a" where
  "lift_error f r = (case r of Inl e \<Rightarrow> Inl (f e) | Inr x \<Rightarrow> Inr x)"

definition server_main ::
  "system \<Rightarrow> (string \<Rightarrow> (url \<times> bool) option) \<Rightarrow> bytes option \<Rightarrow> time \<Rightarrow> startup_error + running_server" where
  "server_main sy parse raw century =
     bindE (lift_error BadConfig (load_server sy)) (\<lambda>c.
     bindE (lift_error BadStore (build_store parse c)) (\<lambda>st.
     bindE (lift_error BadAuth (build_verifier sy c)) (\<lambda>v.
     bindE (lift_error BadAuth (build_trust raw century c)) (\<lambda>t.
       Inr \<lparr>rn_config = c, rn_store = st, rn_verifier = v, rn_trust = t, rn_hub = new_hub (in_flight c),
            rn_audit = new_audit_writer 2048,
            rn_metadata_url = public_base_url c @ ''/.well-known/oauth-protected-resource/mcp''\<rparr>))))"

definition metadata_routes :: "server_config \<Rightarrow> string list" where
  "metadata_routes c =
     (if trust_loopback c then []
      else [''/.well-known/oauth-protected-resource'', ''/.well-known/oauth-protected-resource/mcp''])"

definition protected_resource_metadata :: "server_config \<Rightarrow> json" where
  "protected_resource_metadata c =
     (let issuer = (if auth_issuer c = [] then public_base_url c else auth_issuer c)
      in JObj [(''resource'', JStr (public_base_url c @ ''/mcp'')), (''authorization_servers'', JArr [JStr issuer]),
               (''scopes_supported'', JArr [JStr ''orc:tools'']), (''bearer_methods_supported'', JArr [JStr ''header''])])"

definition origin_guard :: "string list \<Rightarrow> http_request \<Rightarrow> mcp_reply + 'a \<Rightarrow> mcp_reply + 'a" where
  "origin_guard allowlist r next =
     (let origin = request_origin (req_header r ''Origin'')
      in if origin \<noteq> [] \<and> origin \<notin> set (map trim_right_slash allowlist) then Inl (http_error 403 ''origin not allowed'') else next)"

definition security_headers :: "(string \<times> string) list \<Rightarrow> (string \<times> string) list" where
  "security_headers hs =
     filter (\<lambda>(k, v). map_of hs k = None)
       [(''X-Content-Type-Options'', ''nosniff''), (''Referrer-Policy'', ''no-referrer''),
        (''Permissions-Policy'', ''camera=(), microphone=(), geolocation=()'')] @ hs"

definition wrap_request :: "(string \<Rightarrow> bool) \<Rightarrow> loopback_trust option \<Rightarrow> string \<Rightarrow> http_request \<Rightarrow> http_request" where
  "wrap_request ip trust remoteAddr r =
     (case trust of
        None \<Rightarrow> r
      | Some t \<Rightarrow> r\<lparr>req_header := (req_header r)(''Authorization'' :=
                     trust_middleware ip t remoteAddr (req_header r ''Authorization''))\<rparr>)"

text \<open>The route \<^verbatim>\<open>/mcp\<close>.\<close>

definition mcp_endpoint ::
  "codec \<Rightarrow> running_server \<Rightarrow> (string \<Rightarrow> bool) \<Rightarrow> (string \<Rightarrow> autherr + identity) \<Rightarrow> store_view \<Rightarrow> hub \<Rightarrow> string \<Rightarrow> http_request \<Rightarrow>
   bytes option \<Rightarrow> mcp_reply + tool_call" where
  "mcp_endpoint cd sv ip verify st h remoteAddr r content =
     origin_guard (origins (rn_config sv)) r
       (serve_http cd (case rn_trust sv of None \<Rightarrow> verify | Some t \<Rightarrow> trust_verify t verify) (rn_metadata_url sv) st h
          (wrap_request ip (rn_trust sv) remoteAddr r) content)"

text \<open>The token program, with its flags as arguments.\<close>

definition token_main ::
  "system \<Rightarrow> (bytes \<Rightarrow> bytes \<Rightarrow> bytes) \<Rightarrow> (claims \<Rightarrow> bytes option) \<Rightarrow> time \<Rightarrow> string \<Rightarrow> string \<Rightarrow> duration \<Rightarrow> string option \<Rightarrow> autherr + string" where
  "token_main sy mac marshal clock sub scope ttl audienceFlag =
     (let aud = (case audienceFlag of None \<Rightarrow> env_var sy ''ORC_AUTH_AUDIENCE'' ''http://127.0.0.1:8080/mcp'' | Some a \<Rightarrow> a)
      in bindE (new_hmac_verifier (bytes_of_string (getenv sy ''ORC_HMAC_SECRET'')) aud) (\<lambda>v.
           mint mac marshal v clock sub (string_fields (map (\<lambda>c. if c = CHR '','' then CHR '' '' else c) scope)) ttl))"

section \<open>Lemmas\<close>

lemma lift_error_Inr [err_simps]: "lift_error f r = Inr x \<longleftrightarrow> r = Inr x"
  by (auto simp: lift_error_def split: sum.splits)

lemma load_server_Inr:
  assumes "load_server sy = Inr c"
  shows "c = server_settings sy" "secure_url sy (public_base_url c)" "1 \<le> in_flight c" "in_flight c \<le> 128"
    "32 \<le> length (sc_pairing_secret c)" "check_trust sy c = Inr ()" "check_auth_mode sy c = Inr ()"
  using assms by (auto simp: load_server_def Let_def err_simps check_base_url_iff)

lemma audience_trimmed: "trim_space (auth_audience (server_settings sy)) \<noteq> []"
proof -
  have "trim_space ''http://127.0.0.1:8080/mcp'' = ''http://127.0.0.1:8080/mcp''" by code_simp
  then show ?thesis
    by (simp add: server_settings_def env_var_trimmed env_var_nonempty)
qed

lemma verifier_builds:
  assumes "load_server sy = Inr c"
  shows "\<exists>v. build_verifier sy c = Inr v \<and>
    (case v of UseHMAC hv \<Rightarrow> 32 \<le> length (secret hv) | UseIntrospection iv \<Rightarrow> endpoint_https iv)"
proof -
  note L = load_server_Inr [OF assms]
  have aud: "trim_space (auth_audience c) \<noteq> []" using audience_trimmed L(1) by simp
  from L(7) consider (dev) "auth_mode c = ''dev''" "32 \<le> length (hmac_secret c)"
    | (introspection) u where "auth_mode c = ''introspection''" "parse_url sy (introspection_url c) = Some u" "scheme u = ''https''"
    by (auto simp: check_auth_mode_def err_simps split: if_splits option.splits)
  then show ?thesis
    by cases (use aud in \<open>simp_all add: build_verifier_def new_hmac_verifier_def bindE_def bytes_of_string_def\<close>)
qed

lemma trust_builds:
  assumes "load_server sy = Inr c" and "trust_loopback c"
  shows "build_trust (Some raw) century c = Inr (Some \<lparr>lt_token = b64url_encode raw,
      lt_identity = \<lparr>subject = trusted_subject c, scopes = {''orc:tools''}, expiry = century\<rparr>\<rparr>)"
    and "\<exists>host. split_host_port (listen_addr c) = Some host \<and> is_loopback_name sy host"
proof -
  note L = load_server_Inr [OF assms(1)]
  have t: "trusted_subject c \<noteq> []" "\<exists>host. split_host_port (listen_addr c) = Some host \<and> is_loopback_name sy host"
    using L(6) assms(2) by (auto simp: check_trust_def err_simps split: if_splits option.splits)
  show "\<exists>host. split_host_port (listen_addr c) = Some host \<and> is_loopback_name sy host" by (rule t(2))
  have "trim_space (trusted_subject c) = trusted_subject c" by (simp add: L(1) server_settings_def)
  with t(1) assms(2) show "build_trust (Some raw) century c = Inr (Some \<lparr>lt_token = b64url_encode raw,
      lt_identity = \<lparr>subject = trusted_subject c, scopes = {''orc:tools''}, expiry = century\<rparr>\<rparr>)"
    by (simp add: build_trust_def new_loopback_trust_def bindE_def)
qed

lemma origin_guard_Inr:
  "origin_guard allowlist r next = Inr c \<longleftrightarrow>
     next = Inr c \<and> (request_origin (req_header r ''Origin'') = [] \<or> request_origin (req_header r ''Origin'') \<in> set (map trim_right_slash allowlist))"
  by (auto simp: origin_guard_def Let_def)

section \<open>Properties\<close>


definition demo_system :: system where
  "demo_system = \<lparr>getenv = (\<lambda>k. if k = ''ORC_PAIRING_SECRET'' \<or> k = ''ORC_HMAC_SECRET'' then replicate 32 CHR ''s''
      else if k = ''ORC_MCP_TRUST_LOOPBACK'' then '' Yes'' else if k = ''ORC_MCP_TRUSTED_SUBJECT'' then ''alice '' else []),
     home_dir = Some ''/r'', os_hostname = None, on_windows = False,
     parse_url = (\<lambda>u. Some \<lparr>scheme = takeWhile (\<lambda>c. c \<noteq> CHR '':'') u, url_host = ''127.0.0.1:8080'', url_hostname = ''127.0.0.1'',
        escaped_path = [], raw_query = []\<rparr>),
     parse_duration = (\<lambda>_. None), ip_is_loopback = (\<lambda>h. h = ''127.0.0.1''), lower_table = (\<lambda>s. s)\<rparr>"


text \<open>
  C2. The endpoint of the running server relays a call only for someone it knows. The request has no
  browser origin or one of the configured ones, and the call is made in the name either of an
  identity that the configured verifier gives for the request's bearer token, or of the trusted
  subject: then loopback trust is enabled, and the request comes from a loopback address without
  credentials or carries the server's own random token.
\<close>

theorem mcp_endpoint_guarded:
  assumes "server_main sy parse (Some raw) century = Inr sv" and "raw \<noteq> []"
    and "mcp_endpoint cd sv ip verify st h remoteAddr r content = Inr c"
  shows "(request_origin (req_header r ''Origin'') = [] \<or>
      request_origin (req_header r ''Origin'') \<in> set (map trim_right_slash (origins (rn_config sv)))) \<and>
    ((\<exists>token i. bearer_token (req_header r ''Authorization'') = Some token \<and> verify token = Inr i \<and> tc_owner c = subject i \<and>
        ''orc:tools'' \<in> scopes i) \<or>
     trust_loopback (rn_config sv) \<and> tc_owner c = trusted_subject (rn_config sv) \<and>
       (trim_space (req_header r ''Authorization'') = [] \<and> remote_is_loopback ip remoteAddr \<or>
        bearer_token (req_header r ''Authorization'') = Some (b64url_encode raw)))"
proof -
  let ?r = "wrap_request ip (rn_trust sv) remoteAddr r"
  let ?verify = "case rn_trust sv of None \<Rightarrow> verify | Some t \<Rightarrow> trust_verify t verify"
  have guard: "serve_http cd ?verify (rn_metadata_url sv) st h ?r content = Inr c"
    "request_origin (req_header r ''Origin'') = [] \<or> request_origin (req_header r ''Origin'') \<in> set (map trim_right_slash (origins (rn_config sv)))"
    using assms(3) by (simp_all add: mcp_endpoint_def origin_guard_Inr)
  obtain token i req modern where rq: "bearer_token (req_header ?r ''Authorization'') = Some token"
    "require ?verify token tool_scope = Inr i" "call_tool cd st h req i modern = Inr c"
    by (rule serve_http_relays [OF guard(1)])
  have own: "tc_owner c = subject i"
    using rq(3) by (auto simp: call_tool_def Let_def split: option.splits prod.splits if_splits sum.splits)
  have id: "?verify token = Inr i" "''orc:tools'' \<in> scopes i" using rq(2) by (auto simp: require_Inr tool_scope_def)
  show ?thesis
  proof (cases "rn_trust sv")
    case None
    with rq(1) id own guard(2) show ?thesis by (simp add: wrap_request_def)
  next
    case (Some t)
    have trust: "trust_loopback (rn_config sv)" "lt_token t = b64url_encode raw" "subject (lt_identity t) = trusted_subject (rn_config sv)"
      using assms(1) Some by (auto simp: server_main_def err_simps build_trust_def new_loopback_trust_def split: if_splits)
    have bearer: "bearer_token (trust_middleware ip t remoteAddr (req_header r ''Authorization'')) = Some token"
      using rq(1) Some by (simp add: wrap_request_def)
    show ?thesis
    proof (cases "token = lt_token t")
      case True
      with id(1) Some own trust have "tc_owner c = trusted_subject (rn_config sv)" by (auto simp: trust_verify_def)
      with True bearer trust guard(2) show ?thesis by (auto simp: trust_middleware_def split: if_splits)
    next
      case False
      then have "bearer_token (req_header r ''Authorization'') = Some token"
        using bearer bearer_b64url [OF assms(2)] trust(2) by (auto simp: trust_middleware_def split: if_splits)
      moreover have "verify token = Inr i" using id(1) Some False by (simp add: trust_verify_def)
      ultimately show ?thesis using own id(2) guard(2) by blast
    qed
  qed
qed

definition demo_local :: http_request where
  "demo_local = \<lparr>req_method = ''POST'', req_header = (\<lambda>k. if k = ''Content-Type'' then ''application/json'' else [])\<rparr>"

theorem mcp_endpoint_guarded_witness:
  "case server_main demo_system (\<lambda>_. None) (Some [7]) 0 of
     Inl e \<Rightarrow> False
   | Inr sv \<Rightarrow>
     (case mcp_endpoint demo_codec sv (\<lambda>h. h = ''127.0.0.1'') (\<lambda>_. Inl InvalidToken) (memory_view demo_alice_store) (new_hub 2)
             ''127.0.0.1:9'' demo_local (Some (bytes_of_string ''d'')) of
        Inl e \<Rightarrow> False
      | Inr c \<Rightarrow> tc_owner c = ''alice'' \<and> trust_loopback (rn_config sv) \<and> remote_is_loopback (\<lambda>h. h = ''127.0.0.1'') ''127.0.0.1:9'')"
proof -
  let ?ip = "\<lambda>h. h = ''127.0.0.1''" and ?v = "\<lambda>_. Inl InvalidToken"
  let ?run = "\<lambda>sv. mcp_endpoint demo_codec sv ?ip ?v (memory_view demo_alice_store) (new_hub 2) ''127.0.0.1:9'' demo_local (Some (bytes_of_string ''d''))"
  have ev: "case server_main demo_system (\<lambda>_. None) (Some [7]) 0 of Inl e \<Rightarrow> False
    | Inr sv \<Rightarrow> (case ?run sv of Inl e \<Rightarrow> False | Inr c \<Rightarrow> tc_owner c = ''alice'')"
    by code_simp
  then obtain sv c where sv: "server_main demo_system (\<lambda>_. None) (Some [7]) 0 = Inr sv" "?run sv = Inr c" "tc_owner c = ''alice''"
    by (auto split: sum.splits)
  have "bearer_token (req_header demo_local ''Authorization'') = None" by code_simp
  with mcp_endpoint_guarded [OF sv(1) _ sv(2)] sv show ?thesis by simp
qed

end
