(* ===== verification/Routes.thy ===== *)
theory Routes
  imports HttpMessages ServerMain
begin

text \<open>
  The HTTP server as a whole: the table of routes (\<^verbatim>\<open>Register\<close> of \<^verbatim>\<open>internal/controlplane/http.go\<close>, \<^verbatim>\<open>main\<close> and
  \<^verbatim>\<open>registerMetadataRoutes\<close> of \<^verbatim>\<open>cmd/orc-server/main.go\<close>), the choice of a route by the rules of \<^verbatim>\<open>http.ServeMux\<close>, and the answer to a request
  with its effect on the store and the hub. The server keeps its devices in the memory store; the
  properties say whose requests can change what belongs to a user.
\<close>

section \<open>Definitions\<close>

subsection \<open>Routes\<close>

record wire_request =
  wq_method :: string
  wq_path :: string
  wq_query :: string
  wq_header :: "string \<Rightarrow> string"
  wq_remote :: string
  wq_body :: string

text \<open>A pattern is a method (empty for any) and segments: a text, one segment, or all that remain.\<close>

datatype segment = Lit string | Wild | Rest

datatype route = RHealthz | RReadyz | RMetadata | RMcp | RStartPairing | RApprove | RToken | RDevices | RRevoke | ROptions
  | RConnect | RPairPage | RPairForm

type_synonym route_table = "(string \<times> segment list \<times> route) list"

definition control_routes :: route_table where
  "control_routes =
     [(''POST'', [Lit ''api'', Lit ''v1'', Lit ''pairings''], RStartPairing),
      (''POST'', [Lit ''api'', Lit ''v1'', Lit ''pairings'', Lit ''approve''], RApprove),
      (''POST'', [Lit ''api'', Lit ''v1'', Lit ''pairings'', Lit ''token''], RToken),
      (''GET'', [Lit ''api'', Lit ''v1'', Lit ''devices''], RDevices),
      (''DELETE'', [Lit ''api'', Lit ''v1'', Lit ''devices'', Wild], RRevoke),
      (''OPTIONS'', [Lit ''api'', Lit ''v1'', Rest], ROptions),
      (''GET'', [Lit ''agent'', Lit ''v1'', Lit ''connect''], RConnect),
      (''GET'', [Lit ''pair''], RPairPage),
      (''POST'', [Lit ''pair'', Lit ''approve''], RPairForm)]"

definition server_routes :: "server_config \<Rightarrow> route_table" where
  "server_routes c =
     [(''GET'', [Lit ''healthz''], RHealthz), (''GET'', [Lit ''readyz''], RReadyz)] @
     map (\<lambda>p. (''GET'', map Lit (split_on CHR ''/'' (drop 1 p)), RMetadata)) (metadata_routes c) @
     [([], [Lit ''mcp''], RMcp)] @ control_routes"

text \<open>
  The segments of a cleaned path, each unescaped; a slash at the end is a segment of its own. The
  value is what the wildcards match; the rest of a path is not recorded.
\<close>

definition clean_path :: "string \<Rightarrow> string" where
  "clean_path p0 =
     (if p0 = [] then ''/''
      else (let p = (if hd p0 = CHR ''/'' then p0 else CHR ''/'' # p0); np = clean p
            in if last p = CHR ''/'' \<and> np \<noteq> ''/'' then np @ ''/'' else np))"

definition segment_text :: "string \<Rightarrow> string" where
  "segment_text s = (case url_unescape False s of None \<Rightarrow> s | Some x \<Rightarrow> x)"

definition path_segments :: "string \<Rightarrow> string list" where
  "path_segments p =
     (let parts = split_on CHR ''/'' (drop 1 p)
      in map segment_text (if last parts = [] then butlast parts @ [''/''] else parts))"

fun match_segments :: "segment list \<Rightarrow> string list \<Rightarrow> string list option" where
  "match_segments [] [] = Some []"
| "match_segments (Lit s # ps) (x # xs) = (if x = s then match_segments ps xs else None)"
| "match_segments (Wild # ps) (x # xs) = (if x = ''/'' then None else map_option (Cons x) (match_segments ps xs))"
| "match_segments (Rest # ps) (x # xs) = Some []"
| "match_segments _ _ = None"

definition matches :: "route_table \<Rightarrow> string \<Rightarrow> string \<Rightarrow> (segment list \<times> route \<times> string list) list" where
  "matches tbl meth p =
     List.map_filter (\<lambda>(m, segs, rt). if m = meth then map_option (\<lambda>vs. (segs, rt, vs)) (match_segments segs (path_segments p)) else None) tbl"

text \<open>The route of a method, then for \<^verbatim>\<open>HEAD\<close> that of \<^verbatim>\<open>GET\<close>, then one for any method.\<close>

definition find_route :: "route_table \<Rightarrow> string \<Rightarrow> string \<Rightarrow> (segment list \<times> route \<times> string list) option" where
  "find_route tbl meth p =
     (case matches tbl meth p @ (if meth = ''HEAD'' then matches tbl ''GET'' p else []) @ matches tbl [] p of
        [] \<Rightarrow> None
      | x # _ \<Rightarrow> Some x)"

definition exact_match :: "(segment list \<times> route \<times> string list) option \<Rightarrow> string \<Rightarrow> bool" where
  "exact_match hit p =
     (case hit of
        None \<Rightarrow> False
      | Some (segs, _) \<Rightarrow> last segs = Rest \<longrightarrow> last p = CHR ''/'' \<and> length segs = length (filter (\<lambda>c. c = CHR ''/'') p))"

definition allowed_methods :: "route_table \<Rightarrow> string \<Rightarrow> string list" where
  "allowed_methods tbl p =
     (let hits = \<lambda>m. m \<noteq> [] \<and> (matches tbl m p \<noteq> [] \<or> last p \<noteq> CHR ''/'' \<and> matches tbl m (p @ ''/'') \<noteq> []);
          ms = filter hits (remdups (map fst tbl))
      in sort (if ''GET'' \<in> set ms then ''HEAD'' # ms else ms))"

text \<open>The target of a redirection is not modelled.\<close>

datatype dispatched = Serve route "string list" | Redirect | NotAllowed "string list" | NoRoute

definition dispatch :: "route_table \<Rightarrow> string \<Rightarrow> string \<Rightarrow> dispatched" where
  "dispatch tbl meth path =
     (let p = (if meth = ''CONNECT'' then path else clean_path path); hit = find_route tbl meth p
      in if \<not> exact_match hit p \<and> last p \<noteq> CHR ''/'' \<and> exact_match (find_route tbl meth (p @ ''/'')) (p @ ''/'') then Redirect
         else if p \<noteq> path then Redirect
         else (case hit of
                 Some (_, rt, vs) \<Rightarrow> Serve rt vs
               | None \<Rightarrow> (case allowed_methods tbl p of [] \<Rightarrow> NoRoute | ms \<Rightarrow> NotAllowed ms)))"

subsection \<open>Answers\<close>

text \<open>What a request meets: hashes, the verifier, the clock, random bytes, the connection, codecs.\<close>

record server_world =
  sw_sha256 :: "bytes \<Rightarrow> bytes"
  sw_sha1 :: "bytes \<Rightarrow> bytes"
  sw_mac :: "bytes \<Rightarrow> bytes \<Rightarrow> bytes"
  sw_uni :: "string \<Rightarrow> string"
  sw_verify :: "string \<Rightarrow> autherr + identity"
  sw_clk :: "nat \<Rightarrow> time"
  sw_secret :: "bytes option"
  sw_code :: "bytes option"
  sw_id :: "bytes option"
  sw_hijack :: hijack
  sw_media :: "string \<Rightarrow> string option"
  sw_codec :: codec
  sw_ip :: "string \<Rightarrow> bool"

text \<open>\<open>Dropped\<close> is a connection that was taken over and closed without an answer.\<close>

datatype answer = Answer wire_reply | McpAnswer mcp_reply | RelayCall tool_call | Dropped

definition api_request :: "wire_request \<Rightarrow> http_request" where
  "api_request r = \<lparr>req_method = wq_method r, req_header = wq_header r\<rparr>"

definition add_headers :: "header_list \<Rightarrow> wire_reply \<Rightarrow> wire_reply" where
  "add_headers hs w = w\<lparr>wp_headers := hs @ wp_headers w\<rparr>"

definition origin_headers :: "string option \<Rightarrow> header_list" where
  "origin_headers permit =
     (case permit of None \<Rightarrow> [] | Some o' \<Rightarrow> [(''Access-Control-Allow-Origin'', o'), (''Vary'', ''Origin'')])"

definition with_cors :: "wire_request \<Rightarrow> (control \<Rightarrow> reply \<times> control) \<Rightarrow> control \<Rightarrow> answer \<times> control" where
  "with_cors r next s =
     (case cors (wq_header r ''Origin'') next s of
        ((rep, permit), s') \<Rightarrow> (Answer (add_headers (origin_headers permit) (render rep)), s'))"

definition preflight :: "wire_request \<Rightarrow> control \<Rightarrow> answer" where
  "preflight r s =
     (case options_handler (wq_header r ''Origin'') s of
        (rep, permit) \<Rightarrow>
          Answer (add_headers (case permit of
              None \<Rightarrow> []
            | Some o' \<Rightarrow> [(''Access-Control-Allow-Origin'', o'), (''Access-Control-Allow-Headers'', ''Authorization, Content-Type''),
                (''Access-Control-Allow-Methods'', ''GET, POST, DELETE, OPTIONS''), (''Access-Control-Max-Age'', ''600''),
                (''Vary'', ''Origin'')]) (render rep)))"

text \<open>When the upgrade fails the handler writes nothing: the server then answers 200, unless the connection had been taken over.\<close>

definition connect_answer :: "server_world \<Rightarrow> wire_request \<Rightarrow> control \<Rightarrow> answer \<times> control" where
  "connect_answer w r s =
     (case agent_connect (sw_sha256 w) (sw_sha1 w) (sw_clk w) (sw_hijack w) (query_get (wq_query r) ''device_id'') (api_request r) s of
        (rep, s') \<Rightarrow>
          (if status rep \<noteq> 0 then Answer (render rep)
           else if sw_hijack w = WriteFails \<and> upgrade (sw_sha1 w) WriteFails (api_request r) max_frame_bytes = Inl HsNet then Dropped
           else Answer \<lparr>wp_status = 200, wp_headers = [], wp_text = []\<rparr>, s'))"

definition form_codes :: "server_world \<Rightarrow> wire_request \<Rightarrow> (string \<times> string) option" where
  "form_codes w r =
     map_option (\<lambda>vs. (values_get vs ''user_code'', values_get vs ''access_token''))
       (parse_form (sw_media w) (wq_header r ''Content-Type'') (wq_body r) (wq_query r))"

definition for_user :: "server_world \<Rightarrow> wire_request \<Rightarrow> (identity \<Rightarrow> control \<Rightarrow> reply \<times> control) \<Rightarrow> control \<Rightarrow> reply \<times> control" where
  "for_user w r next = require_user (sw_verify w) (wq_header r ''Authorization'') ''orc:tools'' next"

definition status_text :: "string \<Rightarrow> wire_reply" where
  "status_text word =
     \<lparr>wp_status = 200, wp_headers = [(''Content-Type'', ''application/json'')], wp_text = double_quotes (''{`status`:`'' @ word @ ''`}'')\<rparr>"

definition handle :: "running_server \<Rightarrow> server_world \<Rightarrow> wire_request \<Rightarrow> route \<Rightarrow> string list \<Rightarrow> control \<Rightarrow> answer \<times> control" where
  "handle sv w r rt vs s =
     (case rt of
        RHealthz \<Rightarrow> (Answer (status_text ''ok''), s)
      | RReadyz \<Rightarrow> (Answer (status_text ''ready''), s)
      | RMetadata \<Rightarrow>
          (McpAnswer \<lparr>mr_status = 200, mr_headers = [(''Content-Type'', ''application/json'')],
                      mr_body = MJson (protected_resource_metadata (rn_config sv))\<rparr>, s)
      | RMcp \<Rightarrow>
          (case mcp_endpoint (sw_codec w) sv (sw_ip w) (sw_verify w) (memory_view (cp_store s)) (cp_hub s) (wq_remote r) (api_request r)
                  (Some (bytes_of_string (wq_body r))) of
             Inl rep \<Rightarrow> (McpAnswer rep, s)
           | Inr c \<Rightarrow> (RelayCall c, s))
      | RStartPairing \<Rightarrow>
          with_cors r (start_pairing (sw_sha256 w) (sw_mac w) (sw_uni w) (sw_clk w) (wq_remote r)
            (decode_json ''device_name'' (wq_body r)) (sw_secret w) (sw_code w)) s
      | RApprove \<Rightarrow>
          with_cors r (for_user w r (approve_handler (sw_mac w) (sw_uni w) (sw_clk w) (wq_remote r) (decode_json ''user_code'' (wq_body r)))) s
      | RToken \<Rightarrow>
          with_cors r (consume_handler (sw_sha256 w) (sw_clk w) (wq_remote r) (decode_json ''device_code'' (wq_body r)) (sw_id w) (sw_secret w)) s
      | RDevices \<Rightarrow> with_cors r (for_user w r list_handler) s
      | RRevoke \<Rightarrow> with_cors r (for_user w r (revoke_handler (sw_clk w) (hd vs))) s
      | ROptions \<Rightarrow> (preflight r s, s)
      | RConnect \<Rightarrow> connect_answer w r s
      | RPairPage \<Rightarrow> (Answer (pair_page (wq_query r)), s)
      | RPairForm \<Rightarrow>
          (case pair_approve_form (sw_mac w) (sw_uni w) (sw_verify w) (sw_clk w) (wq_remote r) (form_codes w r) s of
             (rep, s') \<Rightarrow> (Answer (render rep), s')))"

text \<open>The headers that every answer gets; an answer to \<^verbatim>\<open>HEAD\<close> has no body.\<close>

definition finish :: "wire_request \<Rightarrow> answer \<Rightarrow> answer" where
  "finish r a =
     (case a of
        Answer w \<Rightarrow> Answer (w\<lparr>wp_headers := security_headers (wp_headers w), wp_text := (if wq_method r = ''HEAD'' then [] else wp_text w)\<rparr>)
      | McpAnswer m \<Rightarrow> McpAnswer (m\<lparr>mr_headers := security_headers (mr_headers m), mr_body := (if wq_method r = ''HEAD'' then MEmpty else mr_body m)\<rparr>)
      | _ \<Rightarrow> a)"

definition serve :: "running_server \<Rightarrow> server_world \<Rightarrow> wire_request \<Rightarrow> control \<Rightarrow> answer \<times> control" where
  "serve sv w r s =
     (case (case dispatch (server_routes (rn_config sv)) (wq_method r) (wq_path r) of
              Serve rt vs \<Rightarrow> handle sv w r rt vs s
            | Redirect \<Rightarrow> (Answer \<lparr>wp_status = 301, wp_headers = [], wp_text = []\<rparr>, s)
            | NotAllowed ms \<Rightarrow> (Answer (add_headers [(''Allow'', join '', '' ms)] (write_plain 405 ''Method Not Allowed'')), s)
            | NoRoute \<Rightarrow> (Answer (write_plain 404 ''404 page not found''), s)) of
        (a, s') \<Rightarrow> (finish r a, s'))"

subsection \<open>What a request may do\<close>

text \<open>
  The specification of the server, seen from its store and its hub. A request changes nothing, or it
  has one of five effects, each with the authority that it takes. \<open>presents\<close> says which tokens a request carries.
\<close>

definition presents :: "server_world \<Rightarrow> wire_request \<Rightarrow> string \<Rightarrow> bool" where
  "presents w r tok \<longleftrightarrow> bearer_token (wq_header r ''Authorization'') = Some tok \<or> map_option snd (form_codes w r) = Some tok"

inductive effect :: "server_world \<Rightarrow> wire_request \<Rightarrow> control \<Rightarrow> control \<Rightarrow> bool" for w r s s' where
  no_effect: "cp_store s' = cp_store s \<Longrightarrow> cp_hub s' = cp_hub s \<Longrightarrow> effect w r s s'"
| pairing_created: "wq_method r = ''POST'' \<Longrightarrow> create_pairing p (cp_store s) = (Inr (), cp_store s') \<Longrightarrow> pair_owner p = [] \<Longrightarrow>
    cp_hub s' = cp_hub s \<Longrightarrow> effect w r s s'"
| pairing_approved: "wq_method r = ''POST'' \<Longrightarrow> presents w r tok \<Longrightarrow> require (sw_verify w) tok ''orc:tools'' = Inr i \<Longrightarrow>
    approve_pairing t h (subject i) (cp_store s) = (Inr (), cp_store s') \<Longrightarrow> cp_hub s' = cp_hub s \<Longrightarrow> effect w r s s'"
| device_issued: "wq_method r = ''POST'' \<Longrightarrow> decode_json ''device_code'' (wq_body r) = Some code \<Longrightarrow>
    consume_pairing (sw_sha256 w) t (hash_secret (sw_sha256 w) code) (new_device did) tok (cp_store s) = (Inr d, cp_store s') \<Longrightarrow>
    cp_hub s' = cp_hub s \<Longrightarrow> effect w r s s'"
| device_revoked: "wq_method r = ''DELETE'' \<Longrightarrow> bearer_token (wq_header r ''Authorization'') = Some tok \<Longrightarrow>
    require (sw_verify w) tok ''orc:tools'' = Inr i \<Longrightarrow> revoke_device t (subject i) did (cp_store s) = (Inr (), cp_store s') \<Longrightarrow>
    cp_hub s' = disconnect did (cp_hub s) \<Longrightarrow> effect w r s s'"
| device_connected: "wq_method r = ''GET'' \<Longrightarrow> bearer_token (wq_header r ''Authorization'') = Some tok \<Longrightarrow>
    trim_space (wq_header r ''Origin'') = [] \<Longrightarrow>
    authenticate_device (sw_sha256 w) (cp_store s) (trim_space (query_get (wq_query r) ''device_id'')) tok = Inr d \<Longrightarrow>
    cp_store s' = snd (touch_device t (dev_id d) (cp_store s)) \<Longrightarrow> cp_hub s' = register d (cp_hub s) \<Longrightarrow> effect w r s s'"

text \<open>
  The running server: requests, the steps of the connections that are open, and the audit writer. A
  step of the hub that adds no connection is one of these; connections are added by requests.
\<close>

definition start_control :: "running_server \<Rightarrow> control" where
  "start_control sv =
     new_control new_memory (rn_hub sv) (public_base_url (rn_config sv)) (origins (rn_config sv))
       (bytes_of_string (sc_pairing_secret (rn_config sv)))"

inductive server_step :: "running_server \<Rightarrow> control \<Rightarrow> control \<Rightarrow> bool" for sv where
  request_step: "serve sv w r s = (a, s') \<Longrightarrow> server_step sv s s'"
| relay_step: "hub_step (cp_hub s) h' \<Longrightarrow> length (hub_conns h') = length (hub_conns (cp_hub s)) \<Longrightarrow> server_step sv s (s\<lparr>cp_hub := h'\<rparr>)"
| audit_step: "server_step sv s (s\<lparr>cp_store := write_audit e (cp_store s)\<rparr>)"

text \<open>Every connection is that of a device in the store, and has its owner.\<close>

definition linked :: "control \<Rightarrow> bool" where
  "linked s \<longleftrightarrow> (\<forall>did c. hub_devices (cp_hub s) did = Some c \<longrightarrow>
     (\<exists>md. map_of (devices (cp_store s)) did = Some md \<and> owner_subject (mdev md) = owner_subject (c_device (hub_conns (cp_hub s) ! c))))"

definition control_inv :: "control \<Rightarrow> bool" where
  "control_inv s \<longleftrightarrow> mem_inv (cp_store s) \<and> hub_inv (cp_hub s) \<and> linked s"

section \<open>Lemmas\<close>

declare map_of_eq_Some_iff [simp del] Some_eq_map_of_iff [simp del]

subsection \<open>Routes\<close>

lemma matches_table: "(segs, rt, vs) \<in> set (matches tbl m p) \<Longrightarrow> (m, segs, rt) \<in> set tbl"
  unfolding matches_def by (induction tbl) (auto simp: map_filter_simps split: if_splits option.splits)

lemma dispatch_table:
  assumes "dispatch tbl m path = Serve rt vs"
  obtains m' segs where "(m', segs, rt) \<in> set tbl" and "m' = m \<or> m = ''HEAD'' \<and> m' = ''GET'' \<or> m' = []"
proof -
  obtain p segs where "find_route tbl m p = Some (segs, rt, vs)"
    using assms by (auto simp: dispatch_def Let_def split: if_splits option.splits prod.splits list.splits)
  then obtain xs where "matches tbl m p @ (if m = ''HEAD'' then matches tbl ''GET'' p else []) @ matches tbl [] p = (segs, rt, vs) # xs"
    by (auto simp: find_route_def split: list.splits)
  then have "(segs, rt, vs) \<in> set (matches tbl m p @ (if m = ''HEAD'' then matches tbl ''GET'' p else []) @ matches tbl [] p)"
    by (metis list.set_intros(1))
  then consider "(segs, rt, vs) \<in> set (matches tbl m p)" | "m = ''HEAD''" "(segs, rt, vs) \<in> set (matches tbl ''GET'' p)"
    | "(segs, rt, vs) \<in> set (matches tbl [] p)"
    by (auto split: if_splits)
  then show ?thesis by cases (auto dest: matches_table intro: that)
qed

lemma table_methods:
  assumes "(m, segs, rt) \<in> set (server_routes c)"
  shows "rt \<in> {RStartPairing, RApprove, RToken, RPairForm} \<Longrightarrow> m = ''POST''" "rt = RRevoke \<Longrightarrow> m = ''DELETE''"
  using assms by (auto simp: server_routes_def control_routes_def)

lemma route_methods:
  assumes "dispatch (server_routes c) m path = Serve rt vs"
  shows "rt \<in> {RStartPairing, RApprove, RToken, RPairForm} \<Longrightarrow> m = ''POST''" "rt = RRevoke \<Longrightarrow> m = ''DELETE''"
proof -
  obtain m' segs where m': "(m', segs, rt) \<in> set (server_routes c)" "m' = m \<or> m = ''HEAD'' \<and> m' = ''GET'' \<or> m' = []"
    by (rule dispatch_table [OF assms])
  show "rt \<in> {RStartPairing, RApprove, RToken, RPairForm} \<Longrightarrow> m = ''POST''" using table_methods(1) [OF m'(1)] m'(2) by simp
  show "rt = RRevoke \<Longrightarrow> m = ''DELETE''" using table_methods(2) [OF m'(1)] m'(2) by simp
qed

subsection \<open>Effects\<close>

lemma with_cors_run:
  assumes "with_cors r next s = (a, s')"
  obtains "s' = s" | rep where "next s = (rep, s')"
  using assms by (auto simp: with_cors_def cors_def Let_def split: if_splits prod.splits)

lemma for_user_run:
  assumes "for_user w r next s = (rep, s')"
  obtains "s' = s" | tok i where "bearer_token (wq_header r ''Authorization'') = Some tok" "require (sw_verify w) tok ''orc:tools'' = Inr i"
    "next i s = (rep, s')"
  using assms by (auto simp: for_user_def require_user_def split: option.splits sum.splits)

lemma store_unchanged:
  "create_pairing p m = (Inl e, m') \<Longrightarrow> m' = m" "approve_pairing t h o' m = (Inl e, m') \<Longrightarrow> m' = m"
  "consume_pairing sha t h d tok m = (Inl e, m') \<Longrightarrow> m' = m" "revoke_device t o' did m = (Inl e, m') \<Longrightarrow> m' = m"
  by (auto simp: store_defs split: if_splits option.splits)

lemma start_pairing_effect:
  assumes "start_pairing sha mac uni clk remote name r32 r8 s = (rep, s')" and "wq_method r = ''POST''"
  shows "effect w r s s'"
proof -
  have "cp_hub s' = cp_hub s \<and> (cp_store s' = cp_store s \<or> (\<exists>p. pair_owner p = [] \<and> create_pairing p (cp_store s) = (Inr (), cp_store s')))"
    using assms(1) by (auto simp: start_pairing_def write_error_def Let_def dest: store_unchanged
        split: prod.splits bool.splits option.splits sum.splits if_splits)
  then show ?thesis using assms(2) by (blast intro: effect.intros)
qed

lemma approve_effect:
  assumes "approve_handler mac uni clk remote code i s = (rep, s')" and "wq_method r = ''POST''" and "presents w r tok"
    and "require (sw_verify w) tok ''orc:tools'' = Inr i"
  shows "effect w r s s'"
proof -
  have "cp_hub s' = cp_hub s \<and> (cp_store s' = cp_store s \<or> (\<exists>t h. approve_pairing t h (subject i) (cp_store s) = (Inr (), cp_store s')))"
    using assms(1) by (auto simp: approve_handler_def write_error_def Let_def dest: store_unchanged
        split: prod.splits bool.splits option.splits sum.splits if_splits)
  then show ?thesis using assms(2-4) by (blast intro: effect.intros)
qed

lemma form_effect:
  assumes "pair_approve_form mac uni (sw_verify w) clk remote (form_codes w r) s = (rep, s')" and "wq_method r = ''POST''"
  shows "effect w r s s'"
proof -
  have "cp_hub s' = cp_hub s \<and> (cp_store s' = cp_store s \<or>
    (\<exists>t h code tok i. form_codes w r = Some (code, tok) \<and> require (sw_verify w) tok ''orc:tools'' = Inr i \<and>
      approve_pairing t h (subject i) (cp_store s) = (Inr (), cp_store s')))"
  proof (cases "form_codes w r")
    case None
    with assms(1) show ?thesis by (auto simp: pair_approve_form_def Let_def split: prod.splits bool.splits)
  next
    case (Some ct)
    obtain code tok where ct: "ct = (code, tok)" by (cases ct)
    show ?thesis
    proof (cases "require (sw_verify w) tok ''orc:tools''")
      case (Inl e)
      with assms(1) Some ct show ?thesis by (auto simp: pair_approve_form_def Let_def split: prod.splits bool.splits)
    next
      case (Inr i)
      with assms(1) Some ct show ?thesis
        by (fastforce simp: pair_approve_form_def Let_def dest: store_unchanged split: prod.splits bool.splits sum.splits if_splits)
    qed
  qed
  moreover have "presents w r tok" if "form_codes w r = Some (code, tok)" for code tok
    using that by (simp add: presents_def)
  ultimately show ?thesis using assms(2) by (blast intro: effect.intros)
qed

lemma consume_effect:
  assumes "consume_handler (sw_sha256 w) clk remote (decode_json ''device_code'' (wq_body r)) rid r32 s = (rep, s')" and "wq_method r = ''POST''"
  shows "effect w r s s'"
proof -
  have "cp_hub s' = cp_hub s \<and> (cp_store s' = cp_store s \<or>
    (\<exists>code t did tok d. decode_json ''device_code'' (wq_body r) = Some code \<and>
      consume_pairing (sw_sha256 w) t (hash_secret (sw_sha256 w) code) (new_device did) tok (cp_store s) = (Inr d, cp_store s')))"
    using assms(1) by (auto simp: consume_handler_def write_error_def Let_def dest: store_unchanged
        split: prod.splits bool.splits option.splits sum.splits if_splits)
  then show ?thesis using assms(2) by (blast intro: effect.intros)
qed

lemma revoke_effect:
  assumes "revoke_handler clk did i s = (rep, s')" and "wq_method r = ''DELETE''"
    and "bearer_token (wq_header r ''Authorization'') = Some tok" and "require (sw_verify w) tok ''orc:tools'' = Inr i"
  shows "effect w r s s'"
proof -
  have "cp_hub s' = cp_hub s \<and> cp_store s' = cp_store s \<or>
    cp_hub s' = disconnect did (cp_hub s) \<and> (\<exists>t. revoke_device t (subject i) did (cp_store s) = (Inr (), cp_store s'))"
    using assms(1) by (auto simp: revoke_handler_def write_error_def dest: store_unchanged split: prod.splits sum.splits if_splits)
  then show ?thesis using assms(2-4) by (blast intro: effect.intros)
qed

lemma connect_effect:
  assumes "connect_answer w r s = (a, s')"
  shows "effect w r s s'"
proof -
  let ?did = "trim_space (query_get (wq_query r) ''device_id'')"
  have "s' = s \<or> (\<exists>tok d. wq_method r = ''GET'' \<and> bearer_token (wq_header r ''Authorization'') = Some tok \<and> trim_space (wq_header r ''Origin'') = [] \<and>
    authenticate_device (sw_sha256 w) (cp_store s) ?did tok = Inr d \<and> cp_store s' = snd (touch_device (sw_clk w 0) (dev_id d) (cp_store s)) \<and>
    cp_hub s' = register d (cp_hub s))"
    using assms by (auto simp: connect_answer_def agent_connect_def write_error_def api_request_def Let_def upgrade_def
        split: prod.splits list.splits option.splits sum.splits if_splits)
  then show ?thesis by (blast intro: effect.intros)
qed

text \<open>The server does only what the specification allows.\<close>

lemma handle_effect:
  assumes "handle sv w r rt vs s = (a, s')" and "rt \<in> {RStartPairing, RApprove, RToken, RPairForm} \<Longrightarrow> wq_method r = ''POST''"
    and "rt = RRevoke \<Longrightarrow> wq_method r = ''DELETE''"
  shows "effect w r s s'"
proof -
  have none: "effect w r x x" for x by (simp add: no_effect)
  show ?thesis
  proof (cases rt)
    case RStartPairing
    with assms show ?thesis by (auto simp: handle_def elim!: with_cors_run intro: start_pairing_effect none)
  next
    case RApprove
    with assms show ?thesis
      by (auto simp: handle_def presents_def elim!: with_cors_run for_user_run intro!: approve_effect none)
  next
    case RToken
    with assms show ?thesis by (auto simp: handle_def elim!: with_cors_run intro: consume_effect none)
  next
    case RDevices
    with assms show ?thesis by (auto simp: handle_def list_handler_def elim!: with_cors_run for_user_run intro: none)
  next
    case RRevoke
    with assms show ?thesis by (auto simp: handle_def elim!: with_cors_run for_user_run intro: revoke_effect none)
  next
    case RConnect
    with assms show ?thesis by (auto simp: handle_def intro: connect_effect)
  next
    case RPairForm
    with assms show ?thesis by (auto simp: handle_def intro: form_effect split: prod.splits)
  qed (use assms(1) none in \<open>auto simp: handle_def split: sum.splits\<close>)
qed

lemma serve_effect:
  assumes "serve sv w r s = (a, s')"
  shows "effect w r s s'"
proof (cases "dispatch (server_routes (rn_config sv)) (wq_method r) (wq_path r)")
  case (Serve rt vs)
  with assms obtain a' where "handle sv w r rt vs s = (a', s')" by (auto simp: serve_def split: prod.splits)
  with route_methods [OF Serve] show ?thesis by (intro handle_effect) auto
qed (use assms in \<open>auto simp: serve_def intro: no_effect\<close>)

subsection \<open>The invariant\<close>

lemma exec_owner:
  assumes "map_of (devices m) did = Some md"
  shows "\<exists>md'. map_of (devices (exec sha op m)) did = Some md' \<and> owner_subject (mdev md') = owner_subject (mdev md)"
  using assms by (cases op) (auto simp: store_defs update_conv' split: option.splits)

text \<open>The change of the store is that of an operation, or none.\<close>

lemma effect_store:
  assumes "effect w r s s'"
  shows "cp_store s' = cp_store s \<or> (\<exists>op. cp_store s' = exec (sw_sha256 w) op (cp_store s))"
  using assms
proof cases
  case (pairing_created p)
  then have "cp_store s' = exec (sw_sha256 w) (OpCreatePairing p) (cp_store s)" by simp
  then show ?thesis by blast
next
  case (pairing_approved tok i t h)
  then have "cp_store s' = exec (sw_sha256 w) (OpApprove t h (subject i)) (cp_store s)" by simp
  then show ?thesis by blast
next
  case (device_issued code t did tok d)
  then have "cp_store s' = exec (sw_sha256 w) (OpConsume t (hash_secret (sw_sha256 w) code) (new_device did) tok) (cp_store s)" by simp
  then show ?thesis by blast
next
  case (device_revoked tok i t did)
  then have "cp_store s' = exec (sw_sha256 w) (OpRevoke t (subject i) did) (cp_store s)" by simp
  then show ?thesis by blast
next
  case (device_connected tok d t)
  then have "cp_store s' = exec (sw_sha256 w) (OpTouch t (dev_id d)) (cp_store s)" by simp
  then show ?thesis by blast
qed simp

lemma effect_mem_inv: "effect w r s s' \<Longrightarrow> mem_inv (cp_store s) \<Longrightarrow> mem_inv (cp_store s')"
  using effect_store exec_inv by metis

lemma effect_owner:
  assumes "effect w r s s'" and "map_of (devices (cp_store s)) did = Some md"
  shows "\<exists>md'. map_of (devices (cp_store s')) did = Some md' \<and> owner_subject (mdev md') = owner_subject (mdev md)"
  using effect_store [OF assms(1)] exec_owner [OF assms(2)] assms(2) by auto

lemma effect_hub: "effect w r s s' \<Longrightarrow> cp_hub s' = cp_hub s \<or> hub_step (cp_hub s) (cp_hub s')"
  by (erule effect.cases) (auto intro: hub_register hub_disconnect)

lemma linked_kept:
  assumes "linked s" and "\<And>did c. hub_devices (cp_hub s') did = Some c \<Longrightarrow> hub_devices (cp_hub s) did = Some c \<and>
      c_device (hub_conns (cp_hub s') ! c) = c_device (hub_conns (cp_hub s) ! c)"
    and "\<And>did md. map_of (devices (cp_store s)) did = Some md \<Longrightarrow>
      \<exists>md'. map_of (devices (cp_store s')) did = Some md' \<and> owner_subject (mdev md') = owner_subject (mdev md)"
  shows "linked s'"
  unfolding linked_def
proof (intro allI impI)
  fix did c
  assume "hub_devices (cp_hub s') did = Some c"
  note c = assms(2) [OF this]
  then obtain md where "map_of (devices (cp_store s)) did = Some md" "owner_subject (mdev md) = owner_subject (c_device (hub_conns (cp_hub s) ! c))"
    using assms(1) unfolding linked_def by blast
  with assms(3) c show "\<exists>md. map_of (devices (cp_store s')) did = Some md \<and> owner_subject (mdev md) = owner_subject (c_device (hub_conns (cp_hub s') ! c))"
    by metis
qed

lemma register_devices:
  assumes "hub_inv h" and "hub_devices (register d h) did = Some c"
  shows "did = dev_id d \<and> c_device (hub_conns (register d h) ! c) = d \<or>
    did \<noteq> dev_id d \<and> hub_devices h did = Some c \<and> c_device (hub_conns (register d h) ! c) = c_device (hub_conns h ! c)"
proof (cases "did = dev_id d")
  case True
  then have "c = length (hub_conns h)" using assms(2) by (auto simp: register_def Let_def split: option.splits)
  moreover have "x < length (hub_conns h)" if "hub_devices h (dev_id d) = Some x" for x
    using hub_inv_link(1) [OF assms(1) that] .
  ultimately show ?thesis using True
    by (auto simp: register_def Let_def nth_append nth_upd_conn close_done_def split: option.splits)
next
  case False
  then have "hub_devices h did = Some c" using assms(2) by (auto simp: register_def Let_def split: option.splits)
  with False hub_step_device [OF hub_register, of c h d] hub_inv_link(1) [OF assms(1), of did c] show ?thesis by simp
qed

lemma authenticated:
  assumes "authenticate_device sha m did tok = Inr d" and "mem_inv m"
  obtains md where "map_of (devices m) did = Some md" "mdev md = d" "dev_id d = did"
  using assms unfolding authenticate_device_def mem_inv_def by (auto split: option.splits if_splits)

lemma effect_inv:
  assumes "effect w r s s'" and "control_inv s"
  shows "control_inv s'"
proof -
  have inv: "mem_inv (cp_store s)" "hub_inv (cp_hub s)" "linked s" using assms(2) by (auto simp: control_inv_def)
  have "linked s'"
    using assms(1)
  proof cases
    case (device_connected tok d t)
    from device_connected(4) inv(1) obtain md where md: "map_of (devices (cp_store s)) (dev_id d) = Some md" "mdev md = d"
      by (metis authenticated)
    show ?thesis
      unfolding linked_def
    proof (intro allI impI)
      fix did c
      assume c: "hub_devices (cp_hub s') did = Some c"
      from register_devices [OF inv(2) c [unfolded device_connected(6)]]
      obtain md' where "map_of (devices (cp_store s)) did = Some md'" "owner_subject (mdev md') = owner_subject (c_device (hub_conns (cp_hub s') ! c))"
        using md inv(3) unfolding linked_def device_connected(6) by fastforce
      then show "\<exists>md. map_of (devices (cp_store s')) did = Some md \<and> owner_subject (mdev md) = owner_subject (c_device (hub_conns (cp_hub s') ! c))"
        using effect_owner [OF assms(1)] by metis
    qed
  next
    case (device_revoked tok i t did)
    show ?thesis
      by (rule linked_kept [OF inv(3) _ effect_owner [OF assms(1)]])
        (auto simp: device_revoked(5) disconnect_def nth_upd_conn close_done_def hub_inv_link(1) [OF inv(2)] split: option.splits)
  qed (rule linked_kept [OF inv(3) _ effect_owner [OF assms(1)]]; simp)+
  then show ?thesis
    using effect_mem_inv [OF assms(1) inv(1)] effect_hub [OF assms(1)] hub_step_inv inv(2) by (auto simp: control_inv_def)
qed

lemma call_step_devices: "call_step ctx k h h' \<Longrightarrow> hub_devices h' = hub_devices h"
  by (induction rule: call_step.induct)
    (auto simp: call_acquire_def call_register_def call_send_def call_send_fails_def call_unregister_def call_release_def Let_def)

lemma hub_step_devices:
  assumes "hub_step h h'" and "length (hub_conns h') = length (hub_conns h)" and "hub_devices h' did = Some c"
  shows "hub_devices h did = Some c"
  using assms
proof cases
  case (hub_register dev)
  with assms(2) show ?thesis by (auto simp: register_def Let_def split: option.splits)
next
  case (hub_call k ctx)
  with assms(3) call_step_devices show ?thesis by metis
qed (use assms(3) in \<open>auto simp: disconnect_def call_enter_def receive_def close_unlink_def close_flush_def Let_def split: option.splits if_splits\<close>)

lemma server_step_inv: "server_step sv s s' \<Longrightarrow> control_inv s \<Longrightarrow> control_inv s'"
proof (induction rule: server_step.induct)
  case (request_step w r s a s')
  then show ?case by (blast intro: effect_inv serve_effect)
next
  case (relay_step s h')
  then have inv: "mem_inv (cp_store s)" "hub_inv (cp_hub s)" "linked s" by (auto simp: control_inv_def)
  have "linked (s\<lparr>cp_hub := h'\<rparr>)"
  proof (rule linked_kept [OF inv(3)])
    fix did c
    assume "hub_devices (cp_hub (s\<lparr>cp_hub := h'\<rparr>)) did = Some c"
    then have c: "hub_devices (cp_hub s) did = Some c" using hub_step_devices [OF relay_step(1,2)] by simp
    with hub_step_device [OF relay_step(1) hub_inv_link(1) [OF inv(2) c]]
    show "hub_devices (cp_hub s) did = Some c \<and> c_device (hub_conns (cp_hub (s\<lparr>cp_hub := h'\<rparr>)) ! c) = c_device (hub_conns (cp_hub s) ! c)"
      by simp
  qed simp
  with inv hub_step_inv [OF relay_step(1)] show ?case by (simp add: control_inv_def)
next
  case (audit_step s e)
  then show ?case
    using exec_inv [of "cp_store s" _ "OpAudit e"] by (auto simp: control_inv_def linked_def write_audit_def)
qed

lemma server_reach_inv:
  assumes "server_main sy parse raw century = Inr sv" and "(server_step sv)\<^sup>*\<^sup>* (start_control sv) s"
  shows "control_inv s"
proof -
  have "\<exists>n. rn_hub sv = new_hub n" using assms(1) by (auto simp: server_main_def err_simps)
  then have "control_inv (start_control sv)"
    by (auto simp: start_control_def new_control_def control_inv_def linked_def new_memory_inv new_hub_inv, simp add: new_hub_def)
  with assms(2) show ?thesis by (induction rule: rtranclp_induct) (auto intro: server_step_inv)
qed

subsection \<open>What belongs to a user\<close>

lemma filter_update:
  assumes "distinct (map fst al)" and "\<not> P (k, v)" and "\<And>x. map_of al k = Some x \<Longrightarrow> \<not> P (k, x)"
  shows "filter P (AList.update k v al) = filter P al"
  using assms
proof (induction al)
  case (Cons e al)
  obtain a b where e: "e = (a, b)" by (cases e)
  from Cons.prems(1) e have new: "a \<notin> fst ` set al" by simp
  show ?case
  proof (cases "a = k")
    case True
    with Cons.prems(2) Cons.prems(3) [of b] e show ?thesis by simp
  next
    case False
    with Cons e show ?thesis by simp
  qed
qed simp

lemma list_devices_update:
  assumes "mem_inv m" and "owner_subject (mdev v) \<noteq> o'" and "\<And>x. map_of (devices m) k = Some x \<Longrightarrow> owner_subject (mdev x) \<noteq> o'"
  shows "list_devices (m\<lparr>devices := AList.update k v (devices m)\<rparr>) o' = list_devices m o'"
    "list_devices (m\<lparr>devices := AList.update k v (devices m), pairings := ps\<rparr>) o' = list_devices m o'"
proof -
  have "filter (\<lambda>(i, d). owner_subject (mdev d) = o' \<and> revoked_at (mdev d) = None) (AList.update k v (devices m)) =
      filter (\<lambda>(i, d). owner_subject (mdev d) = o' \<and> revoked_at (mdev d) = None) (devices m)"
    using assms by (intro filter_update) (simp_all add: mem_inv_def)
  then show "list_devices (m\<lparr>devices := AList.update k v (devices m)\<rparr>) o' = list_devices m o'"
    "list_devices (m\<lparr>devices := AList.update k v (devices m), pairings := ps\<rparr>) o' = list_devices m o'"
    by (simp_all add: list_devices_def)
qed

lemma list_devices_pairings [simp]: "list_devices (m\<lparr>pairings := ps\<rparr>) o' = list_devices m o'"
  "list_devices (m\<lparr>pairings := ps, user_code := us\<rparr>) o' = list_devices m o'"
  by (simp_all add: list_devices_def)

lemma pairing_ops_devices:
  "create_pairing p m = (x, m') \<Longrightarrow> list_devices m' o' = list_devices m o'"
  "approve_pairing t h u m = (x, m') \<Longrightarrow> list_devices m' o' = list_devices m o'"
  by (auto simp: create_pairing_def approve_pairing_def Let_def split: if_splits option.splits)

lemma device_ops_devices:
  assumes "mem_inv m"
  shows "revoke_device t u did m = (Inr x, m') \<Longrightarrow> u \<noteq> o' \<Longrightarrow> list_devices m' o' = list_devices m o'"
    and "consume_pairing sha t h d tok m = (Inr d', m') \<Longrightarrow> owner_subject d' \<noteq> o' \<Longrightarrow> list_devices m' o' = list_devices m o'"
    and "map_of (devices m) did = Some md \<Longrightarrow> owner_subject (mdev md) \<noteq> o' \<Longrightarrow> list_devices (snd (touch_device t did m)) o' = list_devices m o'"
  using assms by (auto simp: revoke_device_def consume_pairing_def touch_device_def Let_def intro!: list_devices_update
      split: if_splits option.splits)

text \<open>Another user's devices are untouched, in the list and in the hub.\<close>

definition devices_kept :: "string \<Rightarrow> control \<Rightarrow> control \<Rightarrow> bool" where
  "devices_kept o' s s' \<longleftrightarrow>
     list_devices (cp_store s') o' = list_devices (cp_store s) o' \<and> (\<forall>did. is_online (cp_hub s') o' did = is_online (cp_hub s) o' did)"

lemma disconnect_online: "hub_inv h \<Longrightarrow> is_online (disconnect did h) o' x = is_online h o' x"
  by (auto simp: is_online_def disconnect_def nth_upd_conn close_done_def hub_inv_link(1) split: option.splits)

lemma register_online:
  assumes "control_inv s" and "authenticate_device sha (cp_store s) did tok = Inr d" and "owner_subject d \<noteq> o'"
  shows "is_online (register d (cp_hub s)) o' x = is_online (cp_hub s) o' x"
proof -
  have inv: "mem_inv (cp_store s)" "hub_inv (cp_hub s)" "linked s" using assms(1) by (auto simp: control_inv_def)
  obtain md where md: "map_of (devices (cp_store s)) did = Some md" "mdev md = d" "dev_id d = did"
    by (rule authenticated [OF assms(2) inv(1)])
  have new: "hub_devices (register d (cp_hub s)) y = None \<longleftrightarrow> y \<noteq> dev_id d \<and> hub_devices (cp_hub s) y = None" for y
    by (auto simp: register_def Let_def split: option.splits)
  have old: "owner_subject (c_device (hub_conns (cp_hub s) ! c)) \<noteq> o'" if "hub_devices (cp_hub s) (dev_id d) = Some c" for c
    using that inv(3) md assms(3) unfolding linked_def by fastforce
  show ?thesis
  proof (cases "hub_devices (register d (cp_hub s)) x")
    case None
    moreover have "hub_devices (cp_hub s) x = None" using None new [of x] by blast
    ultimately show ?thesis by (simp add: is_online_def)
  next
    case (Some c)
    from register_devices [OF inv(2) Some] Some old assms(3) show ?thesis by (auto simp: is_online_def split: option.splits)
  qed
qed

lemma consumed_owner:
  assumes "consume_pairing sha t h (new_device did) tok m = (Inr d, m')"
  obtains p where "map_of (pairings m) h = Some p" "approved_at p \<noteq> None" "owner_subject d = pair_owner p"
  using assms by (auto simp: consume_pairing_def Let_def split: option.splits if_splits)

lemma pairing_owner_ops:
  "create_pairing p m = (Inr (), m') \<Longrightarrow> map_of (pairings m') h = Some q \<Longrightarrow> q = p \<or> map_of (pairings m) h = Some q"
  "approve_pairing t u x m = (Inr (), m') \<Longrightarrow> map_of (pairings m') h = Some q \<Longrightarrow> pair_owner q = x \<or> map_of (pairings m) h = Some q"
  "consume_pairing sha t c d tok m = (Inr d', m') \<Longrightarrow> map_of (pairings m') h = Some q \<Longrightarrow>
     \<exists>p. map_of (pairings m) h = Some p \<and> pair_owner p = pair_owner q"
  "revoke_device t x did m = (Inr (), m') \<Longrightarrow> map_of (pairings m') h = Some q \<Longrightarrow> map_of (pairings m) h = Some q"
  "map_of (pairings (snd (touch_device t did m))) h = Some q \<Longrightarrow> map_of (pairings m) h = Some q"
  by (auto simp: store_defs update_conv' split: if_splits option.splits)

section \<open>Properties\<close>

text \<open>
  C3. What belongs to a user is changed only by the user or by the user's devices. In every state of a
  server that was started from its configuration, whatever request arrives on whatever route, the
  devices that a user sees and which of them are connected stay the same, with three exceptions:
  the request revokes a device and carries a token that is verified as this user's, with the scope;
  or it comes from a device of the user, without a browser origin, and is authenticated by the
  device's token; or it presents the device code of a pairing that this user has approved. And a
  pairing becomes the user's only by a request with a verified token of the user.
\<close>

theorem owners_isolated:
  assumes "server_main sy parse raw century = Inr sv" and "(server_step sv)\<^sup>*\<^sup>* (start_control sv) s" and "serve sv w r s = (a, s')"
  shows "(devices_kept owner s s' \<or>
     (\<exists>tok i. wq_method r = ''DELETE'' \<and> bearer_token (wq_header r ''Authorization'') = Some tok \<and> sw_verify w tok = Inr i \<and>
        ''orc:tools'' \<in> scopes i \<and> subject i = owner) \<or>
     (\<exists>tok d. wq_method r = ''GET'' \<and> trim_space (wq_header r ''Origin'') = [] \<and> bearer_token (wq_header r ''Authorization'') = Some tok \<and>
        authenticate_device (sw_sha256 w) (cp_store s) (trim_space (query_get (wq_query r) ''device_id'')) tok = Inr d \<and> owner_subject d = owner) \<or>
     (\<exists>code p. wq_method r = ''POST'' \<and> decode_json ''device_code'' (wq_body r) = Some code \<and>
        map_of (pairings (cp_store s)) (hash_secret (sw_sha256 w) code) = Some p \<and> approved_at p \<noteq> None \<and> pair_owner p = owner)) \<and>
    (\<forall>h p'. map_of (pairings (cp_store s')) h = Some p' \<and> pair_owner p' = owner \<and> owner \<noteq> [] \<longrightarrow>
       (\<exists>p. map_of (pairings (cp_store s)) h = Some p \<and> pair_owner p = owner) \<or>
       (\<exists>tok i. presents w r tok \<and> sw_verify w tok = Inr i \<and> ''orc:tools'' \<in> scopes i \<and> subject i = owner))"
    (is "?devices \<and> ?pairings")
proof
  have inv: "control_inv s" "mem_inv (cp_store s)" "hub_inv (cp_hub s)"
    using server_reach_inv [OF assms(1,2)] by (auto simp: control_inv_def)
  note eff = serve_effect [OF assms(3)]
  show ?devices
    using eff
  proof cases
    case (device_issued code t did tok d)
    obtain p where p: "map_of (pairings (cp_store s)) (hash_secret (sw_sha256 w) code) = Some p" "approved_at p \<noteq> None" "owner_subject d = pair_owner p"
      by (rule consumed_owner [OF device_issued(3)])
    from device_ops_devices(2) [OF inv(2) device_issued(3)] have "devices_kept owner s s' \<or> pair_owner p = owner"
      using p(3) device_issued(4) by (auto simp: devices_kept_def)
    with p device_issued show ?thesis by blast
  next
    case (device_revoked tok i t did)
    from device_ops_devices(1) [OF inv(2) device_revoked(4)] have "devices_kept owner s s' \<or> subject i = owner"
      using disconnect_online [OF inv(3)] device_revoked(5) by (auto simp: devices_kept_def)
    with device_revoked show ?thesis by (auto simp: require_Inr)
  next
    case (device_connected tok d t)
    obtain md where "map_of (devices (cp_store s)) (dev_id d) = Some md" "mdev md = d"
      using authenticated [OF device_connected(4) inv(2)] by metis
    from device_ops_devices(3) [OF inv(2) this(1)] this(2) have "devices_kept owner s s' \<or> owner_subject d = owner"
      using register_online [OF inv(1) device_connected(4)] device_connected(5,6) by (auto simp: devices_kept_def)
    with device_connected show ?thesis by blast
  qed (auto simp: devices_kept_def pairing_ops_devices)
  show ?pairings
    using eff
  proof cases
    case (pairing_approved tok i t h)
    then have "sw_verify w tok = Inr i" "''orc:tools'' \<in> scopes i" by (simp_all add: require_Inr)
    with pairing_approved(2) pairing_owner_ops(2) [OF pairing_approved(4)] show ?thesis by metis
  qed (auto dest: pairing_owner_ops)
qed

text \<open>A device starts a pairing; then Bob approves it.\<close>

definition demo_sv :: running_server where
  "demo_sv = projr (server_main demo_system (\<lambda>_. None) (Some [7]) 0)"

definition demo_server_world :: server_world where
  "demo_server_world =
     \<lparr>sw_sha256 = take 1, sw_sha1 = take 1, sw_mac = (\<lambda>k. take 1), sw_uni = (\<lambda>x. x),
      sw_verify = (\<lambda>t. if t = ''a'' \<or> t = ''b'' then
        Inr \<lparr>subject = (if t = ''a'' then ''alice'' else ''bob''), scopes = {''orc:tools''}, expiry = 0\<rparr> else Inl InvalidToken),
      sw_clk = (\<lambda>n. 5), sw_secret = Some [7], sw_code = Some [0], sw_id = Some [1], sw_hijack = Hijacked,
      sw_media = Some, sw_codec = demo_codec, sw_ip = (\<lambda>h. False)\<rparr>"

definition demo_request :: "string \<Rightarrow> string \<Rightarrow> string \<Rightarrow> string \<Rightarrow> wire_request" where
  "demo_request meth path tok content =
     \<lparr>wq_method = meth, wq_path = path, wq_query = [],
      wq_header = (\<lambda>k. if k = ''Authorization'' then ''Bearer '' @ tok else []), wq_remote = ''10.0.0.1:1'', wq_body = content\<rparr>"

definition demo_serve :: "wire_request \<Rightarrow> control \<Rightarrow> control" where
  "demo_serve r s = snd (serve demo_sv demo_server_world r s)"

definition demo_pending :: control where
  "demo_pending = demo_serve (demo_request ''POST'' ''/api/v1/pairings'' [] (start_request_text ''p'')) (start_control demo_sv)"

definition demo_approval :: wire_request where
  "demo_approval = demo_request ''POST'' ''/api/v1/pairings/approve'' ''b'' (print_json (TObj [(''user_code'', TStr ''abcd-efgh'')]))"

theorem owners_isolated_witness:
  "length (pairings (cp_store demo_pending)) = 1 \<and>
   ''alice'' \<notin> pair_owner ` ran (map_of (pairings (cp_store (demo_serve demo_approval demo_pending))))"
proof -
  have sv: "server_main demo_system (\<lambda>_. None) (Some [7]) 0 = Inr demo_sv"
  proof -
    have "\<not> isl (server_main demo_system (\<lambda>_. None) (Some [7]) 0)" by code_simp
    then show ?thesis by (simp add: demo_sv_def)
  qed
  have run: "serve demo_sv demo_server_world r s = (fst (serve demo_sv demo_server_world r s), demo_serve r s)" for r s
    by (simp add: demo_serve_def)
  have reach: "(server_step demo_sv)\<^sup>*\<^sup>* (start_control demo_sv) demo_pending"
    unfolding demo_pending_def by (rule r_into_rtranclp, rule request_step, rule run)
  have "map (pair_owner \<circ> snd) (pairings (cp_store demo_pending)) = [[]]" by code_simp
  then have ev: "length (pairings (cp_store demo_pending)) = 1"
      "map_of (pairings (cp_store demo_pending)) h = Some p \<Longrightarrow> pair_owner p = []" for h p
    by (auto simp: map_eq_Cons_conv split: if_splits)
  have "bearer_token (wq_header demo_approval ''Authorization'') = Some ''b''" "form_codes demo_server_world demo_approval = Some ([], [])" by code_simp+
  then have toks: "tok = ''b'' \<or> tok = []" if "presents demo_server_world demo_approval tok" for tok
    using that unfolding presents_def by auto
  have vs: "sw_verify demo_server_world ''b'' = Inr i \<Longrightarrow> subject i \<noteq> ''alice''" "sw_verify demo_server_world [] \<noteq> Inr i" for i
    by (auto simp: demo_server_world_def)
  show ?thesis
  proof (intro conjI ev(1) notI)
    assume "''alice'' \<in> pair_owner ` ran (map_of (pairings (cp_store (demo_serve demo_approval demo_pending))))"
    then obtain h p where p: "map_of (pairings (cp_store (demo_serve demo_approval demo_pending))) h = Some p" "pair_owner p = ''alice''"
      by (auto simp: ran_def)
    with conjunct2 [OF owners_isolated [OF sv reach run, of "''alice''" demo_approval]]
    consider q where "map_of (pairings (cp_store demo_pending)) h = Some q" "pair_owner q = ''alice''"
      | tok i where "presents demo_server_world demo_approval tok" "sw_verify demo_server_world tok = Inr i" "subject i = ''alice''"
      by blast
    then show False
    proof cases
      case 1
      with ev(2) show False by simp
    next
      case 2
      with toks vs show False by metis
    qed
  qed
qed

end
