(* ===== verification/MessageText.thy ===== *)
theory MessageText
  imports AgentMain WireTypes
begin

text \<open>
  The texts of the frames between the hub and the agents (\<^verbatim>\<open>internal/protocol/frame.go\<close>), written and read as
  \<^verbatim>\<open>encoding/json\<close> does, and their way over a connection. A \<^verbatim>\<open>json.RawMessage\<close> is the part of the text that holds a
  value; it is written again without the spaces. The lemmas show that what was written is read back; the property follows a call from the hub
  to the executor and its result back to the hub.
\<close>

section \<open>Definitions\<close>

subsection \<open>Raw values\<close>

text \<open>The first value of a text: its own text, the value, and what comes after it.\<close>

definition raw_value :: "string \<Rightarrow> (string \<times> jtree \<times> string) option" where
  "raw_value s =
     (let s' = dropWhile json_space s
      in map_option (\<lambda>(v, r). (take (length s' - length r) s', v, r)) (read_loop [] BeginValue s'))"

definition raw_member :: "string \<Rightarrow> ((string \<times> string \<times> jtree) \<times> string) option" where
  "raw_member s =
     (case next_token s of
        Some (TkLeaf (TStr k), r) \<Rightarrow>
          (case next_token r of
             Some (TkColon, r1) \<Rightarrow> map_option (\<lambda>(raw, v, r2). ((k, raw, v), r2)) (raw_value r1)
           | _ \<Rightarrow> None)
      | _ \<Rightarrow> None)"

lemma read_loop_shorter: "read_loop st m s = Some (v, r) \<Longrightarrow> length r < length s"
proof (induction st m s rule: read_loop.induct)
  case (1 st m s)
  obtain t r1 where tok: "next_token s = Some (t, r1)" using "1.prems" by (subst (asm) read_loop.simps) (auto split: option.splits)
  obtain rd where rd: "read_step m t st = Some rd" using "1.prems" tok by (subst (asm) read_loop.simps) (auto split: option.splits)
  show ?case
  proof (cases rd)
    case (Finished u)
    then have "r = r1" using "1.prems" tok rd by (subst (asm) read_loop.simps) simp
    then show ?thesis using next_token_shorter [OF tok] by simp
  next
    case (Open st' m')
    then have "length r < length r1" using "1.prems" tok rd "1.IH" [OF tok refl rd] by (subst (asm) read_loop.simps) simp
    then show ?thesis using next_token_shorter [OF tok] by simp
  qed
qed

lemma raw_value_shorter: "raw_value s = Some (raw, v, r) \<Longrightarrow> length r < length s"
  using length_dropWhile_le [of json_space s] by (auto simp: raw_value_def Let_def dest!: read_loop_shorter)

lemma raw_member_shorter: "raw_member s = Some (x, r) \<Longrightarrow> length r < length s"
proof -
  assume "raw_member s = Some (x, r)"
  then obtain k r1 r2 raw v where "next_token s = Some (TkLeaf (TStr k), r1)" "next_token r1 = Some (TkColon, r2)" "raw_value r2 = Some (raw, v, r)"
    by (auto simp: raw_member_def split: option.splits token.splits jtree.splits)
  then show ?thesis using next_token_shorter raw_value_shorter less_trans by metis
qed

function raw_rest :: "string \<Rightarrow> (string \<times> string \<times> jtree) list option" where
  "raw_rest s =
     (case raw_member s of
        None \<Rightarrow> None
      | Some (x, r) \<Rightarrow>
        (case next_token r of
           Some (TkComma, r1) \<Rightarrow> map_option (Cons x) (raw_rest r1)
         | Some (TkRBrace, _) \<Rightarrow> Some [x]
         | _ \<Rightarrow> None))"
  by pat_completeness auto
termination
  by (relation "measure length") (auto dest!: raw_member_shorter next_token_shorter)

declare raw_rest.simps [simp del]

text \<open>The members of an object with the texts of their values.\<close>

definition raw_members :: "string \<Rightarrow> (string \<times> string \<times> jtree) list option" where
  "raw_members s =
     (case next_token s of
        Some (TkLBrace, r) \<Rightarrow> (case next_token r of Some (TkRBrace, _) \<Rightarrow> Some [] | _ \<Rightarrow> raw_rest r)
      | _ \<Rightarrow> None)"

text \<open>\<^verbatim>\<open>json.Unmarshal\<close> into a struct: the fields that are set, with texts and values. Unknown members are ignored.\<close>

definition unmarshal_fields :: "string list \<Rightarrow> string \<Rightarrow> (string \<times> string \<times> jtree) list option" where
  "unmarshal_fields names s =
     (case unmarshal_tree s of
        Some TNull \<Rightarrow> Some []
      | Some (TObj _) \<Rightarrow>
          map_option (List.map_filter (\<lambda>(k, raw, v). map_option (\<lambda>f. (f, raw, v)) (field_for names k))) (raw_members s)
      | _ \<Rightarrow> None)"

definition field_values :: "(string \<times> string \<times> jtree) list \<Rightarrow> (string \<times> jtree) list" where
  "field_values ms = map (\<lambda>(f, raw, v). (f, v)) ms"

definition field_raw :: "(string \<times> string \<times> jtree) list \<Rightarrow> string \<Rightarrow> string" where
  "field_raw ms f = (case filter (\<lambda>m. fst m = f) ms of [] \<Rightarrow> [] | xs \<Rightarrow> fst (snd (last xs)))"

text \<open>
  How a raw message is written: it must be valid JSON; spaces between its tokens are left out, and characters that are
  special in HTML are escaped.
\<close>

definition html_mark :: "char \<Rightarrow> bool" where
  "html_mark c \<longleftrightarrow> c = CHR ''<'' \<or> c = CHR ''>'' \<or> c = CHR ''&''"

definition separator_front :: "string \<Rightarrow> bool" where
  "separator_front s \<longleftrightarrow> prefix [CHR 0xE2, CHR 0x80, CHR 0xA8] s \<or> prefix [CHR 0xE2, CHR 0x80, CHR 0xA9] s"

function squeeze :: "bool \<Rightarrow> string \<Rightarrow> string" where
  "squeeze q s =
     (if s = [] then []
      else if \<not> q then
        (if json_space (hd s) then squeeze False (tl s) else hd s # squeeze (hd s = CHR 0x22) (tl s))
      else if hd s = CHR 0x22 then hd s # squeeze False (tl s)
      else if hd s = CHR 0x5C then take 2 s @ squeeze True (drop 2 s)
      else if html_mark (hd s) then escape_char (hd s) @ squeeze True (tl s)
      else if separator_front s then escape_rune (take 3 s) @ squeeze True (drop 3 s)
      else hd s # squeeze True (tl s))"
  by pat_completeness auto
termination
  by (relation "measure (\<lambda>(q, s). length s)") auto

declare squeeze.simps [simp del]

definition marshal_raw :: "string \<Rightarrow> string option" where
  "marshal_raw raw = (if unmarshal_tree raw = None then None else Some (squeeze False raw))"

definition raw_field :: "string \<Rightarrow> string \<Rightarrow> string list option" where
  "raw_field name raw = (if raw = [] then Some [] else map_option (\<lambda>x. [quote name @ '':'' @ x]) (marshal_raw raw))"

definition plain_field :: "bool \<Rightarrow> string \<Rightarrow> jtree \<Rightarrow> string list" where
  "plain_field missing name v = (if missing then [] else [print_member (name, v)])"

definition struct_text :: "string list \<Rightarrow> string" where
  "struct_text ms = ''{'' @ join '','' ms @ ''}''"

subsection \<open>Frames\<close>

definition error_tree :: "remote_error \<Rightarrow> jtree" where
  "error_tree e = TObj [(''code'', TStr (err_code e)), (''message'', TStr (err_message e))]"

definition frame_text :: "frame \<Rightarrow> string option" where
  "frame_text f = do {
     args \<leftarrow> raw_field ''args'' (f_args f);
     res \<leftarrow> raw_field ''result'' (f_result f);
     Some (struct_text (plain_field False ''type'' (TStr (f_type f)) @ plain_field (f_id f = []) ''id'' (TStr (f_id f)) @
       plain_field (f_tool f = []) ''tool'' (TStr (f_tool f)) @ args @ plain_field (\<not> f_ok f) ''ok'' (TBool True) @ res @
       (case f_error f of None \<Rightarrow> [] | Some e \<Rightarrow> plain_field False ''error'' (error_tree e)))) }"

text \<open>A pointer that is set already is decoded into again.\<close>

definition store_error :: "remote_error option \<Rightarrow> jtree \<Rightarrow> remote_error option option" where
  "store_error a v =
     (if v = TNull then Some None
      else do {
        m \<leftarrow> object_fields False [''code'', ''message''] v;
        code \<leftarrow> store_all store_string (case a of None \<Rightarrow> [] | Some e \<Rightarrow> err_code e) (values_of m ''code'');
        msg \<leftarrow> store_all store_string (case a of None \<Rightarrow> [] | Some e \<Rightarrow> err_message e) (values_of m ''message'');
        Some (Some \<lparr>err_code = code, err_message = msg\<rparr>) })"

definition frame_of_text :: "string \<Rightarrow> frame option" where
  "frame_of_text s = do {
     ms \<leftarrow> unmarshal_fields [''type'', ''id'', ''tool'', ''args'', ''ok'', ''result'', ''error''] s;
     ty \<leftarrow> get_string (field_values ms) ''type'';
     rid \<leftarrow> get_string (field_values ms) ''id'';
     tool \<leftarrow> get_string (field_values ms) ''tool'';
     ok \<leftarrow> get_bool (field_values ms) ''ok'';
     err \<leftarrow> store_all store_error None (values_of (field_values ms) ''error'');
     Some \<lparr>f_type = ty, f_id = rid, f_tool = tool, f_args = field_raw ms ''args'', f_ok = ok, f_result = field_raw ms ''result'', f_error = err\<rparr> }"

text \<open>A frame on a connection: encoded and written as one message, and a message that is read and decoded.\<close>

definition send_frame :: "ws_conn \<Rightarrow> ws_state \<Rightarrow> frame \<Rightarrow> ((wserr + unit) \<times> ws_state) option" where
  "send_frame c st f = map_option (\<lambda>t. write_message c st (bytes_of_string t)) (frame_text f)"

definition receive_frame :: "ws_conn \<Rightarrow> ws_state \<Rightarrow> (wserr + frame option) \<times> ws_state" where
  "receive_frame c st =
     (case read_message c st of (r, st') \<Rightarrow> (map_sum (\<lambda>e. e) (\<lambda>b. frame_of_text (string_of_bytes b)) r, st'))"

section \<open>Lemmas\<close>

subsection \<open>Reading raw values\<close>

lemma writable_mono: "writable n v \<Longrightarrow> n \<le> m \<Longrightarrow> writable m v"
proof (induction n v arbitrary: m rule: writable.induct)
  case (2 n vs)
  then show ?case by (auto simp: list_all_iff)
next
  case (3 n kvs)
  then show ?case by (auto simp: list_all_iff)
qed auto

lemma print_json_start: "writable n v \<Longrightarrow> print_json v \<noteq> [] \<and> \<not> json_space (hd (print_json v))"
  by (cases v) (auto simp: json_space_def quote_def is_digit_def dest: number_literal_start)

lemma raw_value_print:
  assumes "writable max_nesting v" and "number_end r"
  shows "raw_value (print_json v @ r) = Some (print_json v, sanitize_tree v, r)"
proof -
  have "dropWhile json_space (print_json v @ r) = print_json v @ r"
    using print_json_start [OF assms(1)] by (cases "print_json v") auto
  then show ?thesis by (simp add: raw_value_def parse_print [OF assms])
qed

definition raw_entry :: "string \<times> jtree \<Rightarrow> string \<times> string \<times> jtree" where
  "raw_entry kv = (sanitize (fst kv), print_json (snd kv), sanitize_tree (snd kv))"

lemma raw_member_print:
  assumes "writable max_nesting (snd kv)" and "number_end r"
  shows "raw_member (print_member kv @ r) = Some (raw_entry kv, r)"
proof -
  have "next_token (print_member kv @ r) = Some (TkLeaf (TStr (sanitize (fst kv))), '':'' @ print_json (snd kv) @ r)"
    by (simp add: print_member_def next_token_string)
  moreover have "next_token ('':'' @ x) = Some (TkColon, x)" for x by (simp add: next_token_punctuation punctuation_def)
  ultimately show ?thesis
    by (simp add: raw_member_def raw_value_print [OF assms] raw_entry_def del: append.simps append_Cons)
qed

lemma raw_rest_print:
  assumes "list_all (\<lambda>kv. writable max_nesting (snd kv)) kvs" and "kvs \<noteq> []"
  shows "raw_rest (join '','' (map print_member kvs) @ ''}'' @ r) = Some (map raw_entry kvs)"
  using assms
proof (induction kvs)
  case (Cons kv kvs)
  have brace: "next_token (''}'' @ r) = Some (TkRBrace, r)" and comma: "next_token ('','' @ x) = Some (TkComma, x)" for x
    by (simp_all add: next_token_punctuation punctuation_def)
  show ?case
  proof (cases kvs)
    case Nil
    have "raw_member (print_member kv @ ''}'' @ r) = Some (raw_entry kv, ''}'' @ r)"
      using Cons.prems by (intro raw_member_print) simp_all
    with Nil brace show ?thesis by (subst raw_rest.simps) simp
  next
    case (Cons kv' kvs')
    let ?rest = "join '','' (map print_member kvs) @ ''}'' @ r"
    have "raw_member (print_member kv @ '','' @ ?rest) = Some (raw_entry kv, '','' @ ?rest)"
      using Cons.prems by (intro raw_member_print) simp_all
    moreover have "join '','' (map print_member (kv # kvs)) @ ''}'' @ r = print_member kv @ '','' @ ?rest"
      using Cons by simp
    moreover have "raw_rest ?rest = Some (map raw_entry kvs)" using Cons.IH Cons.prems Cons by simp
    ultimately show ?thesis using comma [of ?rest] by (subst raw_rest.simps) simp
  qed
qed simp

lemma raw_members_print:
  assumes "writable max_nesting (TObj kvs)"
  shows "raw_members (print_json (TObj kvs)) = Some (map raw_entry kvs)"
proof -
  have w: "list_all (\<lambda>kv. writable max_nesting (snd kv)) kvs"
    using assms writable_mono [of "max_nesting - 1"] by (auto simp: list_all_iff)
  have open_brace: "next_token (''{'' @ x) = Some (TkLBrace, x)" "next_token (''}'' @ x) = Some (TkRBrace, x)" for x
    by (simp_all add: next_token_punctuation punctuation_def)
  show ?thesis
  proof (cases kvs)
    case Nil
    with open_brace(1) [of "''}''"] open_brace(2) [of "[]"] show ?thesis by (simp add: raw_members_def)
  next
    case (Cons kv kvs')
    let ?body = "join '','' (map print_member kvs) @ ''}''"
    have "\<exists>k x. next_token ?body = Some (TkLeaf (TStr k), x)"
      using Cons by (simp add: join_Cons print_member_def next_token_string)
    moreover have "raw_rest ?body = Some (map raw_entry kvs)" using raw_rest_print [OF w, of "[]"] Cons by simp
    ultimately show ?thesis unfolding print_TObj using open_brace(1) [of ?body] by (auto simp: raw_members_def)
  qed
qed

lemma unmarshal_fields_print:
  assumes "writable max_nesting (TObj kvs)"
  shows "unmarshal_fields names (print_json (TObj kvs)) =
    Some (List.map_filter (\<lambda>(k, raw, v). map_option (\<lambda>f. (f, raw, v)) (field_for names k)) (map raw_entry kvs))"
  using tree_print(2) [OF assms] raw_members_print [OF assms] by (simp add: unmarshal_fields_def del: print_json.simps)

subsection \<open>Writing raw values\<close>

lemma squeeze_plain:
  "\<not> json_space c \<Longrightarrow> c \<noteq> CHR 0x22 \<Longrightarrow> squeeze False (c # s) = c # squeeze False s"
  "squeeze False (CHR 0x22 # s) = CHR 0x22 # squeeze True s" "squeeze True (CHR 0x22 # s) = CHR 0x22 # squeeze False s"
  "squeeze True (CHR 0x5C # d # s) = CHR 0x5C # d # squeeze True s" "squeeze q [] = []"
  by (subst squeeze.simps; simp add: json_space_def)+

lemma squeeze_inside:
  assumes "c \<noteq> CHR 0x22" and "c \<noteq> CHR 0x5C" and "\<not> html_mark c" and "c \<noteq> CHR 0xE2"
  shows "squeeze True (c # s) = c # squeeze True s"
  using assms by (subst squeeze.simps) (simp add: separator_front_def)

lemma squeeze_words: "list_all (\<lambda>c. \<not> json_space c \<and> c \<noteq> CHR 0x22) s \<Longrightarrow> squeeze False (s @ r) = s @ squeeze False r"
  by (induction s) (simp_all add: squeeze_plain)

lemma squeeze_letters:
  "list_all (\<lambda>c. c \<noteq> CHR 0x22 \<and> c \<noteq> CHR 0x5C \<and> \<not> html_mark c \<and> c \<noteq> CHR 0xE2) s \<Longrightarrow> squeeze True (s @ r) = s @ squeeze True r"
  by (induction s) (simp_all add: squeeze_inside)

lemma high_letter: "\<not> byte_of_char c < 0x80 \<Longrightarrow> c \<noteq> CHR 0x22 \<and> c \<noteq> CHR 0x5C \<and> \<not> html_mark c"
  by (auto simp: byte_of_char_def html_mark_def word_less_nat_alt unat_of_nat)

lemma cont_letter: "cont (byte_of_char c) \<Longrightarrow> c \<noteq> CHR 0x22 \<and> c \<noteq> CHR 0x5C \<and> \<not> html_mark c \<and> c \<noteq> CHR 0xE2"
  by (auto simp: cont_def byte_of_char_def html_mark_def word_le_nat_alt unat_of_nat)

lemma second_cont: "second_of_three a b \<Longrightarrow> cont b" "second_of_four a b \<Longrightarrow> cont b"
  by (auto simp: second_of_three_def second_of_four_def cont_def word_le_nat_alt split: if_splits)

lemma rune_tail: "rune_ok (b # bs) \<Longrightarrow> list_all cont bs"
  by (cases "b # bs" rule: rune_ok.cases) (auto dest: second_cont)

lemma hex_digit_letters: "n < 16 \<Longrightarrow> hex_digit n \<in> set ''0123456789abcdef''"
proof -
  have "list_all (\<lambda>n. hex_digit n \<in> set ''0123456789abcdef'') [0..<16]" by code_simp
  moreover assume "n < 16"
  ultimately show ?thesis by (auto simp: list_all_iff simp del: upt_rec_numeral)
qed

lemma squeeze_escape_char: "squeeze True (escape_char c @ r) = escape_char c @ squeeze True r" if "(of_char c :: nat) < 128"
proof -
  have "c \<noteq> CHR 0xE2" using that by auto
  moreover have "squeeze True (hex_digit n # r) = hex_digit n # squeeze True r" if "n < 16" for n r
    using hex_digit_letters [OF that] by (intro squeeze_inside) (auto simp: html_mark_def)
  ultimately show ?thesis
    using that by (auto simp: escape_char_def Let_def squeeze_plain squeeze_inside html_mark_def)
qed

lemma separator_frontD:
  "separator_front s \<Longrightarrow> take 3 s = [CHR 0xE2, CHR 0x80, CHR 0xA8] \<or> take 3 s = [CHR 0xE2, CHR 0x80, CHR 0xA9]"
  by (auto simp: separator_front_def prefix_def)

lemma squeeze_escape_rune:
  assumes "rune_ok (bytes_of_string x)"
  shows "squeeze True (escape_rune x @ r) = escape_rune x @ squeeze True r"
proof -
  obtain c cs where x: "x = c # cs" using rune_ok_lead [OF assms] by (cases x) (auto simp: bytes_of_string_def)
  have tail: "squeeze True (cs @ r) = cs @ squeeze True r"
    using rune_tail [of "byte_of_char c" "bytes_of_string cs"] assms x cont_letter
    by (intro squeeze_letters) (auto simp: bytes_of_string_def list_all_iff)
  consider "cs = []" | "x = [CHR 0xE2, CHR 0x80, CHR 0xA8] \<or> x = [CHR 0xE2, CHR 0x80, CHR 0xA9]"
    | "cs \<noteq> []" "x \<noteq> [CHR 0xE2, CHR 0x80, CHR 0xA8]" "x \<noteq> [CHR 0xE2, CHR 0x80, CHR 0xA9]" by blast
  then show ?thesis
  proof cases
    case 1
    then have "(of_char c :: nat) < 128"
      using assms x by (simp add: bytes_of_string_def byte_of_char_def word_less_nat_alt unat_of_nat)
    with 1 x show ?thesis by (simp add: escape_rune_def squeeze_escape_char)
  next
    case 2
    then show ?thesis by (auto simp: escape_rune_def squeeze_plain squeeze_inside html_mark_def)
  next
    case 3
    have len: "length x = lead_len (byte_of_char c)" using rune_ok_lead [OF assms] x by (simp add: bytes_of_string_def)
    have high: "\<not> byte_of_char c < 0x80" using 3(1) len x by (auto simp: lead_len_def)
    have "\<not> separator_front (x @ r)"
    proof
      assume "separator_front (x @ r)"
      then have front: "take 3 (x @ r) = [CHR 0xE2, CHR 0x80, CHR 0xA8] \<or> take 3 (x @ r) = [CHR 0xE2, CHR 0x80, CHR 0xA9]"
        by (rule separator_frontD)
      then have "hd (take 3 (x @ r)) = CHR 0xE2" by auto
      then have "c = CHR 0xE2" using x by simp
      with len have "length x = 3" by (simp add: lead_len_def byte_of_char_def)
      with front 3 show False by simp
    qed
    then have "squeeze True (x @ r) = c # squeeze True (cs @ r)"
      using high_letter [OF high] x by (subst squeeze.simps) simp
    with 3 tail x show ?thesis by (auto simp: escape_rune_def)
  qed
qed

lemma squeeze_quote: "squeeze True (quote_body s @ CHR 0x22 # r) = quote_body s @ CHR 0x22 # squeeze False r"
proof (induction s rule: quote_body.induct)
  case (1 s)
  consider "s = []" | "s \<noteq> []" "front_rune s = 0" | "s \<noteq> []" "front_rune s \<noteq> 0" by blast
  then show ?case
  proof cases
    case 1
    then show ?thesis by (simp add: quote_body.simps [of "[]"] squeeze_plain)
  next
    case 2
    then have "quote_body s = (CHR 0x5C # ''ufffd'') @ quote_body (drop 1 s)" by (subst quote_body.simps) simp
    then show ?thesis using "1.IH"(1) [OF 2] by (simp add: squeeze_plain squeeze_inside html_mark_def)
  next
    case 3
    have "quote_body s = escape_rune (take (front_rune s) s) @ quote_body (drop (front_rune s) s)"
      using 3 by (subst quote_body.simps) simp
    then show ?thesis using "1.IH"(2) [OF 3] squeeze_escape_rune [OF front_runeD(1) [OF 3(2)]] by simp
  qed
qed

lemma squeeze_string: "squeeze False (quote s @ r) = quote s @ squeeze False r"
  by (simp add: quote_def squeeze_plain squeeze_quote)

lemma int_part_chars: "list_all is_digit (int_part s)"
  by (auto simp: int_part_def list_all_iff is_digit_def dest: set_takeWhileD)

lemma fraction_chars: "fraction s = Some x \<Longrightarrow> list_all (\<lambda>c. is_digit c \<or> c = CHR ''.'') x"
  by (auto simp: fraction_def Let_def list_all_iff split: if_splits dest: set_takeWhileD)

lemma exponent_chars: "exponent s = Some x \<Longrightarrow> list_all (\<lambda>c. is_digit c \<or> c \<in> set ''-+eE'') x"
  by (auto simp: exponent_def Let_def list_all_iff split: if_splits dest: set_takeWhileD)

lemma number_front_chars:
  assumes "number_front s = Some x"
  shows "list_all (\<lambda>c. is_digit c \<or> c \<in> set ''-+.eE'') x"
  using assms unfolding number_front_def Let_def
  by (auto simp: list_all_iff split: if_splits option.splits
      dest!: fraction_chars exponent_chars simp: int_part_chars [unfolded list_all_iff])

lemma squeeze_number: "number_literal x \<Longrightarrow> squeeze False (x @ r) = x @ squeeze False r"
  using number_front_chars [of x x]
  by (intro squeeze_words) (auto simp: number_literal_def list_all_iff json_space_def is_digit_def)

lemma squeeze_join:
  assumes "\<And>x r. x \<in> set xs \<Longrightarrow> squeeze False (x @ r) = x @ squeeze False r"
  shows "squeeze False (join '','' xs @ r) = join '','' xs @ squeeze False r"
  using assms
proof (induction xs)
  case (Cons x xs)
  show ?case
  proof (cases xs)
    case Nil
    then show ?thesis using Cons.prems [of x] by simp
  next
    case (Cons y ys)
    have "squeeze False (x @ '','' @ join '','' xs @ r) = x @ '','' @ join '','' xs @ squeeze False r"
      using Cons.prems [of x] Cons.IH Cons.prems by (simp add: squeeze_plain json_space_def)
    then show ?thesis using Cons by simp
  qed
qed simp

lemma squeeze_print: "writable n v \<Longrightarrow> squeeze False (print_json v @ r) = print_json v @ squeeze False r"
proof (induction n v arbitrary: r rule: writable.induct)
  case (2 n vs)
  then have "squeeze False (join '','' (map print_json vs) @ r) = join '','' (map print_json vs) @ squeeze False r" for r
    by (intro squeeze_join) (auto simp: list_all_iff)
  then show ?case by (simp add: squeeze_plain json_space_def)
next
  case (3 n kvs)
  have "squeeze False (print_member kv @ r) = print_member kv @ squeeze False r" if "kv \<in> set kvs" for kv r
    using 3 that by (auto simp: print_member_def squeeze_string squeeze_plain json_space_def list_all_iff)
  then have "squeeze False (join '','' (map print_member kvs) @ r) = join '','' (map print_member kvs) @ squeeze False r" for r
    by (intro squeeze_join) auto
  then show ?case unfolding print_TObj by (simp add: squeeze_plain json_space_def)
qed (auto simp: squeeze_number squeeze_string squeeze_plain json_space_def)

lemma marshal_raw_print: "writable max_nesting v \<Longrightarrow> marshal_raw (print_json v) = Some (print_json v)"
  using squeeze_print [of max_nesting v "[]"] by (simp add: marshal_raw_def tree_print squeeze_plain)

subsection \<open>Structs that are written are read back\<close>

lemma unmarshal_known_fields:
  assumes "writable max_nesting (TObj kvs)" and "list_all (\<lambda>kv. fst kv \<in> set names \<and> is_ascii (fst kv)) kvs"
  shows "unmarshal_fields names (print_json (TObj kvs)) = Some (map (\<lambda>(k, v). (k, print_json v, sanitize_tree v)) kvs)"
proof -
  have "List.map_filter (\<lambda>(k, raw, v). map_option (\<lambda>f. (f, raw, v)) (field_for names k)) (map raw_entry kvs)
      = map (\<lambda>(k, v). (k, print_json v, sanitize_tree v)) kvs"
    using assms(2) by (induction kvs) (auto simp: List.map_filter_simps raw_entry_def field_for_def)
  then show ?thesis using unmarshal_fields_print [OF assms(1)] by simp
qed

lemma field_values_known: "field_values (map (\<lambda>(k, v). (k, print_json v, sanitize_tree v)) kvs) = map (\<lambda>(k, v). (k, sanitize_tree v)) kvs"
  by (auto simp: field_values_def)

lemma values_of_known: "values_of (map (\<lambda>(k, v). (k, g v)) kvs) f = map (g \<circ> snd) (filter (\<lambda>kv. fst kv = f) kvs)"
  by (induction kvs) (auto simp: values_of_def)

lemma field_raw_known: "field_raw (map (\<lambda>(k, v). (k, print_json v, sanitize_tree v)) kvs) f =
    (case filter (\<lambda>kv. fst kv = f) kvs of [] \<Rightarrow> [] | xs \<Rightarrow> print_json (snd (last xs)))"
proof -
  have "filter (\<lambda>m. fst m = f) (map (\<lambda>(k, v). (k, print_json v, sanitize_tree v)) kvs) =
      map (\<lambda>(k, v). (k, print_json v, sanitize_tree v)) (filter (\<lambda>kv. fst kv = f) kvs)"
    by (induction kvs) auto
  then show ?thesis by (auto simp: field_raw_def last_map split: list.splits prod.splits)
qed

definition given :: "bool \<Rightarrow> string \<Rightarrow> jtree \<Rightarrow> (string \<times> jtree) list" where
  "given b k v = (if b then [(k, v)] else [])"

lemma filter_given: "filter (\<lambda>kv. fst kv = f) (given b k v) = given (b \<and> k = f) k v"
  by (simp add: given_def)

definition written :: "jtree option \<Rightarrow> string" where
  "written r = (case r of None \<Rightarrow> [] | Some v \<Rightarrow> print_json v)"

definition frame_members :: "frame \<Rightarrow> jtree option \<Rightarrow> jtree option \<Rightarrow> (string \<times> jtree) list" where
  "frame_members f a r =
     given True ''type'' (TStr (f_type f)) @ given (f_id f \<noteq> []) ''id'' (TStr (f_id f)) @ given (f_tool f \<noteq> []) ''tool'' (TStr (f_tool f)) @
     given (a \<noteq> None) ''args'' (the a) @ given (f_ok f) ''ok'' (TBool True) @ given (r \<noteq> None) ''result'' (the r) @
     given (f_error f \<noteq> None) ''error'' (error_tree (the (f_error f)))"

lemma raw_field_written:
  assumes "case r of None \<Rightarrow> True | Some v \<Rightarrow> writable max_nesting v"
  shows "raw_field name (written r) = Some (map print_member (given (r \<noteq> None) name (the r)))"
  using assms print_json_start marshal_raw_print
  by (auto simp: raw_field_def written_def given_def print_member_def split: option.splits)

lemma frame_text_written:
  assumes "f_args f = written a" "f_result f = written r"
    and "case a of None \<Rightarrow> True | Some v \<Rightarrow> writable max_nesting v" "case r of None \<Rightarrow> True | Some v \<Rightarrow> writable max_nesting v"
  shows "frame_text f = Some (print_json (TObj (frame_members f a r)))"
proof -
  have plain: "plain_field b k v = map print_member (given (\<not> b) k v)" for b k v by (simp add: plain_field_def given_def)
  have "(case f_error f of None \<Rightarrow> [] | Some e \<Rightarrow> plain_field False ''error'' (error_tree e)) =
      map print_member (given (f_error f \<noteq> None) ''error'' (error_tree (the (f_error f))))"
    by (auto simp: plain given_def split: option.splits)
  then show ?thesis
    unfolding print_TObj frame_members_def frame_text_def using assms
    by (simp add: raw_field_written plain struct_text_def)
qed

text \<open>Strings that are not UTF-8 are made valid by the encoding.\<close>

definition sanitize_frame :: "frame \<Rightarrow> frame" where
  "sanitize_frame f = f\<lparr>f_type := sanitize (f_type f), f_id := sanitize (f_id f), f_tool := sanitize (f_tool f),
     f_error := map_option (\<lambda>e. \<lparr>err_code = sanitize (err_code e), err_message = sanitize (err_message e)\<rparr>) (f_error f)\<rparr>"

lemma store_error_tree:
  "store_error None (sanitize_tree (error_tree e)) =
     Some (Some \<lparr>err_code = sanitize (err_code e), err_message = sanitize (err_message e)\<rparr>)"
  by (simp add: store_error_def error_tree_def object_fields_def field_for_def List.map_filter_simps values_of_def is_ascii_def)

lemma frame_of_members:
  assumes "f_args f = written a" "f_result f = written r"
    and "case a of None \<Rightarrow> True | Some v \<Rightarrow> writable (max_nesting - 1) v" "case r of None \<Rightarrow> True | Some v \<Rightarrow> writable (max_nesting - 1) v"
  shows "frame_of_text (print_json (TObj (frame_members f a r))) = Some (sanitize_frame f)"
proof -
  let ?kvs = "frame_members f a r" and ?names = "[''type'', ''id'', ''tool'', ''args'', ''ok'', ''result'', ''error'']"
  let ?ms = "map (\<lambda>(k, v). (k, print_json v, sanitize_tree v)) ?kvs"
  have "writable max_nesting (TObj ?kvs)"
    using assms(3,4) by (auto simp: frame_members_def given_def max_nesting_def error_tree_def split: option.splits)
  moreover have "list_all (\<lambda>kv. fst kv \<in> set ?names \<and> is_ascii (fst kv)) ?kvs"
    by (simp add: frame_members_def given_def is_ascii_def)
  ultimately have ms: "unmarshal_fields ?names (print_json (TObj ?kvs)) = Some ?ms" by (rule unmarshal_known_fields)
  have at: "filter (\<lambda>kv. fst kv = ''type'') ?kvs = given True ''type'' (TStr (f_type f))"
    "filter (\<lambda>kv. fst kv = ''id'') ?kvs = given (f_id f \<noteq> []) ''id'' (TStr (f_id f))"
    "filter (\<lambda>kv. fst kv = ''tool'') ?kvs = given (f_tool f \<noteq> []) ''tool'' (TStr (f_tool f))"
    "filter (\<lambda>kv. fst kv = ''args'') ?kvs = given (a \<noteq> None) ''args'' (the a)"
    "filter (\<lambda>kv. fst kv = ''ok'') ?kvs = given (f_ok f) ''ok'' (TBool True)"
    "filter (\<lambda>kv. fst kv = ''result'') ?kvs = given (r \<noteq> None) ''result'' (the r)"
    "filter (\<lambda>kv. fst kv = ''error'') ?kvs = given (f_error f \<noteq> None) ''error'' (error_tree (the (f_error f)))"
    by (simp_all add: frame_members_def filter_given) (simp_all add: given_def)
  have str: "get_string (field_values ?ms) ''type'' = Some (sanitize (f_type f))" "get_string (field_values ?ms) ''id'' = Some (sanitize (f_id f))"
    "get_string (field_values ?ms) ''tool'' = Some (sanitize (f_tool f))" "get_bool (field_values ?ms) ''ok'' = Some (f_ok f)"
    by (simp_all add: get_string_def get_bool_def field_values_known values_of_known at given_def)
  have err: "store_all store_error None (values_of (field_values ?ms) ''error'') = Some (f_error (sanitize_frame f))"
    by (auto simp: field_values_known values_of_known at given_def store_error_tree sanitize_frame_def)
  have raws: "field_raw ?ms ''args'' = f_args f" "field_raw ?ms ''result'' = f_result f"
    using assms(1,2) by (auto simp: field_raw_known at given_def written_def)
  show ?thesis unfolding frame_of_text_def ms by (simp add: str err raws) (simp add: sanitize_frame_def)
qed

text \<open>What a frame is read as after it was written: the raw parts are texts that were encoded before.\<close>

definition canonical :: "string \<Rightarrow> bool" where
  "canonical raw \<longleftrightarrow> raw = [] \<or> (\<exists>v. writable (max_nesting - 1) v \<and> raw = print_json v)"

lemma canonical_written: "canonical raw \<Longrightarrow> \<exists>r. raw = written r \<and> (case r of None \<Rightarrow> True | Some v \<Rightarrow> writable (max_nesting - 1) v)"
  unfolding canonical_def written_def by (metis option.simps(4,5))

lemma frame_text_read:
  assumes "canonical (f_args f)" and "canonical (f_result f)"
  obtains t where "frame_text f = Some t" and "frame_of_text t = Some (sanitize_frame f)"
proof -
  obtain a r where ar: "f_args f = written a" "f_result f = written r"
      "case a of None \<Rightarrow> True | Some v \<Rightarrow> writable (max_nesting - 1) v" "case r of None \<Rightarrow> True | Some v \<Rightarrow> writable (max_nesting - 1) v"
    using assms canonical_written by metis
  then have "case a of None \<Rightarrow> True | Some v \<Rightarrow> writable max_nesting v" "case r of None \<Rightarrow> True | Some v \<Rightarrow> writable max_nesting v"
    using writable_mono [of "max_nesting - 1" _ max_nesting] by (auto split: option.splits)
  then show thesis using that frame_text_written frame_of_members ar by blast
qed

lemma frame_crosses:
  assumes "send_frame c st f = Some (Inr u, st')" and "canonical (f_args f)" "canonical (f_result f)"
    and "\<forall>k m. rsrc st k = Some m \<longrightarrow> length m = 4" and "role d \<noteq> role c" "maxb d = maxb c" "maxb c < 2 ^ 63"
    and "inp sd = drop (length (outp st)) (outp st')"
  shows "receive_frame d sd = (Inr (Some (sanitize_frame f)), sd\<lparr>inp := []\<rparr>)"
proof -
  obtain t where t: "frame_text f = Some t" "frame_of_text t = Some (sanitize_frame f)" using frame_text_read [OF assms(2,3)] .
  then have w: "write_message c st (bytes_of_string t) = (Inr u, st')" using assms(1) by (simp add: send_frame_def)
  then have "length (bytes_of_string t) \<le> maxb d" using assms(6) by (simp add: write_message_def split: if_splits)
  then obtain wire where "outp st' = outp st @ wire"
      "\<forall>sd rest. inp sd = wire @ rest \<longrightarrow> read_message d sd = (Inr (bytes_of_string t), sd\<lparr>inp := rest\<rparr>)"
    using message_roundtrip [OF w assms(4,5) _ assms(7)] by blast
  then have "read_message d sd = (Inr (bytes_of_string t), sd\<lparr>inp := []\<rparr>)" using assms(8) by simp
  then show ?thesis using t(2) by (simp add: receive_frame_def)
qed

lemma send_frame_open:
  assumes "frame_text f = Some t" and "length t \<le> maxb c" and "wbudget st = None" and "rsrc st (rpos st) \<noteq> None"
  shows "\<exists>st'. send_frame c st f = Some (Inr (), st')"
  using assms by (auto simp: send_frame_def write_message_def write_frame_def conn_write_def Let_def bytes_of_string_def)

subsection \<open>The frames of a call\<close>

definition encode_result :: "encoding_env \<Rightarrow> tool_value \<Rightarrow> string option" where
  "encode_result en v = map_option print_json (encode_value en v)"

lemma canonical_result: "canonical (f_args (result_frame (encode_result en) message rid r))" "canonical (f_result (result_frame (encode_result en) message rid r))"
proof -
  have "canonical (print_json t)" if "encode_value en v = Some t" for v t
    using encode_value_shallow [OF that, of "max_nesting - 1"] by (auto simp: canonical_def max_nesting_def)
  moreover have "canonical []" by (simp add: canonical_def)
  ultimately show "canonical (f_args (result_frame (encode_result en) message rid r))" "canonical (f_result (result_frame (encode_result en) message rid r))"
    by (auto simp: result_frame_def Let_def empty_frame_def encode_result_def split: sum.splits option.splits)
qed

lemma classify_ascii: "sanitize (classify e) = classify e"
  by (simp add: classify_def ErrorForbidden_def ErrorNotFound_def ErrorExecution_def is_ascii_def)

lemma sanitize_result:
  "sanitize_frame (result_frame enc message rid r) = result_frame enc (\<lambda>e. sanitize (message e)) (sanitize rid) r"
proof -
  have "sanitize TypeResult = TypeResult" "sanitize ErrorInternal = ErrorInternal"
      "sanitize ''could not encode result'' = ''could not encode result''"
    by (simp_all add: TypeResult_def ErrorInternal_def is_ascii_def)
  then show ?thesis
    by (auto simp: sanitize_frame_def result_frame_def Let_def empty_frame_def classify_ascii split: sum.splits option.splits)
qed

lemma sanitize_call:
  assumes "sanitize (k_id x) = k_id x" and "sanitize (k_tool x) = k_tool x"
  shows "sanitize_frame (call_frame x) = call_frame x"
  using assms by (simp add: sanitize_frame_def call_frame_def empty_frame_def TypeCall_def is_ascii_def)

section \<open>Properties\<close>

text \<open>
  C4. A call crosses the wire and its answer comes back. Take a call of the hub that is registered on a
  connection and has no answer yet, with arguments that JSON has written. When the hub has written the frame of the call as a
  message, the agent reads from these bytes exactly this frame, accepts it, and executes the tool with the arguments.
  When the agent has written the frame with the result, the hub reads from those bytes a frame that answers this call and no
  other, without an effect on the connection: with the text of the value that the executor returned, or with the code that \<^verbatim>\<open>classify\<close> gives to its error
  and the text of the error made valid UTF-8.
\<close>

theorem call_crosses_the_wire:
  assumes "hub_reach n h" and "c < length (hub_conns h)" and "c_pending (hub_conns h ! c) (k_id x) = Some k"
    and "x = hub_calls h ! k" "k_chan x = None" "k_id x \<noteq> []" "k_tool x \<noteq> []" "sanitize (k_id x) = k_id x" "sanitize (k_tool x) = k_tool x"
    and "k_args x = print_json a" "writable (max_nesting - 1) a"
    and conns: "role sc = Server" "role ac = Client" "maxb ac = maxb sc" "maxb sc < 2 ^ 63"
      "\<forall>k m. rsrc st k = Some m \<longrightarrow> length m = 4" "\<forall>k m. rsrc sa k = Some m \<longrightarrow> length m = 4"
    and sent: "send_frame sc st (call_frame x) = Some (Inr u, st')" "inp sa = drop (length (outp st)) (outp st')"
  shows "receive_frame ac sa = (Inr (Some (call_frame x)), sa\<lparr>inp := []\<rparr>) \<and>
    on_frame (Some (call_frame x)) = Inr [HandleCall (call_frame x)] \<and>
    (\<forall>out s' v sa' sh. handle_call ex d w (encode_result en) message (call_frame x) s = (out, s') \<and>
       send_frame ac (sa\<lparr>inp := []\<rparr>) out = Some (Inr v, sa') \<and> inp sh = drop (length (outp sa)) (outp sa') \<longrightarrow>
       s' = snd (execute ex d w (k_tool x) (k_args x) s) \<and>
       (\<exists>g. receive_frame sc sh = (Inr (Some g), sh\<lparr>inp := []\<rparr>) \<and>
         c_phase (hub_conns (receive c g h) ! c) = c_phase (hub_conns h ! c) \<and>
         hub_calls (receive c g h) = (hub_calls h)[k := x\<lparr>k_chan := Some (Inr (outcome_of (encode_result en) (\<lambda>e. sanitize (message e))
           (fst (execute ex d w (k_tool x) (k_args x) s))))\<rparr>]))"
proof (intro conjI allI impI; (elim conjE)?)
  have args: "canonical (f_args (call_frame x))" "canonical (f_result (call_frame x))"
    using assms(10,11) by (auto simp: call_frame_def empty_frame_def canonical_def)
  show "receive_frame ac sa = (Inr (Some (call_frame x)), sa\<lparr>inp := []\<rparr>)"
    using frame_crosses [OF sent(1) args conns(5) _ conns(3,4) sent(2)] conns(1,2) sanitize_call [OF assms(8,9)] by simp
  have "k_args x \<noteq> []" using assms(10) print_json_start [OF assms(11)] by simp
  note answer = agent_answers_call [OF assms(1-3) assms(5) [unfolded assms(4)] assms(6) assms(7) [unfolded assms(4)] this [unfolded assms(4)],
      folded assms(4)]
  have run: "handle_call ex d w (encode_result en) y (call_frame x) s =
      (result_frame (encode_result en) y (k_id x) (fst (execute ex d w (k_tool x) (k_args x) s)), snd (execute ex d w (k_tool x) (k_args x) s))" for y
    by (simp add: handle_call_def call_frame_def empty_frame_def split: prod.splits)
  show "on_frame (Some (call_frame x)) = Inr [HandleCall (call_frame x)]" using answer [OF run] by blast
  fix out s' v sa' and sh :: ws_state
  assume out: "handle_call ex d w (encode_result en) message (call_frame x) s = (out, s')"
    and reply: "send_frame ac (sa\<lparr>inp := []\<rparr>) out = Some (Inr v, sa')" "inp sh = drop (length (outp sa)) (outp sa')"
  then show "s' = snd (execute ex d w (k_tool x) (k_args x) s)" using run [of message] by simp
  let ?g = "result_frame (encode_result en) (\<lambda>e. sanitize (message e)) (k_id x) (fst (execute ex d w (k_tool x) (k_args x) s))"
  have res: "out = result_frame (encode_result en) message (k_id x) (fst (execute ex d w (k_tool x) (k_args x) s))" using out run [of message] by simp
  then have "sanitize_frame out = ?g" by (simp add: sanitize_result assms(8))
  moreover have "receive_frame sc sh = (Inr (Some (sanitize_frame out)), sh\<lparr>inp := []\<rparr>)"
    using frame_crosses [OF reply(1), of sc sh] reply(2) conns canonical_result res by simp
  ultimately show "\<exists>g. receive_frame sc sh = (Inr (Some g), sh\<lparr>inp := []\<rparr>) \<and>
      c_phase (hub_conns (receive c g h) ! c) = c_phase (hub_conns h ! c) \<and>
      hub_calls (receive c g h) = (hub_calls h)[k := x\<lparr>k_chan := Some (Inr (outcome_of (encode_result en) (\<lambda>e. sanitize (message e))
        (fst (execute ex d w (k_tool x) (k_args x) s))))\<rparr>]"
    using answer [OF run [of "\<lambda>e. sanitize (message e)"]] by auto
qed

definition demo_hub_end :: ws_conn where "demo_hub_end = \<lparr>role = Server, maxb = 1000\<rparr>"
definition demo_agent_end :: ws_conn where "demo_agent_end = \<lparr>role = Client, maxb = 1000\<rparr>"

definition demo_link :: "bytes \<Rightarrow> ws_state" where
  "demo_link b = \<lparr>inp = b, outp = [], wbudget = None, rsrc = (\<lambda>k. Some [1, 2, 3, 4]), rpos = 0\<rparr>"

definition demo_call_bytes :: bytes where
  "demo_call_bytes = outp (snd (the (send_frame demo_hub_end (demo_link []) (call_frame (hub_calls demo_waiting ! 0)))))"

definition demo_answer :: "frame \<times> agent_state" where
  "demo_answer = handle_call (new_executor demo_policy False) go_decoders demo_world (encode_result demo_encoding) (\<lambda>_. ''no'')
     (call_frame (hub_calls demo_waiting ! 0)) demo_agent"

definition demo_answer_bytes :: bytes where
  "demo_answer_bytes = outp (snd (the (send_frame demo_agent_end (demo_link []) (fst demo_answer))))"

theorem call_crosses_the_wire_witness:
  "\<exists>g. receive_frame demo_hub_end (demo_link demo_answer_bytes) = (Inr (Some g), demo_link []) \<and>
     k_chan (hub_calls (receive 0 g demo_waiting) ! 0) =
       Some (Inr \<lparr>r_value = [], r_error = Some \<lparr>err_code = ''execution_error'', err_message = ''no''\<rparr>\<rparr>)"
proof -
  let ?x = "hub_calls demo_waiting ! 0" and ?ex = "new_executor demo_policy False"
  have h: "0 < length (hub_conns demo_waiting)" "c_pending (hub_conns demo_waiting ! 0) (k_id ?x) = Some 0" "k_chan ?x = None"
    "k_id ?x = ''x''" "k_tool ?x = ''read_file''" "k_args ?x = print_json (TObj [])" "length (hub_calls demo_waiting) = 1"
    by (simp_all add: demo_hub_simps)
  have ascii: "sanitize (k_id ?x) = k_id ?x" "sanitize (k_tool ?x) = k_tool ?x" by (simp_all add: h is_ascii_def)
  have w: "writable (max_nesting - 1) (TObj [])" by (simp add: max_nesting_def)
  have call_text: "case frame_text (call_frame ?x) of Some t \<Rightarrow> length t \<le> 1000 | None \<Rightarrow> False" by code_simp
  have answer: "fst demo_answer = (empty_frame TypeResult)\<lparr>f_id := ''x'', f_error := Some \<lparr>err_code = ''execution_error'', err_message = ''no''\<rparr>\<rparr>"
    by code_simp
  have answer_text: "case frame_text (fst demo_answer) of Some t \<Rightarrow> length t \<le> 1000 | None \<Rightarrow> False" unfolding answer by code_simp
  obtain st' where st': "send_frame demo_hub_end (demo_link []) (call_frame ?x) = Some (Inr (), st')"
    using call_text send_frame_open [of "call_frame ?x" _ demo_hub_end "demo_link []"]
    by (auto simp: demo_hub_end_def demo_link_def split: option.splits)
  obtain sa' where sa': "send_frame demo_agent_end (demo_link []) (fst demo_answer) = Some (Inr (), sa')"
    using answer_text send_frame_open [of "fst demo_answer" _ demo_agent_end "demo_link []"]
    by (auto simp: demo_agent_end_def demo_link_def split: option.splits)
  have res: "result_frame (encode_result demo_encoding) (\<lambda>e. ''no'') ''x'' (fst (execute ?ex go_decoders demo_world (k_tool ?x) (k_args ?x) demo_agent)) = fst demo_answer"
    by (simp add: demo_answer_def handle_call_def call_frame_def empty_frame_def h(4) split: prod.splits)
  have ev: "outcome_of (encode_result demo_encoding) (\<lambda>e. sanitize ''no'') (fst (execute ?ex go_decoders demo_world (k_tool ?x) (k_args ?x) demo_agent)) =
      \<lparr>r_value = [], r_error = Some \<lparr>err_code = ''execution_error'', err_message = ''no''\<rparr>\<rparr>"
    unfolding result_frame_outcome [of _ _ "''x''", symmetric] by (simp add: is_ascii_def res answer empty_frame_def)
  have run: "handle_call ?ex go_decoders demo_world (encode_result demo_encoding) (\<lambda>_. ''no'') (call_frame ?x) demo_agent =
      (fst demo_answer, snd demo_answer)"
    by (simp add: demo_answer_def)
  have links: "demo_link b\<lparr>inp := []\<rparr> = demo_link []" "\<forall>k m. rsrc (demo_link b) k = Some m \<longrightarrow> length m = 4" "inp (demo_link b) = b"
      "outp (demo_link b) = []" for b by (auto simp: demo_link_def)
  have bytes: "inp (demo_link demo_call_bytes) = drop (length (outp (demo_link []))) (outp st')"
      "inp (demo_link demo_answer_bytes) = drop (length (outp (demo_link demo_call_bytes))) (outp sa')"
    by (simp_all add: demo_call_bytes_def demo_answer_bytes_def st' sa' links)
  have ends: "role demo_hub_end = Server" "role demo_agent_end = Client" "maxb demo_agent_end = maxb demo_hub_end" "maxb demo_hub_end < 2 ^ 63"
      "k_id ?x \<noteq> []" "k_tool ?x \<noteq> []"
    by (simp_all add: demo_hub_end_def demo_agent_end_def h)
  note crossed = call_crosses_the_wire [OF demo_waiting_reach h(1,2) refl h(3) ends(5,6) ascii h(6) w ends(1-4) links(2,2) st' bytes(1),
      THEN conjunct2, THEN conjunct2, rule_format, of ?ex go_decoders demo_world demo_encoding "\<lambda>_. ''no''" demo_agent "fst demo_answer"
        "snd demo_answer" "()" sa' "demo_link demo_answer_bytes", unfolded links(1)]
  obtain g where "receive_frame demo_hub_end (demo_link demo_answer_bytes) = (Inr (Some g), demo_link [])"
    "hub_calls (receive 0 g demo_waiting) = (hub_calls demo_waiting)[0 := ?x\<lparr>k_chan := Some (Inr (outcome_of (encode_result demo_encoding) (\<lambda>e. sanitize ''no'')
       (fst (execute ?ex go_decoders demo_world (k_tool ?x) (k_args ?x) demo_agent))))\<rparr>]"
    using crossed run sa' bytes(2) by blast
  then show ?thesis using h(7) ev by (intro exI [of _ g]) simp
qed

end
