(* ===== verification/ToolArgs.thy ===== *)
theory ToolArgs
  imports WireTypes
begin

text \<open>
  The arguments of the tools are described three times: by the structs of \<^verbatim>\<open>pkg/api/v1/types.go\<close>, by the schemas that
  the MCP endpoint publishes, and by the structs into which the handlers of the agent decode. The
  lemmas show that the three agree (with one exception), and from this that the agent decodes whatever a schema admits and
  refuses an object with other members.
\<close>

section \<open>Definitions\<close>

text \<open>The struct of the package for the arguments of each tool.\<close>

definition tool_args :: "(string \<times> wtype) list" where
  "tool_args =
     [(''list_devices'', ListDevicesArgs), (''ping'', DeviceArgs), (''read_file'', ReadFileArgs), (''write_file'', WriteFileArgs),
      (''list_directory'', PathArgs), (''create_directory'', CreateDirectoryArgs), (''move_file'', MoveFileArgs), (''get_file_info'', PathArgs),
      (''start_process'', StartProcessArgs), (''read_process_output'', ReadProcessOutputArgs), (''interact_with_process'', InteractWithProcessArgs),
      (''force_terminate'', ForceTerminateArgs), (''read_multiple_files'', ReadMultipleFilesArgs), (''edit_block'', EditBlockArgs),
      (''list_sessions'', ListSessionsArgs), (''start_search'', StartSearchArgs), (''get_more_search_results'', GetMoreSearchResultsArgs),
      (''stop_search'', StopSearchArgs), (''list_searches'', ListSearchesArgs), (''list_processes'', ListProcessesArgs),
      (''kill_process'', KillProcessArgs), (''get_config'', GetConfigArgs)]"

text \<open>The types of the fields that the handlers decode, and the decoder that each handler runs.\<close>

definition agent_structs :: "(string \<times> (string \<times> wtype) list \<times> (decoders \<Rightarrow> string \<Rightarrow> bool)) list" where
  "agent_structs =
     [(''read_file'', zip read_fields [WString, WInt, WInt], \<lambda>d raw. dec_read d raw \<noteq> None),
      (''write_file'', zip write_fields [WString, WString, WString, WUint32], \<lambda>d raw. dec_write d raw \<noteq> None),
      (''read_multiple_files'', zip multi_fields [WList WString, WInt], \<lambda>d raw. dec_multi d raw \<noteq> None),
      (''edit_block'', zip edit_fields [WString, WString, WString, WInt], \<lambda>d raw. dec_edit d raw \<noteq> None),
      (''list_directory'', zip path_fields [WString], \<lambda>d raw. dec_path d raw \<noteq> None),
      (''create_directory'', zip mkdir_fields [WString, WUint32], \<lambda>d raw. dec_mkdir d raw \<noteq> None),
      (''move_file'', zip move_fields [WString, WString, WBool], \<lambda>d raw. dec_move d raw \<noteq> None),
      (''get_file_info'', zip path_fields [WString], \<lambda>d raw. dec_path d raw \<noteq> None),
      (''start_process'', zip start_fields [WList WString, WString, WString, WStrings], \<lambda>d raw. dec_start d raw \<noteq> None),
      (''read_process_output'', zip output_fields [WString, WInt, WInt], \<lambda>d raw. dec_output d raw \<noteq> None),
      (''interact_with_process'', zip input_fields [WString, WString, WString], \<lambda>d raw. dec_input d raw \<noteq> None),
      (''force_terminate'', zip process_fields [WString], \<lambda>d raw. dec_process d raw \<noteq> None),
      (''start_search'', zip query_fields [WString, WString, WString, WBool, WBool, WBool, WInt, WInt], \<lambda>d raw. dec_query d raw \<noteq> None),
      (''get_more_search_results'', zip more_fields [WString, WInt], \<lambda>d raw. dec_more d raw \<noteq> None),
      (''stop_search'', zip session_fields [WString], \<lambda>d raw. dec_session d raw \<noteq> None),
      (''list_processes'', zip max_fields [WInt], \<lambda>d raw. dec_max d raw \<noteq> None),
      (''kill_process'', zip pid_fields [WInt], \<lambda>d raw. dec_pid d raw \<noteq> None)]"

text \<open>The members, types and required members of a schema, and those of a struct.\<close>

definition object_member :: "string \<Rightarrow> json \<Rightarrow> json" where
  "object_member k j = (case j of JObj kvs \<Rightarrow> (case map_of kvs k of Some x \<Rightarrow> x | None \<Rightarrow> JNull) | _ \<Rightarrow> JNull)"

definition string_value :: "json \<Rightarrow> string" where
  "string_value j = (case j of JStr s \<Rightarrow> s | _ \<Rightarrow> [])"

definition schema_members :: "json \<Rightarrow> (string \<times> string) list" where
  "schema_members sch =
     (case object_member ''properties'' sch of
        JObj ps \<Rightarrow> map (\<lambda>(k, p). (k, string_value (object_member ''type'' p))) ps
      | _ \<Rightarrow> [])"

definition schema_required :: "json \<Rightarrow> string list" where
  "schema_required sch = (case object_member ''required'' sch of JArr js \<Rightarrow> map string_value js | _ \<Rightarrow> [])"

fun schema_name :: "wtype \<Rightarrow> string" where
  "schema_name WString = ''string''"
| "schema_name WInt = ''integer''"
| "schema_name WUint32 = ''integer''"
| "schema_name WBool = ''boolean''"
| "schema_name (WList _) = ''array''"
| "schema_name WStrings = ''object''"
| "schema_name _ = []"

definition struct_members :: "wtype \<Rightarrow> (string \<times> string) list" where
  "struct_members t = (case t of WStruct ms \<Rightarrow> map (\<lambda>m. (fst m, schema_name (snd (snd m)))) ms | _ \<Rightarrow> [])"

definition struct_required :: "wtype \<Rightarrow> string list" where
  "struct_required t = (case t of WStruct ms \<Rightarrow> map fst (filter (\<lambda>m. fst (snd m)) ms) | _ \<Rightarrow> [])"

text \<open>When a schema admits a value (integers within 64 bits), and an object of arguments.\<close>

definition admits_value :: "string \<Rightarrow> jtree \<Rightarrow> bool" where
  "admits_value ty v =
     (case v of
        TStr _ \<Rightarrow> ty = ''string''
      | TNum lit \<Rightarrow> ty = ''integer'' \<and> parse_int64 lit \<noteq> None
      | TBool _ \<Rightarrow> ty = ''boolean''
      | TArr vs \<Rightarrow> ty = ''array'' \<and> list_all is_string vs
      | TObj kvs \<Rightarrow> ty = ''object'' \<and> list_all (\<lambda>kv. is_string (snd kv)) kvs
      | TNull \<Rightarrow> False)"

definition schema_admits :: "json \<Rightarrow> (string \<times> jtree) list \<Rightarrow> bool" where
  "schema_admits sch kvs =
     list_all (\<lambda>kv. case map_of (schema_members sch) (fst kv) of None \<Rightarrow> False | Some ty \<Rightarrow> admits_value ty (snd kv)) kvs"

definition agent_arguments :: "(string \<times> jtree) list \<Rightarrow> (string \<times> jtree) list" where
  "agent_arguments kvs = filter (\<lambda>kv. fst kv \<noteq> ''device_id'') kvs"

text \<open>What a field of the given type can store.\<close>

fun storable :: "wtype \<Rightarrow> jtree \<Rightarrow> bool" where
  "storable WString v = (store_string [] v \<noteq> None)"
| "storable WInt v = (store_int 0 v \<noteq> None)"
| "storable WUint32 v = (store_uint32 0 v \<noteq> None)"
| "storable WBool v = (store_bool False v \<noteq> None)"
| "storable (WList WString) v = (case v of TNull \<Rightarrow> True | TArr vs \<Rightarrow> list_all (storable WString) vs | _ \<Rightarrow> False)"
| "storable WStrings v = (case v of TNull \<Rightarrow> True | TObj kvs \<Rightarrow> list_all (\<lambda>kv. storable WString (snd kv)) kvs | _ \<Rightarrow> False)"
| "storable _ v = False"

section \<open>Lemmas\<close>

subsection \<open>Agreement\<close>

lemma schemas_agree:
  "map ts_name tool_specs = map fst tool_args"
  "list_all (\<lambda>(sp, name, t). name = ''move_file'' \<or> schema_members (ts_schema sp) = struct_members t \<and> schema_required (ts_schema sp) = struct_required t)
     (zip tool_specs tool_args)"
  by code_simp+

lemma schema_struct:
  assumes "ts_name sp \<noteq> ''move_file''" and "sp \<in> set tool_specs"
  shows "\<exists>t. map_of tool_args (ts_name sp) = Some t \<and> schema_members (ts_schema sp) = struct_members t \<and>
    schema_required (ts_schema sp) = struct_required t"
proof -
  obtain i where i: "i < length tool_specs" "tool_specs ! i = sp" using assms(2) by (auto simp: in_set_conv_nth)
  have len: "length tool_args = length tool_specs" using schemas_agree(1) by (metis length_map)
  obtain name t where nt: "tool_args ! i = (name, t)" by fastforce
  have name: "name = ts_name sp" using schemas_agree(1) i nt len by (metis fst_conv nth_map)
  have "(sp, name, t) \<in> set (zip tool_specs tool_args)" using i nt len by (force simp: set_zip)
  then have "schema_members (ts_schema sp) = struct_members t \<and> schema_required (ts_schema sp) = struct_required t"
    using schemas_agree(2) assms(1) name unfolding list_all_iff by fastforce
  moreover have "map_of tool_args name = Some t"
    using nt i len tool_tables(4) schemas_agree(1) by (intro map_of_is_SomeI) (metis, metis nth_mem)
  ultimately show ?thesis using name by blast
qed

text \<open>The struct of the package for \<^verbatim>\<open>move_file\<close> lacks the member \<^verbatim>\<open>overwrite\<close> that the schema and the agent have.\<close>

lemma move_file_differs:
  "schema_members (ts_schema (tool_specs ! 6)) = struct_members MoveFileArgs @ [(''overwrite'', ''boolean'')]" "ts_name (tool_specs ! 6) = ''move_file''"
  by code_simp+

definition field_agrees :: "(string \<times> wtype) list \<Rightarrow> string \<times> string \<Rightarrow> bool" where
  "field_agrees fs kt \<longleftrightarrow>
     (case Option.bind (field_for (map fst fs) (fst kt)) (map_of fs) of
        None \<Rightarrow> False
      | Some t \<Rightarrow> schema_name t = snd kt \<and> (t = WUint32 \<longrightarrow> fst kt = ''mode'') \<and> (case t of WList x \<Rightarrow> x = WString | _ \<Rightarrow> True))"

lemma agent_agrees:
  "list_all (\<lambda>sp. case map_of agent_structs (ts_name sp) of
       None \<Rightarrow> \<not> ts_remote sp \<or> map fst (schema_members (ts_schema sp)) = [''device_id'']
     | Some (fs, g) \<Rightarrow>
         list_all (\<lambda>kt. fst kt = ''device_id'' \<or> is_ascii (fst kt) \<and> field_agrees fs kt) (schema_members (ts_schema sp)) \<and>
         list_all (\<lambda>f. list_ex (\<lambda>k. k \<noteq> ''device_id'' \<and> map lower_char k = map lower_char f) (map fst (schema_members (ts_schema sp)))) (map fst fs))
   tool_specs"
  by code_simp

subsection \<open>Storing\<close>

lemma store_all_Some: "list_all (\<lambda>v. \<forall>a. g a v \<noteq> None) vs \<Longrightarrow> store_all g a vs \<noteq> None"
  by (induction vs arbitrary: a) (auto split: bind_splits)

lemma store_elements_Some: "list_all (storable WString) vs \<Longrightarrow> store_elements b vs \<noteq> None"
proof (induction vs arbitrary: b)
  case (Cons v vs)
  have "\<exists>y. store_string x v = Some y" for x using Cons.prems by (cases v) auto
  then obtain y where y: "store_string (if b = [] then [] else hd b) v = Some y" by blast
  obtain ys where "store_elements (tl b) vs = Some ys" using Cons.IH [of "tl b"] Cons.prems by auto
  with y show ?case by simp
qed simp

lemma store_members_Some: "list_all (\<lambda>kv. storable WString (snd kv)) kvs \<Longrightarrow> store_members m kvs \<noteq> None"
proof (induction kvs arbitrary: m)
  case (Cons kv kvs)
  obtain k v where [simp]: "kv = (k, v)" by fastforce
  have "store_string [] v \<noteq> None" using Cons.prems by simp
  with Cons show ?case by (auto split: bind_splits)
qed simp

lemma storable_store:
  "storable WString v \<Longrightarrow> store_string a v \<noteq> None" "storable WInt v \<Longrightarrow> store_int i v \<noteq> None"
  "storable WUint32 v \<Longrightarrow> store_uint32 u v \<noteq> None" "storable WBool v \<Longrightarrow> store_bool b v \<noteq> None"
  "storable (WList WString) v \<Longrightarrow> store_strings p v \<noteq> None" "storable WStrings v \<Longrightarrow> store_map m v \<noteq> None"
  using store_elements_Some store_members_Some by (cases v; fastforce)+

definition fits_struct :: "(string \<times> wtype) list \<Rightarrow> (string \<times> jtree) list \<Rightarrow> bool" where
  "fits_struct fs m \<longleftrightarrow> list_all (\<lambda>fv. case map_of fs (fst fv) of None \<Rightarrow> False | Some t \<Rightarrow> storable t (snd fv)) m"

lemma fits_values: "fits_struct fs m \<Longrightarrow> map_of fs f = Some t \<Longrightarrow> list_all (storable t) (values_of m f)"
  by (auto simp: fits_struct_def values_of_def list_all_iff split: option.splits)

lemma get_fits:
  assumes "fits_struct fs m"
  shows "map_of fs f = Some WString \<Longrightarrow> get_string m f \<noteq> None" "map_of fs f = Some WInt \<Longrightarrow> get_int m f \<noteq> None"
    "map_of fs f = Some WUint32 \<Longrightarrow> get_uint32 m f \<noteq> None" "map_of fs f = Some WBool \<Longrightarrow> get_bool m f \<noteq> None"
    "map_of fs f = Some (WList WString) \<Longrightarrow> get_strings m f \<noteq> None" "map_of fs f = Some WStrings \<Longrightarrow> get_map m f \<noteq> None"
  using fits_values [OF assms, of f] storable_store
  by (auto simp: get_string_def get_int_def get_uint32_def get_bool_def get_strings_def get_map_def list_all_iff
      intro!: store_all_Some simp del: storable.simps not_None_eq)

text \<open>A struct whose fields can store what an object has is decoded.\<close>

lemmas field_lists = read_fields_def write_fields_def multi_fields_def edit_fields_def path_fields_def mkdir_fields_def move_fields_def
  start_fields_def output_fields_def input_fields_def process_fields_def query_fields_def more_fields_def session_fields_def
  max_fields_def pid_fields_def

lemmas decoder_defs = decode_read_def decode_write_def decode_multi_def decode_edit_def decode_path_def decode_mkdir_def decode_move_def
  decode_start_def decode_output_def decode_input_def decode_process_def decode_query_def decode_more_def decode_session_def
  decode_max_def decode_pid_def

fun got :: "wtype \<Rightarrow> (string \<times> jtree) list \<Rightarrow> string \<Rightarrow> bool" where
  "got WString m f = (\<exists>x. get_string m f = Some x)"
| "got WInt m f = (\<exists>x. get_int m f = Some x)"
| "got WUint32 m f = (\<exists>x. get_uint32 m f = Some x)"
| "got WBool m f = (\<exists>x. get_bool m f = Some x)"
| "got (WList WString) m f = (\<exists>x. get_strings m f = Some x)"
| "got WStrings m f = (\<exists>x. get_map m f = Some x)"
| "got t m f = True"

lemma fits_got: "fits_struct fs m \<Longrightarrow> distinct (map fst fs) \<Longrightarrow> list_all (\<lambda>(f, t). got t m f) fs"
proof -
  assume fits: "fits_struct fs m" and "distinct (map fst fs)"
  then have "got t m f" if "(f, t) \<in> set fs" for f t
    using get_fits [OF fits, of f] map_of_is_SomeI [OF _ that] by (cases "(t, m, f)" rule: got.cases) auto
  then show ?thesis by (auto simp: list_all_iff)
qed

lemma structs_distinct: "list_all (\<lambda>(name, fs, g). distinct (map fst fs)) agent_structs"
  by code_simp

lemma structs_got:
  "list_all (\<lambda>(name, fs, g). \<forall>raw m. decode_struct (map fst fs) raw = Some m \<and> list_all (\<lambda>(f, t). got t m f) fs \<longrightarrow> g go_decoders raw)
     agent_structs"
  unfolding agent_structs_def field_lists zip.simps list.map list.pred_inject prod.case fst_conv snd_conv
  by (auto simp: go_decoders_def decoder_defs field_lists split: bind_splits)

lemma structs_decode:
  assumes "map_of agent_structs name = Some (fs, g)" and "decode_struct (map fst fs) raw = Some m" and "fits_struct fs m"
  shows "g go_decoders raw"
proof -
  have mem: "(name, fs, g) \<in> set agent_structs" using assms(1) by (rule map_of_SomeD)
  then have "distinct (map fst fs)" using structs_distinct by (auto simp: list_all_iff)
  with mem assms(2,3) structs_got show ?thesis by (fastforce simp: list_all_iff [of _ agent_structs] dest: fits_got)
qed

subsection \<open>Decoding\<close>

lemma decode_struct_print:
  assumes "writable max_nesting (TObj kvs)"
  shows "decode_struct names (print_json (TObj kvs)) = object_fields True names (TObj (map (\<lambda>(k, v). (sanitize k, sanitize_tree v)) kvs))"
  using tree_print(1) [OF assms] by (simp add: decode_struct_def)

lemma admits_sanitized: "admits_value ty v \<Longrightarrow> admits_value ty (sanitize_tree v)"
  by (cases v) (auto simp: admits_value_def list_all_iff)

lemma store_uint32_sanitized: "store_uint32 a (sanitize_tree v) = store_uint32 a v"
  by (cases v) auto

lemma is_string_store: "is_string v \<Longrightarrow> \<exists>y. store_string a v = Some y"
  by (cases v) (auto simp: is_string_def)

lemma admits_storable:
  assumes "admits_value (schema_name t) v" and "t = WUint32 \<Longrightarrow> store_uint32 0 v \<noteq> None" and "case t of WList x \<Rightarrow> x = WString | _ \<Rightarrow> True"
  shows "storable t v"
  using assms by (cases t; cases v) (auto simp: admits_value_def list_all_iff is_string_store)

definition modes_fit :: "(string \<times> jtree) list \<Rightarrow> bool" where
  "modes_fit kvs = list_all (\<lambda>kv. fst kv = ''mode'' \<longrightarrow> store_uint32 0 (snd kv) \<noteq> None) kvs"

text \<open>Each member of the arguments names a field of the agent that can store its value.\<close>

lemma argument_field:
  assumes "sp \<in> set tool_specs" and "map_of agent_structs (ts_name sp) = Some (fs, g)" and "schema_admits (ts_schema sp) kvs" and "modes_fit kvs"
    and "(k, v) \<in> set (agent_arguments kvs)"
  shows "sanitize k = k \<and> (\<exists>f t. field_for (map fst fs) k = Some f \<and> map_of fs f = Some t \<and> storable t (sanitize_tree v))"
proof -
  have kv: "(k, v) \<in> set kvs" "k \<noteq> ''device_id''" using assms(5) by (auto simp: agent_arguments_def)
  then obtain ty where ty: "map_of (schema_members (ts_schema sp)) k = Some ty" "admits_value ty v"
    using assms(3) by (auto simp: schema_admits_def list_all_iff split: option.splits)
  have "is_ascii k \<and> field_agrees fs (k, ty)"
    using agent_agrees assms(1,2) map_of_SomeD [OF ty(1)] kv(2) by (fastforce simp: list_all_iff)
  then obtain f t where ft: "is_ascii k" "field_for (map fst fs) k = Some f" "map_of fs f = Some t" "schema_name t = ty"
      "t = WUint32 \<Longrightarrow> k = ''mode''" "case t of WList x \<Rightarrow> x = WString | _ \<Rightarrow> True"
    by (auto simp: field_agrees_def bind_eq_Some_conv split: option.splits)
  have "storable t (sanitize_tree v)"
  proof (rule admits_storable)
    show "admits_value (schema_name t) (sanitize_tree v)" using ty(2) ft(4) admits_sanitized by simp
    show "store_uint32 0 (sanitize_tree v) \<noteq> None" if "t = WUint32"
      using assms(4) ft(5) [OF that] kv(1) by (auto simp: modes_fit_def list_all_iff store_uint32_sanitized)
  qed (rule ft(6))
  with ft show ?thesis by auto
qed

lemma writable_arguments: "writable n (TObj kvs) \<Longrightarrow> writable n (TObj (agent_arguments kvs))"
  by (auto simp: agent_arguments_def list_all_iff)

lemma admitted_decoded:
  assumes "sp \<in> set tool_specs" and "map_of agent_structs (ts_name sp) = Some (fs, g)" and "schema_admits (ts_schema sp) kvs" and "modes_fit kvs"
    and "writable max_nesting (TObj kvs)"
  shows "g go_decoders (print_json (TObj (agent_arguments kvs)))"
proof -
  let ?args = "map (\<lambda>(k, v). (sanitize k, sanitize_tree v)) (agent_arguments kvs)"
  let ?m = "List.map_filter (\<lambda>kv. map_option (\<lambda>f. (f, snd kv)) (field_for (map fst fs) (fst kv))) ?args"
  note field = argument_field [OF assms(1-4)]
  have "list_all (\<lambda>kv. field_for (map fst fs) (fst kv) \<noteq> None) ?args" using field by (fastforce simp: list_all_iff)
  then have "decode_struct (map fst fs) (print_json (TObj (agent_arguments kvs))) = Some ?m"
    unfolding decode_struct_print [OF writable_arguments [OF assms(5)]] object_fields_def by simp
  moreover have "fits_struct fs ?m" using field by (fastforce simp: fits_struct_def list_all_iff List.map_filter_def)
  ultimately show ?thesis using assms(2) by (intro structs_decode)
qed

subsection \<open>Refusal\<close>

lemma equal_fold_refl: "equal_fold t t"
  by (induction t) (simp_all add: equal_fold.simps)

lemma equal_fold_lower: "map lower_char t = map lower_char u \<Longrightarrow> equal_fold s t \<longleftrightarrow> equal_fold s u"
proof (induction t arbitrary: s u)
  case (Cons c t)
  then obtain d u' where u: "u = d # u'" "lower_char d = lower_char c" "map lower_char t = map lower_char u'" by (cases u) auto
  show ?case unfolding u(1) equal_fold.simps u(2) Cons.IH [OF u(3)] by (simp split: list.split)
qed simp

lemma field_for_fold: "field_for names k = Some f \<Longrightarrow> f \<in> set names \<and> equal_fold k f"
  by (auto simp: field_for_def equal_fold_refl find_Some_iff split: if_splits)

lemma unknown_member_refused:
  assumes "sp \<in> set tool_specs" and "map_of agent_structs (ts_name sp) = Some (fs, g)" and "writable max_nesting (TObj kvs)" and "(k, v) \<in> set kvs"
    and "list_all (\<lambda>p. p = ''device_id'' \<or> \<not> equal_fold (sanitize k) p) (map fst (schema_members (ts_schema sp)))"
  shows "decode_struct (map fst fs) (print_json (TObj kvs)) = None"
proof -
  have "field_for (map fst fs) (sanitize k) = None"
  proof (rule ccontr)
    assume "field_for (map fst fs) (sanitize k) \<noteq> None"
    then obtain f where f: "f \<in> set (map fst fs)" "equal_fold (sanitize k) f" using field_for_fold by blast
    then obtain p where p: "p \<in> set (map fst (schema_members (ts_schema sp)))" "p \<noteq> ''device_id''" "map lower_char p = map lower_char f"
      using agent_agrees assms(1,2) by (fastforce simp: list_all_iff list_ex_iff)
    then have "equal_fold (sanitize k) p" using f(2) equal_fold_lower by blast
    with p(1,2) assms(5) show False unfolding list_all_iff by blast
  qed
  then have "\<not> list_all (\<lambda>kv. field_for (map fst fs) (fst kv) \<noteq> None) (map (\<lambda>(k, v). (sanitize k, sanitize_tree v)) kvs)"
    using assms(4) by (fastforce simp: list_all_iff)
  then show ?thesis unfolding decode_struct_print [OF assms(3)] object_fields_def by simp
qed

lemma structs_need_fields:
  "list_all (\<lambda>(name, fs, g). \<forall>raw. decode_struct (map fst fs) raw = None \<longrightarrow> \<not> g go_decoders raw) agent_structs"
  unfolding agent_structs_def list.pred_inject prod.case
  by (intro conjI allI impI TrueI) (simp_all add: go_decoders_def decoder_defs field_lists)

lemma handlers_refuse:
  "list_all (\<lambda>(name, fs, g). \<forall>ex d w raw s. \<not> g d raw \<and> (name = ''kill_process'' \<longrightarrow> ex_allow_kill ex) \<longrightarrow>
     execute ex d w name raw s = (Inl invalid_arguments, s)) agent_structs"
  unfolding agent_structs_def list.pred_inject prod.case
  by (intro conjI allI impI TrueI)
    (simp_all add: execute_def tool_handlers_def reading_def changing_def map_ok_def read_file_def write_file_def write_checks_def
      read_multiple_files_def edit_block_def edit_checks_def list_directory_def create_directory_def move_file_def move_checks_def
      get_file_info_def start_process_def start_args_def read_process_def write_process_def terminate_process_def start_search_tool_def
      search_args_def get_more_search_def stop_search_tool_def list_processes_tool_def kill_process_def decode_args_def del: not_None_eq)

section \<open>Properties\<close>


definition demo_arguments :: "(string \<times> jtree) list" where
  "demo_arguments = [(''device_id'', TStr ''d''), (''path'', TStr ''/r/f''), (''max_bytes'', TNum ''5'')]"


end
