(* ===== verification/McpText.thy ===== *)
theory McpText
  imports MessageText ToolArgs
begin

text \<open>
  The messages of the MCP endpoint as text: how \<^verbatim>\<open>encoding/json\<close> reads the structs of
  \<^verbatim>\<open>internal/mcpserver/server.go\<close> and writes its answers, and with that the codec that the model of the
  endpoint takes as an argument. A value that is decoded into \<^verbatim>\<open>any\<close> has its numbers as \<^verbatim>\<open>float64\<close>: reading (\<open>pf\<close>)
  and writing (\<open>ff\<close>) of such numbers remain arguments, as do the quoting of strings in messages, the case mapping of
  characters outside ASCII and the texts of errors.
\<close>

section \<open>Definitions\<close>

subsection \<open>Values of type any\<close>

text \<open>A map holds the last of the values that an object has for a key.\<close>

definition any_map :: "(string \<times> 'a) list \<Rightarrow> (string \<times> 'a) list" where
  "any_map kvs = fold (\<lambda>(k, v). AList.update k v) kvs []"

fun tree_any :: "(string \<Rightarrow> 64 word option) \<Rightarrow> jtree \<Rightarrow> json option" where
  "tree_any pf TNull = Some JNull"
| "tree_any pf (TBool b) = Some (JBool b)"
| "tree_any pf (TNum lit) = map_option JFloat (pf lit)"
| "tree_any pf (TStr s) = Some (JStr s)"
| "tree_any pf (TArr vs) = map_option JArr (those (map (tree_any pf) vs))"
| "tree_any pf (TObj kvs) =
     map_option (\<lambda>ms. JObj (any_map ms)) (those (map (\<lambda>kv. map_option (Pair (fst kv)) (tree_any pf (snd kv))) kvs))"

text \<open>\<^verbatim>\<open>store.Device\<close>; a time whose year does not have four digits cannot be written.\<close>

definition stored_device :: "device \<Rightarrow> jtree option" where
  "stored_device d =
     (case (time_text (created_at d), map_option time_text (last_seen_at d), map_option time_text (revoked_at d)) of
        (Some created, seen, revoked) \<Rightarrow>
          if seen = Some None \<or> revoked = Some None then None
          else Some (TObj ([(''id'', TStr (dev_id d)), (''name'', TStr (dev_name d)), (''created_at'', TStr created)] @
            (case seen of Some (Some t) \<Rightarrow> [(''last_seen_at'', TStr t)] | _ \<Rightarrow> []) @
            (case revoked of Some (Some t) \<Rightarrow> [(''revoked_at'', TStr t)] | _ \<Rightarrow> []) @ [(''online'', TBool (online d))]))
      | _ \<Rightarrow> None)"

fun any_tree :: "(64 word \<Rightarrow> string) \<Rightarrow> json \<Rightarrow> jtree option" where
  "any_tree ff JNull = Some TNull"
| "any_tree ff (JBool b) = Some (TBool b)"
| "any_tree ff (JInt i) = Some (jint i)"
| "any_tree ff (JFloat x) = Some (TNum (ff x))"
| "any_tree ff (JStr s) = Some (TStr s)"
| "any_tree ff (JArr vs) = map_option TArr (those (map (any_tree ff) vs))"
| "any_tree ff (JObj kvs) = map_option jmap (those (map (\<lambda>kv. map_option (Pair (fst kv)) (any_tree ff (snd kv))) kvs))"
| "any_tree ff (JDevices ds) = map_option TArr (those (map stored_device ds))"

text \<open>\<^verbatim>\<open>json.Marshal\<close> of such a value, with no text when it fails.\<close>

definition any_text :: "(64 word \<Rightarrow> string) \<Rightarrow> json \<Rightarrow> string" where
  "any_text ff v = (case any_tree ff v of None \<Rightarrow> [] | Some t \<Rightarrow> print_json t)"

subsection \<open>Requests\<close>

definition decode_request :: "bytes \<Rightarrow> rpc_request option" where
  "decode_request b = do {
     ms \<leftarrow> unmarshal_fields [''jsonrpc'', ''id'', ''method'', ''params''] (string_of_bytes b);
     version \<leftarrow> get_string (field_values ms) ''jsonrpc'';
     meth \<leftarrow> get_string (field_values ms) ''method'';
     Some \<lparr>rq_jsonrpc = version, rq_id = field_raw ms ''id'', rq_method = meth, rq_params = field_raw ms ''params''\<rparr> }"

text \<open>A string of a struct when errors are ignored: a value of another type leaves it as it is.\<close>

definition lenient_string :: "string \<Rightarrow> string \<Rightarrow> string" where
  "lenient_string name raw =
     (case Option.bind (unmarshal_tree raw) (object_fields False [name]) of
        None \<Rightarrow> []
      | Some m \<Rightarrow> fold (\<lambda>v a. case store_string a v of None \<Rightarrow> a | Some x \<Rightarrow> x) (values_of m name) [])"

fun store_any_map :: "(string \<Rightarrow> 64 word option) \<Rightarrow> (string \<times> json) list \<Rightarrow> jtree \<Rightarrow> (string \<times> json) list option" where
  "store_any_map pf m TNull = Some []"
| "store_any_map pf m (TObj kvs) =
     map_option (\<lambda>ms. fold (\<lambda>(k, v). AList.update k v) ms m) (those (map (\<lambda>kv. map_option (Pair (fst kv)) (tree_any pf (snd kv))) kvs))"
| "store_any_map pf m _ = None"

definition meta_version :: "(string \<Rightarrow> 64 word option) \<Rightarrow> string \<Rightarrow> string" where
  "meta_version pf raw =
     (case do {
        t \<leftarrow> unmarshal_tree raw;
        m \<leftarrow> object_fields False [''_meta''] t;
        store_all (store_any_map pf) [] (values_of m ''_meta'') } of
        None \<Rightarrow> []
      | Some m \<Rightarrow> (case map_of m meta_key of Some (JStr s) \<Rightarrow> s | _ \<Rightarrow> []))"

text \<open>The name and the arguments of a tool call; the arguments are a map of raw values.\<close>

fun store_raw_map :: "(string \<times> string) list \<Rightarrow> (string \<times> string \<times> jtree) list \<Rightarrow> (string \<times> string) list option" where
  "store_raw_map m [] = Some m"
| "store_raw_map m ((f, raw, v) # ms) =
     (case v of
        TNull \<Rightarrow> store_raw_map [] ms
      | TObj _ \<Rightarrow>
          Option.bind (raw_members raw) (\<lambda>kvs. store_raw_map (fold (\<lambda>(k, r, x). AList.update k r) kvs m) ms)
      | _ \<Rightarrow> None)"

definition decode_call :: "string \<Rightarrow> (string \<times> (string \<times> string) list) option" where
  "decode_call raw = do {
     ms \<leftarrow> unmarshal_fields [''name'', ''arguments''] raw;
     name \<leftarrow> get_string (field_values ms) ''name'';
     args \<leftarrow> store_raw_map [] (filter (\<lambda>m. fst m = ''arguments'') ms);
     Some (name, args) }"

definition string_or_empty :: "string \<Rightarrow> string" where
  "string_or_empty raw = (case unmarshal_tree raw of Some (TStr s) \<Rightarrow> s | _ \<Rightarrow> [])"

record mcp_env =
  me_parse :: "string \<Rightarrow> 64 word option"
  me_format :: "64 word \<Rightarrow> string"
  me_quote :: "string \<Rightarrow> string"
  me_lower :: "string \<Rightarrow> string"
  me_error :: "relayerr \<Rightarrow> string"

definition go_codec :: "mcp_env \<Rightarrow> codec" where
  "go_codec e =
     \<lparr>cd_request = decode_request, cd_meta_version = meta_version (me_parse e), cd_init_version = lenient_string ''protocolVersion'',
      cd_name = lenient_string ''name'', cd_call = decode_call, cd_string = string_or_empty,
      cd_value = (\<lambda>raw. Option.bind (unmarshal_tree raw) (tree_any (me_parse e))), cd_encode = any_text (me_format e),
      cd_quote = me_quote e, cd_lower = me_lower e, cd_error = me_error e\<rparr>"

subsection \<open>Replies\<close>

text \<open>The text of an answer; \<^verbatim>\<open>Encode\<close> ends it with a new line and writes nothing when a value cannot be written.\<close>

definition rpc_error_tree :: "rpc_error \<Rightarrow> jtree" where
  "rpc_error_tree x = TObj [(''code'', jint (re_code x)), (''message'', TStr (re_message x))]"

definition response_text :: "mcp_env \<Rightarrow> rpc_response \<Rightarrow> string option" where
  "response_text e m = do {
     rid \<leftarrow> raw_field ''id'' (rs_id m);
     res \<leftarrow> (case rs_result m of None \<Rightarrow> Some [] | Some v \<Rightarrow> map_option (plain_field False ''result'') (any_tree (me_format e) v));
     Some (struct_text (plain_field False ''jsonrpc'' (TStr (rs_jsonrpc m)) @ rid @ res @
       (case rs_error m of None \<Rightarrow> [] | Some x \<Rightarrow> plain_field False ''error'' (rpc_error_tree x))) @ [CHR 0x0A]) }"

definition body_text :: "mcp_env \<Rightarrow> mcp_body \<Rightarrow> string" where
  "body_text e b =
     (case b of
        MEmpty \<Rightarrow> []
      | MText t \<Rightarrow> t @ [CHR 0x0A]
      | MJson v \<Rightarrow> (case any_tree (me_format e) v of None \<Rightarrow> [] | Some t \<Rightarrow> print_json t @ [CHR 0x0A])
      | MRpc m \<Rightarrow> (case response_text e m of None \<Rightarrow> [] | Some t \<Rightarrow> t))"

section \<open>Lemmas\<close>

subsection \<open>Raw members and the tree\<close>

text \<open>The part of the reader's work that is done above a given stack.\<close>

fun mode_fits :: "mode \<Rightarrow> container list \<Rightarrow> bool" where
  "mode_fits m [] = (m = BeginValue)"
| "mode_fits m (CArr _ # st) = (m = BeginValue \<or> m = BeginValueOrEmpty \<or> m = EndValue)"
| "mode_fits m (CObj _ # st) = (m = BeginStringOrEmpty \<or> m = BeginString \<or> m = EndValue)"
| "mode_fits m (CField _ _ # st) = (m = BeginValue \<or> m = BeginColon)"

definition waiting :: "container list \<Rightarrow> bool" where
  "waiting st \<longleftrightarrow> list_all (\<lambda>c. case c of CObj _ \<Rightarrow> False | _ \<Rightarrow> True) (tl st)"

lemma end_value_under:
  assumes "waiting st1" and "st1 = c # st2"
  shows "(\<exists>st3. end_value v (st2 @ st) = Open (st3 @ st) EndValue \<and> end_value v st2 = Open st3 EndValue \<and> mode_fits EndValue st3 \<and> waiting st3 \<and> st3 \<noteq> []) \<or>
    (st2 = [] \<and> end_value v st2 = Finished v)"
  using assms by (cases st2) (auto simp: end_value_def waiting_def split: container.splits)

lemma read_step_under:
  assumes "read_step m t (st1 @ st) = Some rd" and "mode_fits m st1" and "waiting st1"
  shows "(\<exists>st2 m2. rd = Open (st2 @ st) m2 \<and> read_step m t st1 = Some (Open st2 m2) \<and> mode_fits m2 st2 \<and> waiting st2 \<and> st2 \<noteq> []) \<or>
    (\<exists>v. read_step m t st1 = Some (Finished v) \<and> rd = end_value v st)"
proof (cases st1)
  case Nil
  with assms show ?thesis
    by (cases t) (auto simp: begin_value_def push_def end_value_def waiting_def split: if_splits)
next
  case (Cons c st2)
  note under = end_value_under [OF assms(3) Cons, of _ st]
  show ?thesis
    using assms under unfolding Cons
    by (cases m; cases c; cases t)
      (fastforce simp: begin_value_def begin_key_def close_def push_def end_value_def waiting_def split: if_splits jtree.splits container.splits)+
qed

lemma read_loop_under:
  "read_loop (st1 @ st) m s = Some res \<Longrightarrow> mode_fits m st1 \<Longrightarrow> waiting st1 \<Longrightarrow>
    \<exists>v r. read_loop st1 m s = Some (v, r) \<and> continue (end_value v st) r = Some res"
proof (induction "st1 @ st" m s arbitrary: st1 rule: read_loop.induct)
  case (1 m s)
  obtain t r1 where tok: "next_token s = Some (t, r1)" using "1.prems"(1) by (subst (asm) read_loop.simps) (auto split: option.splits)
  obtain rd where rd: "read_step m t (st1 @ st) = Some rd" using "1.prems"(1) tok by (subst (asm) read_loop.simps) (auto split: option.splits)
  have run: "continue rd r1 = Some res" using "1.prems"(1) read_loop_step [OF tok rd] by simp
  consider st2 m2 where "rd = Open (st2 @ st) m2" "read_step m t st1 = Some (Open st2 m2)" "mode_fits m2 st2" "waiting st2"
    | v where "read_step m t st1 = Some (Finished v)" "rd = end_value v st"
    using read_step_under [OF rd "1.prems"(2,3)] by blast
  then show ?case
  proof cases
    case 1
    then obtain v r where "read_loop st2 m2 r1 = Some (v, r)" "continue (end_value v st) r = Some res"
      using "1.hyps" [OF tok refl rd] run by auto
    then show ?thesis using read_loop_step [OF tok 1(2)] by auto
  next
    case 2
    then show ?thesis using read_loop_step [OF tok 2(1)] run by (auto simp: continue_def)
  qed
qed

lemma read_loop_spaces: "read_loop st m (dropWhile json_space s) = read_loop st m s"
proof -
  have "next_token (dropWhile json_space s) = next_token s" by (simp add: next_token_def dropWhile_idem)
  then show ?thesis by (subst (1 2) read_loop.simps) simp
qed

text \<open>The value of a member, read for itself and within its object.\<close>

lemma raw_value_under:
  assumes "read_loop [CField acc k] BeginValue s = Some res"
  obtains raw v r where "raw_value s = Some (raw, v, r)" "read_loop [CObj ((k, v) # acc)] EndValue r = Some res"
proof -
  obtain v r where "read_loop [] BeginValue s = Some (v, r)" "continue (end_value v [CField acc k]) r = Some res"
    using read_loop_under [of "[]" "[CField acc k]" BeginValue s res] assms by (auto simp: waiting_def)
  then show thesis using that by (auto simp: raw_value_def Let_def read_loop_spaces end_value_def)
qed

lemma read_loop_cases:
  assumes "read_loop st m s = Some res"
  obtains t r rd where "next_token s = Some (t, r)" "read_step m t st = Some rd" "continue rd r = Some res"
proof -
  obtain t r where tok: "next_token s = Some (t, r)" using assms by (subst (asm) read_loop.simps) (auto split: option.splits)
  obtain rd where rd: "read_step m t st = Some rd" using assms tok by (subst (asm) read_loop.simps) (auto split: option.splits)
  show thesis using that [OF tok rd] read_loop_step [OF tok rd] assms by simp
qed

lemma raw_rest_agrees:
  "read_loop [CObj acc] BeginString s = Some (v, r0) \<Longrightarrow>
    \<exists>ms. raw_rest s = Some ms \<and> v = TObj (rev acc @ map (\<lambda>(k, raw, x). (k, x)) ms)"
proof (induction s arbitrary: acc rule: length_induct)
  case (1 s)
  obtain k r1 where k: "next_token s = Some (TkLeaf (TStr k), r1)" "read_loop [CField acc k] BeginColon r1 = Some (v, r0)"
    using "1.prems" by (elim read_loop_cases) (auto simp: begin_key_def split: token.splits jtree.splits)
  obtain r2 where r2: "next_token r1 = Some (TkColon, r2)" "read_loop [CField acc k] BeginValue r2 = Some (v, r0)"
    using k(2) by (elim read_loop_cases) (auto split: if_splits)
  obtain raw x r3 where x: "raw_value r2 = Some (raw, x, r3)" "read_loop [CObj ((k, x) # acc)] EndValue r3 = Some (v, r0)"
    using raw_value_under [OF r2(2)] .
  have mem: "raw_member s = Some ((k, raw, x), r3)" using k(1) r2(1) x(1) by (simp add: raw_member_def)
  have short: "length r3 < length s" using mem by (rule raw_member_shorter)
  obtain t r4 rd where t: "next_token r3 = Some (t, r4)" "read_step EndValue t [CObj ((k, x) # acc)] = Some rd" "continue rd r4 = Some (v, r0)"
    using x(2) by (elim read_loop_cases)
  show ?case
  proof (cases "t = TkComma")
    case True
    then have "read_loop [CObj ((k, x) # acc)] BeginString r4 = Some (v, r0)" using t(2,3) by auto
    moreover have "length r4 < length s" using next_token_shorter [OF t(1)] short by simp
    ultimately obtain ms where "raw_rest r4 = Some ms" "v = TObj (rev ((k, x) # acc) @ map (\<lambda>(k, raw, x). (k, x)) ms)"
      using "1.IH" by blast
    then show ?thesis using mem t(1) True by (subst raw_rest.simps) auto
  next
    case False
    then have "t = TkRBrace" "v = TObj (rev ((k, x) # acc))"
      using t(2,3) by (auto simp: close_def end_value_def continue_def split: token.splits)
    then show ?thesis using mem t(1) by (subst raw_rest.simps) auto
  qed
qed

lemma next_token_leaf: "next_token s \<noteq> Some (TkLeaf (TObj kvs), r)"
  by (auto simp: next_token_def word_token_def punctuation_def split: list.splits if_splits option.splits)

lemma read_step_bottom:
  assumes "read_step m t (st @ [CArr vs]) = Some rd" and "mode_fits m (st @ [CArr vs])" and "waiting st"
  shows "(\<exists>st' vs' m'. rd = Open (st' @ [CArr vs']) m' \<and> mode_fits m' (st' @ [CArr vs']) \<and> waiting st') \<or> (\<exists>ws. rd = Finished (TArr ws))"
proof (cases st)
  case Nil
  have more: "\<exists>st' vs' m'. Open [c, CArr vs] m = Open (st' @ [CArr vs']) m' \<and> mode_fits m' (st' @ [CArr vs']) \<and> waiting st'"
    if "mode_fits m [c]" for c m
    using that by (intro exI [of _ "[c]"] exI [of _ vs] exI [of _ m]) (cases c; auto simp: waiting_def)
  have one: "\<exists>st' vs' m'. Open [CArr ws] m = Open (st' @ [CArr vs']) m' \<and> mode_fits m' (st' @ [CArr vs']) \<and> waiting st'"
    if "m \<in> {BeginValue, EndValue}" for ws m
    using that by (intro exI [of _ "[]"] exI [of _ ws] exI [of _ m]) (auto simp: waiting_def)
  show ?thesis
    using assms unfolding Nil
    by (cases m; cases t) (auto simp: begin_value_def close_def push_def end_value_def more one waiting_def split: if_splits)
next
  case (Cons c st2)
  then have "mode_fits m st" using assms(2) by (cases c) auto
  from read_step_under [OF assms(1) this assms(3)] show ?thesis
  proof (elim disjE exE conjE)
    fix st2 m2
    assume "rd = Open (st2 @ [CArr vs]) m2" "mode_fits m2 st2" "waiting st2" "st2 \<noteq> []"
    moreover from this have "mode_fits m2 (st2 @ [CArr vs])" by (cases "(m2, st2)" rule: mode_fits.cases) auto
    ultimately show ?thesis by blast
  next
    fix v
    assume "rd = end_value v [CArr vs]"
    then have "rd = Open ([] @ [CArr (v # vs)]) EndValue" by (simp add: end_value_def)
    then show ?thesis by (metis append_Nil list.pred_inject(1) list.sel(2) mode_fits.simps(2) waiting_def)
  qed
qed

lemma read_loop_bottom:
  "read_loop (st @ [CArr vs]) m s = Some (v, r) \<Longrightarrow> mode_fits m (st @ [CArr vs]) \<Longrightarrow> waiting st \<Longrightarrow> \<exists>ws. v = TArr ws"
proof (induction "st @ [CArr vs]" m s arbitrary: st vs rule: read_loop.induct)
  case (1 m s)
  obtain t r1 rd where tok: "next_token s = Some (t, r1)" "read_step m t (st @ [CArr vs]) = Some rd" "continue rd r1 = Some (v, r)"
    using "1.prems"(1) by (elim read_loop_cases)
  from read_step_bottom [OF tok(2) "1.prems"(2,3)] show ?case
  proof (elim disjE exE conjE)
    fix st' vs' m'
    assume "rd = Open (st' @ [CArr vs']) m'" "mode_fits m' (st' @ [CArr vs'])" "waiting st'"
    then show ?case using "1.hyps" [OF tok(1) refl tok(2)] tok(3) by auto
  next
    fix ws
    assume "rd = Finished (TArr ws)"
    then show ?case using tok(3) by (auto simp: continue_def)
  qed
qed

lemma raw_members_agree:
  assumes "unmarshal_tree s = Some (TObj kvs)"
  shows "\<exists>ms. raw_members s = Some ms \<and> kvs = map (\<lambda>(k, raw, x). (k, x)) ms"
proof -
  have no_list: "read_loop [CArr []] BeginValueOrEmpty x \<noteq> Some (TObj kvs, r)" for x r
    using read_loop_bottom [of "[]" "[]" BeginValueOrEmpty x "TObj kvs" r] by (auto simp: waiting_def)
  obtain r0 where "read_loop [] BeginValue s = Some (TObj kvs, r0)"
    using assms by (auto simp: unmarshal_tree_def split: option.splits if_splits)
  then obtain r1 where r1: "next_token s = Some (TkLBrace, r1)" "read_loop [CObj []] BeginStringOrEmpty r1 = Some (TObj kvs, r0)"
    using no_list next_token_leaf
    by (elim read_loop_cases) (auto simp: begin_value_def push_def end_value_def continue_def waiting_def split: token.splits if_splits)
  obtain t r2 rd where t: "next_token r1 = Some (t, r2)" "read_step BeginStringOrEmpty t [CObj []] = Some rd" "continue rd r2 = Some (TObj kvs, r0)"
    using r1(2) by (elim read_loop_cases)
  show ?thesis
  proof (cases "t = TkRBrace")
    case True
    then show ?thesis using t r1(1) by (auto simp: raw_members_def close_def end_value_def continue_def)
  next
    case False
    then have "read_loop [CObj []] BeginString r1 = Some (TObj kvs, r0)" using t read_loop_step [OF t(1), of BeginString "[CObj []]" rd] by simp
    then show ?thesis using raw_rest_agrees [of "[]" r1 "TObj kvs" r0] r1(1) t(1) False by (auto simp: raw_members_def split: token.splits)
  qed
qed

text \<open>Every object can be decoded into a struct of raw values and strings, whatever its text.\<close>

lemma unmarshal_fields_object:
  assumes "unmarshal_tree s = Some (TObj kvs)"
  shows "\<exists>ms. unmarshal_fields names s = Some ms \<and> object_fields False names (TObj kvs) = Some (field_values ms)"
proof -
  obtain ms where ms: "raw_members s = Some ms" "kvs = map (\<lambda>(k, raw, x). (k, x)) ms" using raw_members_agree [OF assms] by blast
  have "List.map_filter (\<lambda>kv. map_option (\<lambda>f. (f, snd kv)) (field_for names (fst kv))) (map (\<lambda>(k, raw, x). (k, x)) ms) =
      field_values (List.map_filter (\<lambda>(k, raw, v). map_option (\<lambda>f. (f, raw, v)) (field_for names k)) ms)"
    by (induction ms) (auto simp: List.map_filter_simps field_values_def split: option.splits)
  then show ?thesis using ms assms by (simp add: unmarshal_fields_def object_fields_def)
qed

lemma store_all_lenient:
  "store_all store_string a vs = Some x \<Longrightarrow> fold (\<lambda>v a. case store_string a v of None \<Rightarrow> a | Some x \<Rightarrow> x) vs a = x"
  by (induction vs arbitrary: a) (auto split: bind_splits)

lemma values_of_fields:
  "object_fields False names (TObj kvs) = Some m \<Longrightarrow> values_of m f = map snd (filter (\<lambda>kv. field_for names (fst kv) = Some f) kvs)"
proof -
  have "map snd (filter (\<lambda>fv. fst fv = f) (List.map_filter (\<lambda>kv. map_option (\<lambda>f. (f, snd kv)) (field_for names (fst kv))) kvs)) =
      map snd (filter (\<lambda>kv. field_for names (fst kv) = Some f) kvs)"
    by (induction kvs) (auto simp: List.map_filter_simps split: option.splits)
  then show "object_fields False names (TObj kvs) = Some m \<Longrightarrow> ?thesis" by (auto simp: object_fields_def values_of_def)
qed

lemma decode_call_name:
  assumes "decode_call p = Some (name, args)"
  shows "lenient_string ''name'' p = name"
proof -
  obtain ms where ms: "unmarshal_fields [''name'', ''arguments''] p = Some ms" "get_string (field_values ms) ''name'' = Some name"
    using assms by (auto simp: decode_call_def split: bind_splits)
  have "unmarshal_tree p = Some TNull \<or> (\<exists>kvs. unmarshal_tree p = Some (TObj kvs))"
    using ms(1) by (auto simp: unmarshal_fields_def split: option.splits jtree.splits)
  then show ?thesis
  proof (elim disjE exE)
    assume "unmarshal_tree p = Some TNull"
    then show ?thesis using ms
      by (simp add: unmarshal_fields_def lenient_string_def object_fields_def field_values_def get_string_def values_of_def)
  next
    fix kvs
    assume tree: "unmarshal_tree p = Some (TObj kvs)"
    have fold: "\<not> equal_fold ''arguments'' ''name''" by code_simp
    have "(field_for [''name'', ''arguments''] k = Some ''name'') = (field_for [''name''] k = Some ''name'')" for k
      using fold by (auto simp: field_for_def)
    then have "values_of (field_values ms) ''name'' = map snd (filter (\<lambda>kv. field_for [''name''] (fst kv) = Some ''name'') kvs)"
      using unmarshal_fields_object [OF tree, of "[''name'', ''arguments'']"] ms(1) values_of_fields by auto
    moreover obtain m where m: "object_fields False [''name''] (TObj kvs) = Some m" by (simp add: object_fields_def)
    ultimately have "store_all store_string [] (values_of m ''name'') = Some name"
      using ms(2) values_of_fields [OF m] by (simp add: get_string_def)
    then show ?thesis using store_all_lenient tree m by (simp add: lenient_string_def)
  qed
qed

interpretation go: mcp_codec "go_codec e" for e
  by unfold_locales (auto simp: go_codec_def intro: decode_call_name)

subsection \<open>Through any and back\<close>

text \<open>What decoding into \<^verbatim>\<open>any\<close> and encoding again make of a value: the keys of objects are sorted, the last value of a key stays.\<close>

fun norm_tree :: "jtree \<Rightarrow> jtree" where
  "norm_tree (TArr vs) = TArr (map norm_tree vs)"
| "norm_tree (TObj kvs) = jmap (any_map (map (\<lambda>kv. (fst kv, norm_tree (snd kv))) kvs))"
| "norm_tree t = t"

text \<open>The numbers that the two conversions of \<^verbatim>\<open>strconv\<close> keep as they are written.\<close>

fun exact_numbers :: "mcp_env \<Rightarrow> jtree \<Rightarrow> bool" where
  "exact_numbers e (TNum lit) = (case me_parse e lit of None \<Rightarrow> False | Some x \<Rightarrow> me_format e x = lit)"
| "exact_numbers e (TArr vs) = list_all (exact_numbers e) vs"
| "exact_numbers e (TObj kvs) = list_all (\<lambda>kv. exact_numbers e (snd kv)) kvs"
| "exact_numbers e _ = True"

lemma those_map_Some: "list_all (\<lambda>x. f x = Some (g x)) xs \<Longrightarrow> those (map f xs) = Some (map g xs)"
  by (induction xs) auto

definition on_values :: "('a \<Rightarrow> 'b) \<Rightarrow> (string \<times> 'a) list \<Rightarrow> (string \<times> 'b) list" where
  "on_values f kvs = map (\<lambda>kv. (fst kv, f (snd kv))) kvs"

lemma on_values_simps [simp]:
  "on_values f [] = []" "on_values f ((k, v) # kvs) = (k, f v) # on_values f kvs" "map fst (on_values f kvs) = map fst kvs"
  by (simp_all add: on_values_def)

lemma update_on_values: "AList.update k (f v) (on_values f m) = on_values f (AList.update k v m)"
  by (induction m) auto

lemma any_map_on_values: "any_map (on_values f kvs) = on_values f (any_map kvs)"
proof -
  have "fold (\<lambda>(k, v). AList.update k v) (on_values f kvs) (on_values f m) = on_values f (fold (\<lambda>(k, v). AList.update k v) kvs m)" for m
    by (induction kvs arbitrary: m) (auto simp: update_on_values split: prod.splits)
  from this [of "[]"] show ?thesis by (simp add: any_map_def)
qed

lemma fold_update_distinct:
  "distinct (map fst kvs) \<Longrightarrow> set (map fst kvs) \<inter> set (map fst m) = {} \<Longrightarrow> fold (\<lambda>(k, v). AList.update k v) kvs m = m @ kvs"
proof (induction kvs arbitrary: m)
  case (Cons kv kvs)
  have "k \<notin> set (map fst m) \<Longrightarrow> AList.update k v m = m @ [(k, v)]" for k v by (induction m) auto
  with Cons show ?case by (auto split: prod.splits)
qed simp

lemma any_map_distinct: "distinct (map fst kvs) \<Longrightarrow> any_map kvs = kvs"
  using fold_update_distinct [of kvs "[]"] by (simp add: any_map_def)

lemma any_map_subset: "set (any_map kvs) \<subseteq> set kvs"
proof -
  have "set (fold (\<lambda>(k, v). AList.update k v) kvs m) \<subseteq> set m \<union> set kvs" for m
  proof (induction kvs arbitrary: m)
    case (Cons kv kvs)
    from Cons [of "AList.update (fst kv) (snd kv) m"] show ?case
      using set_alist_update [of "fst kv" "snd kv" m] by (auto split: prod.splits)
  qed simp
  from this [of "[]"] show ?thesis by (simp add: any_map_def)
qed

lemma any_normal: "exact_numbers e t \<Longrightarrow> \<exists>v. tree_any (me_parse e) t = Some v \<and> any_tree (me_format e) v = Some (norm_tree t)"
proof (induction t rule: norm_tree.induct)
  case (1 vs)
  let ?f = "\<lambda>t. the (tree_any (me_parse e) t)"
  have step: "tree_any (me_parse e) t = Some (?f t) \<and> any_tree (me_format e) (?f t) = Some (norm_tree t)" if "t \<in> set vs" for t
    using 1 that by (fastforce simp: list_all_iff)
  then have "those (map (tree_any (me_parse e)) vs) = Some (map ?f vs)" by (intro those_map_Some) (simp add: list_all_iff)
  moreover have "those (map (any_tree (me_format e)) (map ?f vs)) = Some (map norm_tree vs)"
    unfolding map_map using step by (intro those_map_Some) (simp add: list_all_iff)
  ultimately show ?case by simp
next
  case (2 kvs)
  let ?f = "\<lambda>t. the (tree_any (me_parse e) t)"
  have step: "tree_any (me_parse e) (snd kv) = Some (?f (snd kv)) \<and> any_tree (me_format e) (?f (snd kv)) = Some (norm_tree (snd kv))"
    if "kv \<in> set kvs" for kv
    using 2 that by (fastforce simp: list_all_iff)
  then have "those (map (\<lambda>kv. map_option (Pair (fst kv)) (tree_any (me_parse e) (snd kv))) kvs) = Some (on_values ?f kvs)"
    unfolding on_values_def by (intro those_map_Some) (simp add: list_all_iff)
  moreover have "those (map (\<lambda>kv. map_option (Pair (fst kv)) (any_tree (me_format e) (snd kv))) (on_values ?f (any_map kvs))) =
      Some (on_values norm_tree (any_map kvs))"
    unfolding on_values_def map_map using step any_map_subset [of kvs] by (intro those_map_Some) (auto simp: list_all_iff)
  moreover have "norm_tree (TObj kvs) = jmap (on_values norm_tree (any_map kvs))"
    by (simp add: any_map_on_values [symmetric], simp add: on_values_def)
  ultimately show ?case by (simp add: any_map_on_values)
qed (auto split: option.splits)

subsection \<open>The text of a tool call\<close>

definition call_params :: "string \<Rightarrow> (string \<times> jtree) list \<Rightarrow> jtree" where
  "call_params name kvs = TObj [(''name'', TStr name), (''arguments'', TObj kvs)]"

definition call_request :: "jtree \<Rightarrow> string \<Rightarrow> (string \<times> jtree) list \<Rightarrow> string" where
  "call_request rid name kvs = print_json (TObj [(''jsonrpc'', TStr ''2.0''), (''id'', rid), (''method'', TStr ''tools/call''),
     (''params'', call_params name kvs)])"

lemma decode_request_text:
  assumes "writable (max_nesting - 1) rid" and "writable (max_nesting - 1) (call_params name kvs)"
  shows "decode_request (bytes_of_string (call_request rid name kvs)) =
    Some \<lparr>rq_jsonrpc = ''2.0'', rq_id = print_json rid, rq_method = ''tools/call'', rq_params = print_json (call_params name kvs)\<rparr>"
proof -
  let ?kvs = "[(''jsonrpc'', TStr ''2.0''), (''id'', rid), (''method'', TStr ''tools/call''), (''params'', call_params name kvs)]"
  have "writable max_nesting (TObj ?kvs)" using assms by (simp add: max_nesting_def)
  then have ms: "unmarshal_fields [''jsonrpc'', ''id'', ''method'', ''params''] (call_request rid name kvs) =
      Some (map (\<lambda>(k, v). (k, print_json v, sanitize_tree v)) ?kvs)"
    unfolding call_request_def by (rule unmarshal_known_fields) (simp add: is_ascii_def)
  show ?thesis
    unfolding decode_request_def string_of_bytes_of_string ms
    by (simp add: field_values_def field_raw_def get_string_def values_of_def is_ascii_def)
qed

lemma decode_call_text:
  assumes "writable max_nesting (call_params name kvs)"
  shows "decode_call (print_json (call_params name kvs)) =
    Some (sanitize name, any_map (map (\<lambda>kv. (sanitize (fst kv), print_json (snd kv))) kvs))"
proof -
  have w: "writable max_nesting (TObj kvs)" using assms writable_mono [of "max_nesting - 1" "TObj kvs" max_nesting] by (simp add: call_params_def)
  have ms: "unmarshal_fields [''name'', ''arguments''] (print_json (call_params name kvs)) =
      Some (map (\<lambda>(k, v). (k, print_json v, sanitize_tree v)) [(''name'', TStr name), (''arguments'', TObj kvs)])"
    unfolding call_params_def by (rule unmarshal_known_fields) (use assms in \<open>simp_all add: is_ascii_def call_params_def\<close>)
  have "fold (\<lambda>(k, r, x). AList.update k r) (map raw_entry kvs) m =
      fold (\<lambda>(k, v). AList.update k v) (map (\<lambda>kv. (sanitize (fst kv), print_json (snd kv))) kvs) m" for m
    by (induction kvs arbitrary: m) (simp_all add: raw_entry_def)
  then show ?thesis
    using raw_members_print [OF w]
    by (simp add: decode_call_def ms field_values_def get_string_def values_of_def any_map_def del: print_json.simps(6))
qed

lemma call_params_fields:
  "object_fields False [''name''] (sanitize_tree (call_params name kvs)) = Some [(''name'', TStr (sanitize name))]"
  "object_fields False [''_meta''] (sanitize_tree (call_params name kvs)) = Some []"
proof -
  have "\<not> equal_fold ''arguments'' ''name''" "\<not> equal_fold ''name'' ''_meta''" "\<not> equal_fold ''arguments'' ''_meta''" by code_simp+
  then show "object_fields False [''name''] (sanitize_tree (call_params name kvs)) = Some [(''name'', TStr (sanitize name))]"
    "object_fields False [''_meta''] (sanitize_tree (call_params name kvs)) = Some []"
    by (simp_all add: call_params_def object_fields_def field_for_def List.map_filter_simps is_ascii_def)
qed

lemma call_params_name:
  assumes "writable max_nesting (call_params name kvs)"
  shows "lenient_string ''name'' (print_json (call_params name kvs)) = sanitize name" "meta_version pf (print_json (call_params name kvs)) = []"
  using tree_print(2) [OF assms] by (simp_all add: lenient_string_def meta_version_def call_params_fields values_of_def meta_key_def)

lemma print_json_null: "writable n v \<Longrightarrow> print_json v = ''null'' \<longleftrightarrow> v = TNull"
  by (cases v) (auto simp: quote_def is_digit_def dest: number_literal_start)

subsection \<open>The arguments on their way to the agent\<close>

lemma exact_sanitized: "exact_numbers e (sanitize_tree v) = exact_numbers e v"
  by (induction v rule: sanitize_tree.induct) (auto simp: list_all_iff)

lemma writable_sanitized: "writable n v \<Longrightarrow> writable n (sanitize_tree v)"
  by (induction n v rule: writable.induct) (auto simp: list_all_iff)

lemma writable_norm: "writable n v \<Longrightarrow> writable n (norm_tree v)"
proof (induction n v rule: writable.induct)
  case (2 n vs)
  then show ?case by (auto simp: list_all_iff)
next
  case (3 n kvs)
  have "set (any_map (on_values norm_tree kvs)) \<subseteq> set (on_values norm_tree kvs)" by (rule any_map_subset)
  with 3 show ?case by (fastforce simp: writable_jmap list_all_iff on_values_def)
qed auto

lemma admits_norm: "admits_value ty v \<Longrightarrow> admits_value ty (norm_tree v)"
proof (cases v)
  case (TArr vs)
  moreover have "is_string t \<Longrightarrow> norm_tree t = t" for t by (cases t) (auto simp: is_string_def)
  moreover assume "admits_value ty v"
  ultimately show ?thesis by (auto simp: admits_value_def list_all_iff)
next
  case (TObj kvs)
  have "is_string t \<Longrightarrow> norm_tree t = t" for t by (cases t) (auto simp: is_string_def)
  moreover have "set (any_map (on_values norm_tree kvs)) \<subseteq> set (on_values norm_tree kvs)" by (rule any_map_subset)
  moreover assume "admits_value ty v"
  ultimately show ?thesis using TObj by (fastforce simp: admits_value_def list_all_iff jmap_def on_values_def)
qed (auto simp: admits_value_def)

text \<open>What the agent receives of the arguments.\<close>

definition relayed_arguments :: "(string \<times> jtree) list \<Rightarrow> (string \<times> jtree) list" where
  "relayed_arguments kvs = sort_key fst (on_values (\<lambda>v. norm_tree (sanitize_tree v)) (agent_arguments kvs))"

lemma decode_payload_text:
  assumes "list_all (\<lambda>kv. exact_numbers e (snd kv) \<and> writable max_nesting (snd kv)) kvs"
  obtains payload where "decode_payload (go_codec e) (AList.delete ''device_id'' (on_values print_json kvs)) = Some payload"
    "any_text (me_format e) (JObj payload) = print_json (TObj (relayed_arguments kvs))"
proof -
  let ?f = "\<lambda>v. the (tree_any (me_parse e) (sanitize_tree v))"
  have step: "tree_any (me_parse e) (sanitize_tree (snd kv)) = Some (?f (snd kv)) \<and>
      any_tree (me_format e) (?f (snd kv)) = Some (norm_tree (sanitize_tree (snd kv))) \<and> unmarshal_tree (print_json (snd kv)) = Some (sanitize_tree (snd kv))"
    if "kv \<in> set (agent_arguments kvs)" for kv
    using any_normal [of e "sanitize_tree (snd kv)"] tree_print(2) [of "snd kv"] assms that
    by (fastforce simp: exact_sanitized list_all_iff agent_arguments_def)
  have "AList.delete ''device_id'' (on_values print_json kvs) = on_values print_json (agent_arguments kvs)"
    by (induction kvs) (auto simp: agent_arguments_def on_values_def AList.delete_eq)
  moreover have "those (map (\<lambda>(k, raw). map_option (Pair k) (cd_value (go_codec e) raw)) (on_values print_json (agent_arguments kvs))) =
      Some (on_values ?f (agent_arguments kvs))"
    unfolding on_values_def map_map using step by (intro those_map_Some) (auto simp: list_all_iff go_codec_def)
  moreover have "those (map (\<lambda>kv. map_option (Pair (fst kv)) (any_tree (me_format e) (snd kv))) (on_values ?f (agent_arguments kvs))) =
      Some (on_values (\<lambda>v. norm_tree (sanitize_tree v)) (agent_arguments kvs))"
    unfolding on_values_def map_map using step by (intro those_map_Some) (auto simp: list_all_iff)
  ultimately show thesis
    using that [of "on_values ?f (agent_arguments kvs)"]
    by (simp add: decode_payload_def any_text_def jmap_def relayed_arguments_def)
qed

lemma relayed_decoded:
  assumes "sp \<in> set tool_specs" and "map_of agent_structs (ts_name sp) = Some (fs, g)" and "schema_admits (ts_schema sp) kvs" and "modes_fit kvs"
    and "list_all (\<lambda>kv. writable (max_nesting - 1) (snd kv)) kvs"
  shows "g go_decoders (print_json (TObj (relayed_arguments kvs)))"
proof -
  let ?kvs = "relayed_arguments kvs"
  have "agent_arguments ?kvs = ?kvs" by (auto simp: relayed_arguments_def agent_arguments_def on_values_def filter_id_conv)
  moreover have "schema_admits (ts_schema sp) ?kvs"
    using assms(3) admits_norm admits_sanitized
    by (fastforce simp: schema_admits_def relayed_arguments_def agent_arguments_def on_values_def list_all_iff split: option.splits)
  moreover have "modes_fit ?kvs"
  proof -
    have "store_uint32 0 v \<noteq> None \<Longrightarrow> norm_tree (sanitize_tree v) = v" for v by (cases v) auto
    then show ?thesis using assms(4) by (fastforce simp: modes_fit_def relayed_arguments_def agent_arguments_def on_values_def list_all_iff)
  qed
  moreover have "writable max_nesting (TObj ?kvs)"
    using assms(5) writable_norm writable_sanitized
    by (fastforce simp: relayed_arguments_def agent_arguments_def on_values_def list_all_iff max_nesting_def)
  ultimately show ?thesis using admitted_decoded [OF assms(1,2), of ?kvs] by simp
qed

lemma struct_tools: "map_of agent_structs name = Some x \<Longrightarrow> known_remote_tool name \<and> name \<notin> {[], ''list_devices''} \<and> sanitize name = name"
proof -
  assume "map_of agent_structs name = Some x"
  then have "name \<in> set (map fst agent_structs)" by (auto dest: map_of_SomeD intro!: rev_image_eqI)
  moreover have "list_all (\<lambda>n. known_remote_tool n \<and> n \<notin> {[], ''list_devices''} \<and> is_ascii n) (map fst agent_structs)"
    unfolding agent_structs_def list.map fst_conv by code_simp
  ultimately show ?thesis by (auto simp: list_all_iff)
qed

lemma admitted_keys:
  assumes "sp \<in> set tool_specs" and "map_of agent_structs (ts_name sp) = Some (fs, g)" and "schema_admits (ts_schema sp) kvs" and "modes_fit kvs"
  shows "map (\<lambda>kv. (sanitize (fst kv), print_json (snd kv))) kvs = on_values print_json kvs"
proof -
  have "sanitize (fst kv) = fst kv" if "kv \<in> set kvs" for kv
    using argument_field [OF assms, of "fst kv" "snd kv"] that by (cases "fst kv = ''device_id''") (auto simp: agent_arguments_def is_ascii_def)
  then show ?thesis by (simp add: on_values_def)
qed

lemma call_tool_relays_text:
  assumes "sp \<in> set tool_specs" and "map_of agent_structs (ts_name sp) = Some (fs, g)" and "schema_admits (ts_schema sp) kvs" and "modes_fit kvs"
    and "distinct (map fst kvs)" "map_of kvs ''device_id'' = Some (TStr did)" "sanitize did = did" "trim_space did \<noteq> []"
    and "writable (max_nesting - 1) (call_params (ts_name sp) kvs)" "list_all (\<lambda>kv. exact_numbers e (snd kv)) kvs"
    and "rq_params rq = print_json (call_params (ts_name sp) kvs)" and "sv_get st (subject i) did = Inr dev"
  shows "\<exists>payload. call_tool (go_codec e) st h rq i modern = Inr \<lparr>tc_owner = subject i, tc_device = did, tc_tool = ts_name sp,
      tc_payload = payload, tc_id = rq_id rq, tc_modern = modern\<rparr> \<and>
    any_text (me_format e) (JObj payload) = print_json (TObj (relayed_arguments kvs))"
proof -
  have w: "writable max_nesting (call_params (ts_name sp) kvs)" using assms(9) by (rule writable_mono) simp
  have vals: "list_all (\<lambda>kv. exact_numbers e (snd kv) \<and> writable max_nesting (snd kv)) kvs"
    using assms(9,10) writable_mono [of "max_nesting - 3" _ max_nesting] by (auto simp: call_params_def list_all_iff max_nesting_def)
  have call: "decode_call (print_json (call_params (ts_name sp) kvs)) = Some (ts_name sp, on_values print_json kvs)"
    using decode_call_text [OF w] struct_tools [OF assms(2)] admitted_keys [OF assms(1-4)] any_map_distinct [of "on_values print_json kvs"] assms(5)
    by simp
  have "map_of (on_values print_json kvs) k = map_option print_json (map_of kvs k)" for k by (induction kvs) (auto simp: on_values_def)
  then have dev: "map_of (on_values print_json kvs) ''device_id'' = Some (print_json (TStr did))" using assms(6) by simp
  have did: "string_or_empty (print_json (TStr did)) = did" "print_json (TStr did) \<noteq> []"
    using tree_print(2) [of "TStr did"] assms(7) by (simp_all add: string_or_empty_def quote_def)
  obtain payload where p: "decode_payload (go_codec e) (AList.delete ''device_id'' (on_values print_json kvs)) = Some payload"
      "any_text (me_format e) (JObj payload) = print_json (TObj (relayed_arguments kvs))"
    using decode_payload_text [OF vals] .
  have cd: "cd_call (go_codec e) = decode_call" "cd_string (go_codec e) = string_or_empty" by (simp_all add: go_codec_def)
  show ?thesis
    using struct_tools [OF assms(2)] p assms(8,11,12) did
    unfolding call_tool_def cd assms(11) call by (simp add: dev del: print_json.simps)
qed

subsection \<open>The answer on its way to the client\<close>

definition answer_tree :: "jtree \<Rightarrow> jtree" where
  "answer_tree t = jmap [(''content'', TArr [jmap [(''type'', TStr ''text''), (''text'', TStr (print_json t))]]), (''structuredContent'', t)]"

definition failure_tree :: "string \<Rightarrow> jtree" where
  "failure_tree msg = jmap [(''content'', TArr [jmap [(''type'', TStr ''text''), (''text'', TStr msg)]]), (''isError'', TBool True)]"

definition reply_tree :: "jtree \<Rightarrow> jtree \<Rightarrow> jtree" where
  "reply_tree rid r = TObj [(''jsonrpc'', TStr ''2.0''), (''id'', rid), (''result'', r)]"

lemma response_text_result:
  assumes "writable max_nesting rid" and "any_tree (me_format e) v = Some r"
  shows "body_text e (mr_body (rpc_write st (print_json rid) (Some v) None)) = print_json (reply_tree rid r) @ [CHR 0x0A]"
  using assms marshal_raw_print [OF assms(1)] print_json_start [OF assms(1)]
  by (simp add: body_text_def rpc_write_def response_text_def raw_field_def plain_field_def struct_text_def reply_tree_def print_TObj print_member_def
      del: print_json.simps(6))

lemma finish_call_text:
  assumes "tc_id c = print_json rid" "writable max_nesting rid" "\<not> tc_modern c"
    and "encode_value en v = Some t" "exact_numbers e t"
  shows "body_text e (mr_body (fst (finish_call (go_codec e) c dur (Inr (outcome_of (encode_result en) message (Inr v)))))) =
    print_json (reply_tree rid (answer_tree (norm_tree (sanitize_tree t)))) @ [CHR 0x0A]"
proof -
  obtain a where a: "tree_any (me_parse e) (sanitize_tree t) = Some a" "any_tree (me_format e) a = Some (norm_tree (sanitize_tree t))"
    using any_normal [of e "sanitize_tree t"] assms(5) by (auto simp: exact_sanitized)
  have w: "writable max_nesting t" using assms(4) by (rule encode_value_writable)
  have ne: "print_json t \<noteq> []" "print_json t \<noteq> ''null''"
    using print_json_start [OF w] print_json_null [OF w] encode_value_object [OF assms(4)] by auto
  have cd: "cd_value (go_codec e) (print_json t) = Some a" "cd_encode (go_codec e) a = print_json (norm_tree (sanitize_tree t))"
    using tree_print(2) [OF w] a by (simp_all add: go_codec_def any_text_def)
  have "fst (finish_call (go_codec e) c dur (Inr (outcome_of (encode_result en) message (Inr v)))) = tool_result (go_codec e) (print_json rid) (Inr a) False"
    using ne cd(1) assms(1,3) by (simp add: finish_call_def outcome_of_def encode_result_def assms(4))
  then show ?thesis
    unfolding tool_result_def using response_text_result [OF assms(2)] a(2) by (simp add: cd(2) answer_tree_def)
qed

lemma finish_call_failure_text:
  assumes "tc_id c = print_json rid" "writable max_nesting rid" "\<not> tc_modern c"
  shows "body_text e (mr_body (fst (finish_call (go_codec e) c dur (Inr (outcome_of (encode_result en) message (Inl x)))))) =
    print_json (reply_tree rid (failure_tree (classify x @ '': '' @ message x))) @ [CHR 0x0A]"
proof -
  have "fst (finish_call (go_codec e) c dur (Inr (outcome_of (encode_result en) message (Inl x)))) =
      tool_result (go_codec e) (print_json rid) (Inl (classify x @ '': '' @ message x)) False"
    using assms(1,3) by (simp add: finish_call_def outcome_of_def)
  then show ?thesis unfolding tool_result_def using response_text_result [OF assms(2)] by (simp add: failure_tree_def)
qed

lemma serve_http_relays_text:
  assumes schema: "sp \<in> set tool_specs" "map_of agent_structs (ts_name sp) = Some (fs, g)" "schema_admits (ts_schema sp) kvs" "modes_fit kvs"
    and arguments: "distinct (map fst kvs)" "map_of kvs ''device_id'' = Some (TStr did)" "sanitize did = did" "trim_space did \<noteq> []"
    and written: "writable (max_nesting - 1) rid" "rid \<noteq> TNull" "writable (max_nesting - 1) (call_params (ts_name sp) kvs)"
      "int (length (call_request rid (ts_name sp) kvs)) \<le> max_body"
    and exact: "list_all (\<lambda>kv. exact_numbers e (snd kv)) kvs"
    and http: "req_method r = ''POST''" "prefix ''application/json'' (to_lower (me_lower e) (req_header r ''Content-Type''))"
      "bearer_token (req_header r ''Authorization'') = Some token" "verify token = Inr i" "tool_scope \<in> scopes i"
      "trim_space (req_header r ''MCP-Protocol-Version'') \<in> {[], legacy_version}" "trim_space (req_header r ''Mcp-Method'') \<in> {[], ''tools/call''}"
      "trim_space (req_header r ''Mcp-Name'') \<in> {[], ts_name sp}"
    and device: "sv_get st (subject i) did = Inr dev"
  shows "\<exists>payload. serve_http (go_codec e) verify url st h r (Some (bytes_of_string (call_request rid (ts_name sp) kvs))) =
      Inr \<lparr>tc_owner = subject i, tc_device = did, tc_tool = ts_name sp, tc_payload = payload, tc_id = print_json rid, tc_modern = False\<rparr> \<and>
    any_text (me_format e) (JObj payload) = print_json (TObj (relayed_arguments kvs))"
proof -
  let ?rq = "\<lparr>rq_jsonrpc = ''2.0'', rq_id = print_json rid, rq_method = ''tools/call'', rq_params = print_json (call_params (ts_name sp) kvs)\<rparr>"
  have w: "writable max_nesting rid" "writable max_nesting (call_params (ts_name sp) kvs)"
    using written(1,3) writable_mono [of "max_nesting - 1" _ max_nesting] by simp_all
  have cd: "cd_request (go_codec e) = decode_request" "cd_name (go_codec e) = lenient_string ''name''"
      "cd_meta_version (go_codec e) = meta_version (me_parse e)" "cd_lower (go_codec e) = me_lower e"
    by (simp_all add: go_codec_def)
  have name: "sanitize (ts_name sp) = ts_name sp" using struct_tools [OF schema(2)] by simp
  have "validate_protocol_headers (go_codec e) r ?rq = Inr False"
    unfolding validate_protocol_headers_iff Let_def cd using call_params_name [OF w(2)] http(6-8) name
    by (auto simp: modern_version_def legacy_version_def)
  moreover have "print_json rid \<noteq> [] \<and> print_json rid \<noteq> ''null''" using print_json_start [OF w(1)] print_json_null [OF w(1)] written(2) by simp
  moreover have "mcp_identity verify url r = Inr i" using http(3-5) by (simp add: mcp_identity_def require_def has_scope_def)
  ultimately have "serve_http (go_codec e) verify url st h r (Some (bytes_of_string (call_request rid (ts_name sp) kvs))) =
      call_tool (go_codec e) st h ?rq i False"
    using http(1,2) written(4) decode_request_text [OF written(1,3)]
    by (simp add: serve_http_def cd dispatch_method_def bindE_def bytes_of_string_def)
  then show ?thesis using call_tool_relays_text [OF schema arguments written(3) exact _ device, of ?rq h False] by auto
qed

lemma relayed_writable:
  assumes "writable (max_nesting - 1) (call_params name kvs)"
  shows "list_all (\<lambda>kv. writable (max_nesting - 1) (snd kv)) kvs" "writable (max_nesting - 1) (TObj (relayed_arguments kvs))"
proof -
  have vals: "list_all (\<lambda>kv. writable (max_nesting - 3) (snd kv)) kvs"
    using assms by (simp add: call_params_def list_all_iff max_nesting_def)
  then show "list_all (\<lambda>kv. writable (max_nesting - 1) (snd kv)) kvs"
    using writable_mono [of "max_nesting - 3" _ "max_nesting - 1"] by (auto simp: list_all_iff)
  show "writable (max_nesting - 1) (TObj (relayed_arguments kvs))"
    using vals writable_norm writable_sanitized writable_mono [of "max_nesting - 3" _ "max_nesting - 2"]
    by (fastforce simp: relayed_arguments_def agent_arguments_def on_values_def list_all_iff max_nesting_def)
qed

section \<open>Properties\<close>


definition demo_mcp :: mcp_env where
  "demo_mcp = \<lparr>me_parse = (\<lambda>lit. if lit = ''5'' then Some 0x4014000000000000 else None), me_format = (\<lambda>_. ''5''),
     me_quote = (\<lambda>s. s), me_lower = (\<lambda>s. s), me_error = (\<lambda>_. ''device offline'')\<rparr>"

text \<open>The hypotheses of the two following examples.\<close>

lemma demo_call_facts:
  defines "sp \<equiv> tool_specs ! 2" and "fs \<equiv> zip read_fields [WString, WInt, WInt]" and "i \<equiv> \<lparr>subject = ''alice'', scopes = {''orc:tools''}, expiry = 0\<rparr>"
  shows "sp \<in> set tool_specs" "ts_name sp = ''read_file''" "map_of agent_structs (ts_name sp) = Some (fs, \<lambda>d raw. dec_read d raw \<noteq> None)"
    "schema_admits (ts_schema sp) demo_arguments" "modes_fit demo_arguments"
    "distinct (map fst demo_arguments)" "map_of demo_arguments ''device_id'' = Some (TStr ''d'')" "sanitize ''d'' = ''d''" "trim_space ''d'' \<noteq> []"
    "writable (max_nesting - 1) (TNum ''1'')" "TNum ''1'' \<noteq> TNull" "writable (max_nesting - 1) (call_params (ts_name sp) demo_arguments)"
    "int (length (call_request (TNum ''1'') (ts_name sp) demo_arguments)) \<le> max_body"
    "list_all (\<lambda>kv. exact_numbers demo_mcp (snd kv)) demo_arguments"
    "req_method demo_http = ''POST''" "prefix ''application/json'' (to_lower (me_lower demo_mcp) (req_header demo_http ''Content-Type''))"
    "bearer_token (req_header demo_http ''Authorization'') = Some ''t''" "demo_verify ''t'' = Inr i" "tool_scope \<in> scopes i"
    "trim_space (req_header demo_http ''MCP-Protocol-Version'') \<in> {[], legacy_version}"
    "trim_space (req_header demo_http ''Mcp-Method'') \<in> {[], ''tools/call''}" "trim_space (req_header demo_http ''Mcp-Name'') \<in> {[], ts_name sp}"
    "\<exists>dev. sv_get (memory_view demo_alice_store) (subject i) ''d'' = Inr dev"
proof -
  show name: "ts_name sp = ''read_file''" unfolding sp_def by code_simp
  show "sp \<in> set tool_specs" unfolding sp_def by (rule nth_mem, code_simp)
  show "map_of agent_structs (ts_name sp) = Some (fs, \<lambda>d raw. dec_read d raw \<noteq> None)" unfolding name fs_def by (simp add: agent_structs_def)
  show "schema_admits (ts_schema sp) demo_arguments" "modes_fit demo_arguments" unfolding sp_def by code_simp+
  show "distinct (map fst demo_arguments)" "map_of demo_arguments ''device_id'' = Some (TStr ''d'')" "TNum ''1'' \<noteq> TNull"
    "list_all (\<lambda>kv. exact_numbers demo_mcp (snd kv)) demo_arguments"
    by (simp_all add: demo_arguments_def demo_mcp_def)
  show "sanitize ''d'' = ''d''" "trim_space ''d'' \<noteq> []" by code_simp+
  show "writable (max_nesting - 1) (TNum ''1'')" "writable (max_nesting - 1) (call_params (ts_name sp) demo_arguments)"
    "int (length (call_request (TNum ''1'') (ts_name sp) demo_arguments)) \<le> max_body"
    unfolding name by code_simp+
  show "req_method demo_http = ''POST''" "prefix ''application/json'' (to_lower (me_lower demo_mcp) (req_header demo_http ''Content-Type''))"
    "bearer_token (req_header demo_http ''Authorization'') = Some ''t''" "demo_verify ''t'' = Inr i" "tool_scope \<in> scopes i"
    "trim_space (req_header demo_http ''MCP-Protocol-Version'') \<in> {[], legacy_version}"
    "trim_space (req_header demo_http ''Mcp-Method'') \<in> {[], ''tools/call''}" "trim_space (req_header demo_http ''Mcp-Name'') \<in> {[], ts_name sp}"
    unfolding name i_def by code_simp+
  have "case sv_get (memory_view demo_alice_store) (subject i) ''d'' of Inl x \<Rightarrow> False | Inr y \<Rightarrow> True" unfolding i_def by code_simp
  then show "\<exists>dev. sv_get (memory_view demo_alice_store) (subject i) ''d'' = Inr dev" by (auto split: sum.splits)
qed


text \<open>
  C6. The endpoint relays a tool call only with authority. Whenever a request leads to a call of the
  hub, the request is a POST of at most 4 MiB with a bearer token that the verifier accepts and that
  has the scope \<^verbatim>\<open>orc:tools\<close>; the call is made in the name of the token's subject, for a device that
  the store holds under that id, owned by that subject and not revoked; the tool is one of the
  executor's tools, the one that the header \<^verbatim>\<open>Mcp-Name\<close> names if it is set; and the payload is the
  decoded arguments of the request's text without the device id.
\<close>

theorem mcp_relays_with_authority:
  assumes "mem_inv m" and "serve_http (go_codec e) verify url (memory_view m) h r content = Inr c"
  shows "\<exists>token i b rq d args. bearer_token (req_header r ''Authorization'') = Some token \<and> verify token = Inr i \<and>
    ''orc:tools'' \<in> scopes i \<and> req_method r = ''POST'' \<and> content = Some b \<and> int (length b) \<le> 4194304 \<and>
    tc_owner c = subject i \<and> get_device m (subject i) (tc_device c) = Inr d \<and> dev_id d = tc_device c \<and>
    owner_subject d = subject i \<and> revoked_at d = None \<and> tc_tool c \<in> set supported_tools \<and>
    trim_space (req_header r ''Mcp-Name'') \<in> {[], tc_tool c} \<and>
    decode_request b = Some rq \<and> decode_call (rq_params rq) = Some (tc_tool c, args) \<and>
    decode_payload (go_codec e) (AList.delete ''device_id'' args) = Some (tc_payload c) \<and> ''device_id'' \<notin> set (map fst (tc_payload c))"
  using go.relays_with_authority [OF assms] by (simp add: go_codec_def)

theorem mcp_relays_with_authority_witness:
  "case serve_http (go_codec demo_mcp) demo_verify ''u'' (memory_view demo_alice_store) (new_hub 2) demo_http
      (Some (bytes_of_string (call_request (TNum ''1'') ''read_file'' demo_arguments))) of
     Inl x \<Rightarrow> False
   | Inr c \<Rightarrow> tc_owner c = ''alice'' \<and> tc_device c = ''d'' \<and> tc_tool c = ''read_file'' \<and> tc_tool c \<in> set supported_tools"
proof -
  let ?run = "serve_http (go_codec demo_mcp) demo_verify ''u'' (memory_view demo_alice_store) (new_hub 2) demo_http
      (Some (bytes_of_string (call_request (TNum ''1'') ''read_file'' demo_arguments)))"
  obtain dev where dev: "sv_get (memory_view demo_alice_store) (subject \<lparr>subject = ''alice'', scopes = {''orc:tools''}, expiry = 0\<rparr>) ''d'' = Inr dev"
    using demo_call_facts(23) by blast
  obtain c where c: "?run = Inr c" "tc_owner c = ''alice''" "tc_device c = ''d''" "tc_tool c = ''read_file''"
    using serve_http_relays_text [where verify = demo_verify, OF demo_call_facts(1,3-22) dev, of "''u''" "new_hub 2"]
    by (auto simp: demo_call_facts(2))
  have inv: "mem_inv demo_alice_store"
    using exec_inv [OF new_memory_inv, of "\<lambda>b. b" "OpCreateDevice 5 demo_dev ''secret''"] by (simp add: demo_alice_store_def)
  have "tc_tool c \<in> set supported_tools" using mcp_relays_with_authority [OF inv c(1)] by blast
  with c show ?thesis by simp
qed

end
