(* ===== verification/Spec2Isabelle.thy ===== *)
theory Spec2Isabelle
  imports Routes McpText
begin

text \<open>
  \<^bold>\<open>Open Remote Commander\<close>: verification library.

  The program lets an MCP client work on paired computers. A server (\<^verbatim>\<open>cmd/orc-server\<close>) has an HTTP interface
  for pairing and devices (\<^verbatim>\<open>internal/controlplane\<close>) and an MCP endpoint (\<^verbatim>\<open>internal/mcpserver\<close>); it
  authenticates users (\<^verbatim>\<open>internal/authn\<close>), keeps devices and pairings in a store (\<^verbatim>\<open>internal/store\<close>), writes
  audit events (\<^verbatim>\<open>internal/audit\<close>) and relays tool calls over websockets (\<^verbatim>\<open>internal/ws\<close>, \<^verbatim>\<open>internal/relay\<close>,
  \<^verbatim>\<open>internal/protocol\<close>). An agent on each computer (\<^verbatim>\<open>cmd/orc-agent\<close>) connects out to the server and runs the tools
  (\<^verbatim>\<open>internal/executor\<close>) within a policy of allowed roots (\<^verbatim>\<open>internal/pathpolicy\<close>), with managers for processes and
  searches (\<^verbatim>\<open>internal/processmgr\<close>, \<^verbatim>\<open>internal/searchmgr\<close>, \<^verbatim>\<open>internal/osproc\<close>). Both read their configuration from
  the environment (\<^verbatim>\<open>internal/config\<close>). \<^verbatim>\<open>cmd/orc-token\<close> prints development tokens.

  \<^bold>\<open>Theories and sources.\<close>
  \<^item> \<open>Prelude\<close>: bytes, errors as values with \<^verbatim>\<open>errors.Is\<close>, time, the parts of package \<^verbatim>\<open>strings\<close> that the sources use,
    and the collection \<open>err_simps\<close> of rules for computations that may fail.
  \<^item> \<open>Paths\<close>, \<open>FileSystem\<close>, \<open>Syscalls\<close>: package \<^verbatim>\<open>path/filepath\<close>, a file system (a table of locations with files,
    directories and symbolic links, and injected I/O errors), and the system calls of the sources on it.
  \<^item> \<open>PathPolicy\<close>: \<^verbatim>\<open>pathpolicy.go\<close>. The locale of resolvers says what the tools rely on and is interpreted on
    \<open>resolve_existing\<close> and \<open>resolve_for_create\<close>.
  \<^item> \<open>FileTools\<close>: the file tools of \<^verbatim>\<open>executor.go\<close>; a tool that changes files returns the list of all states that it
    goes through, so that an interrupted call is covered. \<open>AtomicWrite\<close> and \<open>FileEffects\<close> show what they do.
  \<^item> \<open>Ring\<close>, \<open>ProcessMgr\<close>: \<^verbatim>\<open>processmgr/manager.go\<close>: the output buffer as a window on a stream, and the manager
    with its goroutines as a step relation on a heap of processes.
  \<^item> \<open>SearchMgr\<close>, \<open>SearchWalk\<close>, \<open>SearchSessions\<close>: \<^verbatim>\<open>searchmgr/manager.go\<close>: the walk, a reference enumeration of all
    matches, and the sessions as a step relation.
  \<^item> \<open>OsProc\<close>: \<^verbatim>\<open>osproc/processes.go\<close>. \<open>Executor\<close>: the table of tools, all handlers and \<^verbatim>\<open>Execute\<close> on the state of the
    agent. \<open>Sandbox\<close>: the invariant of the whole agent over every interleaving of calls, processes and searches.
  \<^item> \<open>Ws\<close>, \<open>Handshake\<close>, \<open>Base64\<close>: \<^verbatim>\<open>ws.go\<close>: frames on bytes, messages, and both halves of the opening handshake.
  \<^item> \<open>Protocol\<close>, \<open>Relay\<close>: \<^verbatim>\<open>frame.go\<close> and \<^verbatim>\<open>hub.go\<close>: connections and calls as two heaps, each critical section and
    each arm of a \<^verbatim>\<open>select\<close> one step, in any interleaving.
  \<^item> \<open>Store\<close>: \<^verbatim>\<open>store.go\<close> and \<^verbatim>\<open>memory.go\<close>, with the interface as the locale \<open>device_store\<close>. \<open>Neon\<close>: \<^verbatim>\<open>neonhttp.go\<close>.
  \<^item> \<open>Authn\<close>: \<^verbatim>\<open>authn.go\<close> and \<^verbatim>\<open>trusted.go\<close>. \<open>Limiter\<close>, \<open>ControlPlane\<close>: \<^verbatim>\<open>limiter.go\<close> and \<^verbatim>\<open>http.go\<close>.
  \<^item> \<open>AuditWriter\<close>: \<^verbatim>\<open>writer.go\<close>. \<open>McpTools\<close>, \<open>McpServer\<close>: \<^verbatim>\<open>server.go\<close>; the locale \<open>owner_view\<close> is what the endpoint
    relies on of a store, interpreted on the memory store and on the Neon store.
  \<^item> \<open>Config\<close>, \<open>ServerMain\<close>, \<open>AgentMain\<close>, \<open>Credentials\<close>: \<^verbatim>\<open>config.go\<close> and the three programs, with the agent's credential file,
    its start, its keep-alive goroutine and its reconnection loop.
  \<^item> \<open>Json\<close>: reading and writing JSON texts as \<^verbatim>\<open>encoding/json\<close> does. \<open>ArgDecode\<close>: the decoders of all tool arguments. \<open>WireTypes\<close>: the
    structs of \<^verbatim>\<open>pkg/api/v1/types.go\<close> as types of JSON values, and the JSON of every result of the executor. \<open>ToolArgs\<close>: argument structs,
    published schemas and the agent's decoders compared.
  \<^item> \<open>HttpMessages\<close>: the texts of the requests and replies of \<^verbatim>\<open>http.go\<close>, the pairing page, and the messages of the agent's \<^verbatim>\<open>pair\<close>.
    \<open>MessageText\<close>: the texts of the frames between hub and agent (a raw value is the part of a text that holds it), their sending and receiving on a
    connection. \<open>McpText\<close>: the texts of the MCP endpoint, with the codec that \<open>McpServer\<close> takes as an argument; it interprets the locale \<open>mcp_codec\<close>.
    \<open>Routes\<close>: the route table of the server, the answer to any request, and a specification (\<open>effect\<close>) of what a request may change.

  \<^bold>\<open>State and operations.\<close> A struct is a record with the same fields, a method a function from the state to a
  result and the new state, an error a value of a sum type. Code under a mutex is one operation. Where goroutines
  share state, the operations are the steps of an inductive relation and the properties hold for every reachable
  state. Go's \<^verbatim>\<open>int64\<close> arithmetic is written with \<open>wrap64\<close> where it can overflow.

  \<^bold>\<open>What is shown.\<close>
  \<^item> The sandbox: resolved paths lie inside the allowed roots after all links are followed; no sequence of tool
    calls, completed or cut short, changes anything outside them; writes are atomic; processes, buffers and
    signals stay within the policy (below, from the environment variables on).
  \<^item> The relay: answers are matched to calls and come from the caller's own device; calls in flight are bounded,
    and a closed connection releases them; what the executor returns is what the caller gets. This is followed through
    every layer: the text of the client's request, the endpoint, the frame text on the websocket, the agent's decoder and executor, and back to the reply text.
  \<^item> Access: the endpoint relays calls only for verified identities with the scope, for their own devices;
    loopback trust and origins; tokens verify exactly while they are valid; the introspection cache is sound.
  \<^item> Pairing: credentials are issued once, for approved pairings only, and the flow succeeds from start to end;
    revoked devices stay out; requests are rate limited. On every route of the server, what belongs to a user is
    changed only by the user, the user's devices and pairings the user approved. Agent and server read each other's
    messages as they were written, and saved credentials survive a restart and a crash.
  \<^item> Data: websocket messages and files survive a round trip, malformed frames are refused, process output is a
    stream without unreported loss, a search finds exactly the matches and ends, audit events keep their order.
    Results have the declared wire types, and the published schemas describe what the agent decodes.

  \<^bold>\<open>Bounds and fuel.\<close> \<open>walk\<close> follows at most \<open>max_links\<close> symbolic links, at most 255 as on the supported systems, and
  reports \<open>ELOOP\<close> beyond. The walk of a search descends at most \<open>depth_bound\<close> levels, the length of the longest
  location in the file system, which \<open>search_exact\<close> shows to reach every file. All other recursions are structural
  or have a termination measure.

  \<^bold>\<open>Arguments of the model.\<close> Cryptographic hashes, randomness, clocks, regular expressions, CSV, URL, media type and
  duration parsing, Unicode case tables, the operating system's answers, the introspection server and the SQL
  service, and the conversion of floating-point numbers to and from text. In \<open>Executor\<close>, \<open>AgentMain\<close>, \<open>Authn\<close> and \<open>McpServer\<close> also the JSON codecs, of which
  \<open>ArgDecode\<close>, \<open>WireTypes\<close>, \<open>HttpMessages\<close>, \<open>MessageText\<close> and \<open>McpText\<close> give those of the tool arguments, the results, the HTTP interface, the frames and
  the MCP endpoint. Hypotheses about them are stated where they are used.

  \<^bold>\<open>Not modelled.\<close> TLS and TCP, deadlines of connections, the process umask, and Windows paths. The file tools run
  one at a time: interleavings of two file tools, and of other programs, on the same files are not considered, and
  a search sees one state of the file system. Of the programs: listening and shutdown of the server, signals, and the logging. The routes are
  modelled over the memory store. The dashboard, scripts, migrations and documents are not Go code.
\<close>

section \<open>Properties\<close>


text \<open>An agent with the default configuration that has been asked to write a file and to start a process.\<close>

definition demo_started :: "executor \<times> agent_state" where
  "demo_started = (new_executor demo_policy False, new_agent_state demo_fs (new_manager 8 1048576 (3600 * second) False))"

definition demo_worked :: agent_state where
  "demo_worked = snd (execute (fst demo_started) demo_decoders demo_world ''start_process'' []
     (snd (execute (fst demo_started) demo_decoders demo_world ''write_file'' [] (snd demo_started))))"


end
